(* ===== verification/Prelude.thy ===== *)
theory Prelude
  imports Main "HOL-Library.Word"
begin

text \<open>
  Shared vocabulary of the development: the machine types of the C++ code, the result type
  of code that may throw, the decimal printing of \<open>operator<<\<close> for integers, and the
  generic lemmas the component theories rest on.
\<close>

section \<open>Machine types\<close>

text \<open>
  \<open>std::uint64_t\<close>, \<open>std::uint32_t\<close> and a byte are words of their width; a
  \<open>BlockTime\<close> is a signed 64-bit count of milliseconds, kept as a 64-bit word and read
  with \<^term>\<open>sint\<close>.
\<close>

type_synonym u64 = "64 word"
type_synonym u32 = "32 word"
type_synonym byte = "8 word"
type_synonym block_time = "64 word"

section \<open>Results of code that may fail\<close>

text \<open>
  What a C++ function does instead of returning: an \<open>assert\<close> that fails, an exception of the
  named class, or undefined behaviour (reading \<open>back()\<close> of an empty vector, converting a
  \<open>double\<close> that does not fit, dereferencing an empty pointer).
\<close>

datatype error =
    AssertFailed
  | OutOfRange
  | JsonError
  | InvalidArgument string
  | RuntimeError string
  | LogicError string
  | UndefinedBehaviour
  | Terminated

type_synonym 'a res = "error + 'a"

named_theorems res_simps "how the result combinators compute"

fun bindE :: "'a res \<Rightarrow> ('a \<Rightarrow> 'b res) \<Rightarrow> 'b res" where
  "bindE (Inl e) f = Inl e"
| "bindE (Inr x) f = f x"

definition assertE :: "bool \<Rightarrow> unit res" where
  "assertE p = (if p then Inr () else Inl AssertFailed)"

fun mapE :: "('a \<Rightarrow> 'b res) \<Rightarrow> 'a list \<Rightarrow> 'b list res" where
  "mapE f [] = Inr []"
| "mapE f (x # xs) = bindE (f x) (\<lambda>y. bindE (mapE f xs) (\<lambda>ys. Inr (y # ys)))"

fun foldE :: "('s \<Rightarrow> 'a \<Rightarrow> 's res) \<Rightarrow> 's \<Rightarrow> 'a list \<Rightarrow> 's res" where
  "foldE f s [] = Inr s"
| "foldE f s (x # xs) = bindE (f s x) (\<lambda>s'. foldE f s' xs)"

text \<open>\<open>std::vector::at\<close>, which throws \<open>std::out_of_range\<close>.\<close>

definition atE :: "'a list \<Rightarrow> nat \<Rightarrow> 'a res" where
  "atE xs i = (if i < length xs then Inr (xs ! i) else Inl OutOfRange)"

text \<open>\<open>front()\<close> and \<open>back()\<close> of an empty vector are undefined behaviour.\<close>

definition backE :: "'a list \<Rightarrow> 'a res" where
  "backE xs = (if xs = [] then Inl UndefinedBehaviour else Inr (last xs))"

definition frontE :: "'a list \<Rightarrow> 'a res" where
  "frontE xs = (if xs = [] then Inl UndefinedBehaviour else Inr (hd xs))"

lemma bindE_cong [fundef_cong]:
  "m = m' \<Longrightarrow> (\<And>x. m' = Inr x \<Longrightarrow> f x = f' x) \<Longrightarrow> bindE m f = bindE m' f'"
  by (cases m') auto

lemma bindE_eq_Inr [res_simps]: "bindE m f = Inr y \<longleftrightarrow> (\<exists>x. m = Inr x \<and> f x = Inr y)"
  by (cases m) auto

lemma bindE_eq_Inl [res_simps]:
  "bindE m f = Inl e \<longleftrightarrow> m = Inl e \<or> (\<exists>x. m = Inr x \<and> f x = Inl e)"
  by (cases m) auto

lemma bindE_assoc: "bindE (bindE m f) g = bindE m (\<lambda>x. bindE (f x) g)"
  by (cases m) auto

lemma bindE_return [simp]: "bindE m Inr = m"
  by (cases m) auto

lemma assertE_eq_Inr [res_simps]: "assertE p = Inr u \<longleftrightarrow> p"
  by (simp add: assertE_def)

lemma assertE_True [simp]: "assertE True = Inr ()"
  by (simp add: assertE_def)

lemma assertE_False [simp]: "assertE False = Inl AssertFailed"
  by (simp add: assertE_def)

lemma atE_eq_Inr [res_simps]: "atE xs i = Inr x \<longleftrightarrow> i < length xs \<and> xs ! i = x"
  by (auto simp: atE_def)

lemma atE_inside [simp]: "i < length xs \<Longrightarrow> atE xs i = Inr (xs ! i)"
  by (simp add: atE_def)

lemma atE_outside: "length xs \<le> i \<Longrightarrow> atE xs i = Inl OutOfRange"
  by (simp add: atE_def)

lemma backE_eq_Inr [res_simps]: "backE xs = Inr x \<longleftrightarrow> xs \<noteq> [] \<and> last xs = x"
  by (auto simp: backE_def)

lemma frontE_eq_Inr [res_simps]: "frontE xs = Inr x \<longleftrightarrow> xs \<noteq> [] \<and> hd xs = x"
  by (auto simp: frontE_def)

lemma mapE_eq_Inr_length: "mapE f xs = Inr ys \<Longrightarrow> length ys = length xs"
  by (induction xs arbitrary: ys) (auto simp: res_simps)

lemma mapE_eq_Inr_nth: "mapE f xs = Inr ys \<Longrightarrow> i < length xs \<Longrightarrow> f (xs ! i) = Inr (ys ! i)"
proof (induction xs arbitrary: ys i)
  case Nil
  then show ?case by simp
next
  case (Cons x xs)
  then show ?case by (cases i) (auto simp: res_simps)
qed

lemma mapE_map: "(\<And>x. x \<in> set xs \<Longrightarrow> f x = Inr (g x)) \<Longrightarrow> mapE f xs = Inr (map g xs)"
  by (induction xs) auto

lemma mapE_map_id: "(\<And>x. x \<in> set xs \<Longrightarrow> f (g x) = Inr x) \<Longrightarrow> mapE f (map g xs) = Inr xs"
  by (induction xs) auto

lemma foldE_append: "foldE f s (xs @ ys) = bindE (foldE f s xs) (\<lambda>s'. foldE f s' ys)"
  by (induction xs arbitrary: s) (auto simp: bindE_assoc)

lemma foldE_fold:
  "(\<And>s x. x \<in> set xs \<Longrightarrow> f s x = Inr (g x s)) \<Longrightarrow> foldE f s xs = Inr (fold g xs s)"
  by (induction xs arbitrary: s) auto

lemma foldE_concat:
  "foldE (\<lambda>s x. foldE f s (g x)) s xs = foldE f s (concat (map g xs))"
  by (induction xs arbitrary: s) (auto simp: foldE_append)

lemma foldE_map: "foldE f s (map g xs) = foldE (\<lambda>s x. f s (g x)) s xs"
  by (induction xs arbitrary: s) auto

lemma foldE_cong:
  "(\<And>s x. x \<in> set xs \<Longrightarrow> f s x = g s x) \<Longrightarrow> foldE f s xs = foldE g s xs"
  by (induction xs arbitrary: s) (auto intro: bindE_cong)

text \<open>A loop whose body keeps an invariant keeps it over the whole list.\<close>

lemma foldE_invariant:
  assumes "foldE f s xs = Inr t" and "P s"
    and "\<And>s x s'. x \<in> set xs \<Longrightarrow> P s \<Longrightarrow> f s x = Inr s' \<Longrightarrow> P s'"
  shows "P t"
  using assms
proof (induction xs arbitrary: s)
  case Nil
  then show ?case by simp
next
  case (Cons x xs)
  then obtain s' where "f s x = Inr s'" and "foldE f s' xs = Inr t"
    by (auto simp: res_simps)
  with Cons show ?case by (meson list.set_intros)
qed

section \<open>Decimal printing of integers\<close>

text \<open>\<open>std::ostream << std::uint64_t\<close>: the decimal digits, no leading zero, \<open>0\<close> for zero.\<close>

definition dec_digit :: "nat \<Rightarrow> char" where
  "dec_digit d = ''0123456789'' ! d"

fun nat_dec :: "nat \<Rightarrow> string" where
  "nat_dec n = (if n < 10 then [dec_digit n] else nat_dec (n div 10) @ [dec_digit (n mod 10)])"

declare nat_dec.simps [simp del]

definition u64_dec :: "u64 \<Rightarrow> string" where
  "u64_dec w = nat_dec (unat w)"

text \<open>A signed 64-bit count prints with its sign.\<close>

definition i64_dec :: "u64 \<Rightarrow> string" where
  "i64_dec w = (if sint w < 0 then CHR ''-'' # nat_dec (nat (- sint w)) else nat_dec (nat (sint w)))"

definition digit_value :: "char \<Rightarrow> nat" where
  "digit_value c = of_char c - 48"

definition dec_value :: "string \<Rightarrow> nat" where
  "dec_value = foldl (\<lambda>acc c. 10 * acc + digit_value c) 0"

lemma less_10_cases:
  "(d::nat) < 10 \<Longrightarrow> d = 0 \<or> d = 1 \<or> d = 2 \<or> d = 3 \<or> d = 4 \<or> d = 5 \<or> d = 6 \<or> d = 7 \<or> d = 8 \<or> d = 9"
  by arith

lemma digit_value_dec_digit [simp]: "d < 10 \<Longrightarrow> digit_value (dec_digit d) = d"
  by (drule less_10_cases) (auto simp: digit_value_def dec_digit_def)

lemma dec_value_nat_dec [simp]: "dec_value (nat_dec n) = n"
proof (induction n rule: nat_dec.induct)
  case (1 n)
  then show ?case
    by (subst nat_dec.simps) (auto simp: dec_value_def)
qed

lemma nat_dec_inject [simp]: "nat_dec m = nat_dec n \<longleftrightarrow> m = n"
  by (metis dec_value_nat_dec)

lemma u64_dec_inject [simp]: "u64_dec v = u64_dec w \<longleftrightarrow> v = w"
  by (auto simp: u64_dec_def word_unat_eq_iff)

definition dec_digits :: "char set" where
  "dec_digits = set ''0123456789''"

lemma dec_digit_in: "d < 10 \<Longrightarrow> dec_digit d \<in> dec_digits"
  by (drule less_10_cases) (auto simp: dec_digit_def dec_digits_def)

lemma nat_dec_digits: "set (nat_dec n) \<subseteq> dec_digits"
proof (induction n rule: nat_dec.induct)
  case (1 n)
  have "nat_dec n = (if n < 10 then [dec_digit n] else nat_dec (n div 10) @ [dec_digit (n mod 10)])"
    by (rule nat_dec.simps)
  with 1 dec_digit_in [of n] dec_digit_in [of "n mod 10"] show ?case
    by auto
qed

lemma nat_dec_nonempty [simp]: "nat_dec n \<noteq> []"
  by (subst nat_dec.simps) simp

text \<open>Evaluation on literals, for the concrete instances.\<close>

lemma dec_digit_literal [simp]:
  "dec_digit 0 = CHR ''0''" "dec_digit 1 = CHR ''1''" "dec_digit (Suc 0) = CHR ''1''"
  "dec_digit 2 = CHR ''2''" "dec_digit 3 = CHR ''3''" "dec_digit 4 = CHR ''4''"
  "dec_digit 5 = CHR ''5''" "dec_digit 6 = CHR ''6''" "dec_digit 7 = CHR ''7''"
  "dec_digit 8 = CHR ''8''" "dec_digit 9 = CHR ''9''"
  by (simp_all add: dec_digit_def)

lemma nat_dec_literal [simp]:
  "nat_dec 0 = ''0''" "nat_dec 1 = ''1''" "nat_dec (Suc 0) = ''1''"
  "nat_dec (numeral k) =
     (if numeral k < (10::nat) then [dec_digit (numeral k)]
      else nat_dec (numeral k div 10) @ [dec_digit (numeral k mod 10)])"
  by (subst nat_dec.simps; simp)+

section \<open>Lists\<close>

lemma take_butlast: "take (length xs - Suc 0) xs = butlast xs"
  by (simp add: butlast_conv_take)

lemma unat_2_power: "k < 64 \<Longrightarrow> unat (2 ^ k :: u64) = 2 ^ k"
proof -
  assume k: "k < 64"
  have "(2 ^ k :: u64) = word_of_nat (2 ^ k)" by simp
  moreover have "(2 ^ k :: nat) < 2 ^ 64" using k by (intro power_strict_increasing) simp_all
  ultimately show ?thesis by (simp only: unat_of_nat) simp
qed

lemma successively_snoc:
  "successively P (xs @ [y]) \<longleftrightarrow> successively P xs \<and> (xs = [] \<or> P (last xs) y)"
  by (auto simp: successively_append_iff)

end
