(* ===== verification/Doubles.thy ===== *)
theory Doubles
  imports Prelude
begin

text \<open>
  The C++ \<open>double\<close>: IEEE 754 binary64 with round to nearest, ties to even. A value is its
  64-bit pattern (which is also what the chain file stores); the operations decode it to a
  sign, an integer significand and a binary exponent, compute exactly and round once.
\<close>

type_synonym double = "64 word"

section \<open>Decoding and rounding\<close>

text \<open>\<open>FFin s m e\<close> is \<open>(-1)^s * m * 2^e\<close>.\<close>

datatype fval = FNaN | FInf bool | FFin bool nat int

definition dbl_decode :: "double \<Rightarrow> fval" where
  "dbl_decode d =
     (let n = unat d; s = (2 ^ 63 \<le> n); ex = (n div 2 ^ 52) mod 2048; man = n mod 2 ^ 52
      in if ex = 2047 then (if man = 0 then FInf s else FNaN)
         else if ex = 0 then FFin s man (-1074)
         else FFin s (man + 2 ^ 52) (int ex - 1075))"

text \<open>Division of naturals rounded to the nearest integer, ties to the even one.\<close>

definition rne :: "nat \<Rightarrow> nat \<Rightarrow> nat" where
  "rne n d = (let q = n div d; r = n mod d
              in if 2 * r > d \<or> (2 * r = d \<and> odd q) then q + 1 else q)"

text \<open>The number of binary digits of a natural number.\<close>

fun bitlen :: "nat \<Rightarrow> nat" where
  "bitlen n = (if n = 0 then 0 else Suc (bitlen (n div 2)))"

declare bitlen.simps [simp del]

text \<open>
  The double nearest to \<open>m * 2^e\<close>: the exponent is chosen so that at most 53 bits remain,
  never below the subnormal one; a carry out of the significand moves into the exponent field
  by itself; what does not fit becomes an infinity.
\<close>

definition sign_bit :: "bool \<Rightarrow> nat" where
  "sign_bit s = (if s then 2 ^ 63 else 0)"

definition man_at :: "nat \<Rightarrow> int \<Rightarrow> int \<Rightarrow> nat" where
  "man_at m e e' = (if e' \<le> e then m * 2 ^ nat (e - e') else rne m (2 ^ nat (e' - e)))"

definition dbl_exponent :: "nat \<Rightarrow> int \<Rightarrow> int" where
  "dbl_exponent m e = max (e + int (bitlen m) - 53) (-1074)"

definition dbl_round :: "bool \<Rightarrow> nat \<Rightarrow> int \<Rightarrow> double" where
  "dbl_round s m e =
     (if m = 0 then word_of_nat (sign_bit s)
      else
        let e' = dbl_exponent m e;
            bits = nat (e' + 1074) * 2 ^ 52 + man_at m e e'
        in word_of_nat (sign_bit s + min bits (2047 * 2 ^ 52)))"

definition dbl_nan :: double where
  "dbl_nan = 0x7FF8000000000000"

definition dbl_inf :: "bool \<Rightarrow> double" where
  "dbl_inf s = word_of_nat (sign_bit s + 2047 * 2 ^ 52)"

definition dbl_zero :: double where
  "dbl_zero = 0"

section \<open>Arithmetic and comparison\<close>

definition signed_man :: "bool \<Rightarrow> nat \<Rightarrow> int" where
  "signed_man s m = (if s then - int m else int m)"

text \<open>Two finite values at their common (smaller) exponent.\<close>

definition align :: "bool \<Rightarrow> nat \<Rightarrow> int \<Rightarrow> int \<Rightarrow> int" where
  "align s m e e0 = signed_man s m * 2 ^ nat (e - e0)"

text \<open>The exact value \<open>v * 2^e\<close> rounded; a zero gets the sign \<open>z\<close>.\<close>

definition dbl_result :: "bool \<Rightarrow> int \<Rightarrow> int \<Rightarrow> double" where
  "dbl_result z v e = (if v = 0 then word_of_nat (sign_bit z) else dbl_round (v < 0) (nat \<bar>v\<bar>) e)"

definition dbl_add :: "double \<Rightarrow> double \<Rightarrow> double" where
  "dbl_add a b =
     (case (dbl_decode a, dbl_decode b) of
        (FNaN, _) \<Rightarrow> dbl_nan
      | (_, FNaN) \<Rightarrow> dbl_nan
      | (FInf s, FInf t) \<Rightarrow> if s = t then dbl_inf s else dbl_nan
      | (FInf s, _) \<Rightarrow> dbl_inf s
      | (_, FInf t) \<Rightarrow> dbl_inf t
      | (FFin s m e, FFin t n f) \<Rightarrow>
          (let e0 = min e f in dbl_result (s \<and> t) (align s m e e0 + align t n f e0) e0))"

text \<open>Flipping the sign bit; \<open>x * -1.0\<close> on anything but a NaN.\<close>

definition dbl_neg :: "double \<Rightarrow> double" where
  "dbl_neg a = a + 2 ^ 63"

definition dbl_sub :: "double \<Rightarrow> double \<Rightarrow> double" where
  "dbl_sub a b = dbl_add a (dbl_neg b)"

fun fval_less :: "fval \<Rightarrow> fval \<Rightarrow> bool" where
  "fval_less FNaN _ = False"
| "fval_less _ FNaN = False"
| "fval_less (FInf s) (FInf t) = (s \<and> \<not> t)"
| "fval_less (FInf s) (FFin t n f) = s"
| "fval_less (FFin s m e) (FInf t) = (\<not> t)"
| "fval_less (FFin s m e) (FFin t n f) =
     (let e0 = min e f in align s m e e0 < align t n f e0)"

fun fval_le :: "fval \<Rightarrow> fval \<Rightarrow> bool" where
  "fval_le FNaN _ = False"
| "fval_le _ FNaN = False"
| "fval_le (FInf s) (FInf t) = (s \<or> \<not> t)"
| "fval_le (FInf s) (FFin t n f) = s"
| "fval_le (FFin s m e) (FInf t) = (\<not> t)"
| "fval_le (FFin s m e) (FFin t n f) =
     (let e0 = min e f in align s m e e0 \<le> align t n f e0)"

definition dbl_less :: "double \<Rightarrow> double \<Rightarrow> bool" where
  "dbl_less a b = fval_less (dbl_decode a) (dbl_decode b)"

definition dbl_le :: "double \<Rightarrow> double \<Rightarrow> bool" where
  "dbl_le a b = fval_le (dbl_decode a) (dbl_decode b)"

text \<open>The conversion of an integer constant, \<open>57.00\<close> or \<open>0.0\<close>.\<close>

definition dbl_of_nat :: "nat \<Rightarrow> double" where
  "dbl_of_nat n = dbl_round False n 0"

section \<open>Printing with \<open>operator<<\<close>\<close>

text \<open>
  A stream prints a \<open>double\<close> with its default precision of six significant digits, like
  \<open>printf\<close> with \<open>%g\<close>: the value is rounded to six decimal digits, trailing zeros are dropped,
  and exponents below \<open>-4\<close> or above \<open>5\<close> use the scientific form.
\<close>

text \<open>The least \<open>k\<close> with \<open>den \<le> num * 10^k\<close>, for a quotient below one.\<close>

fun neg_exp10 :: "nat \<Rightarrow> nat \<Rightarrow> nat \<Rightarrow> nat" where
  "neg_exp10 0 num den = 0"
| "neg_exp10 (Suc fuel) num den =
     (if den \<le> num then 0 else Suc (neg_exp10 fuel (num * 10) den))"

text \<open>The decimal exponent of \<open>num / den\<close>; the smallest double needs 324 steps.\<close>

definition exp10 :: "nat \<Rightarrow> nat \<Rightarrow> int" where
  "exp10 num den =
     (if den \<le> num then int (length (nat_dec (num div den))) - 1 else - int (neg_exp10 400 num den))"

text \<open>Six significant digits and the exponent after rounding.\<close>

definition sig_digits :: "nat \<Rightarrow> nat \<Rightarrow> nat \<times> int" where
  "sig_digits num den =
     (let x = exp10 num den;
          d = (if x \<le> 5 then rne (num * 10 ^ nat (5 - x)) den else rne num (den * 10 ^ nat (x - 5)))
      in if d = 10 ^ 6 then (10 ^ 5, x + 1) else (d, x))"

definition strip_zeros :: "string \<Rightarrow> string" where
  "strip_zeros s = rev (dropWhile (\<lambda>c. c = CHR ''0'') (rev s))"

definition with_fraction :: "string \<Rightarrow> string \<Rightarrow> string" where
  "with_fraction i f = (let g = strip_zeros f in if g = [] then i else i @ ''.'' @ g)"

definition exp_text :: "int \<Rightarrow> string" where
  "exp_text x =
     (let a = nat_dec (nat \<bar>x\<bar>); sgn = (if x < 0 then ''e-'' else ''e+'')
      in sgn @ (if length a < 2 then CHR ''0'' # a else a))"

definition layout6 :: "nat \<Rightarrow> int \<Rightarrow> string" where
  "layout6 d x =
     (let ds = nat_dec d
      in if x < -4 \<or> 6 \<le> x then with_fraction (take 1 ds) (drop 1 ds) @ exp_text x
         else if 0 \<le> x then with_fraction (take (nat x + 1) ds) (drop (nat x + 1) ds)
         else with_fraction ''0'' (replicate (nat (- x) - 1) CHR ''0'' @ ds))"

definition fin_text :: "nat \<Rightarrow> int \<Rightarrow> string" where
  "fin_text m e =
     (if m = 0 then ''0''
      else let (d, x) = (if 0 \<le> e then sig_digits (m * 2 ^ nat e) 1 else sig_digits m (2 ^ nat (- e)))
           in layout6 d x)"

definition dbl_str :: "double \<Rightarrow> string" where
  "dbl_str a =
     (case dbl_decode a of
        FNaN \<Rightarrow> (if 2 ^ 63 \<le> unat a then ''-nan'' else ''nan'')
      | FInf s \<Rightarrow> (if s then ''-inf'' else ''inf'')
      | FFin s m e \<Rightarrow> (if s then CHR ''-'' # fin_text m e else fin_text m e))"

definition is_nan :: "double \<Rightarrow> bool" where
  "is_nan a = (dbl_decode a = FNaN)"

section \<open>Integral amounts are exact\<close>

lemma bitlen_0 [simp]: "bitlen 0 = 0"
  by (subst bitlen.simps) simp

lemma bitlen_pos: "0 < n \<Longrightarrow> bitlen n = Suc (bitlen (n div 2))"
  by (subst bitlen.simps) simp

lemma bitlen_bounds: "0 < n \<Longrightarrow> 2 ^ (bitlen n - 1) \<le> n \<and> n < 2 ^ bitlen n"
proof (induction n rule: bitlen.induct)
  case (1 n)
  show ?case
  proof (cases "n = 1")
    case True
    then show ?thesis by (simp add: bitlen_pos)
  next
    case False
    with "1.prems" have half: "0 < n div 2" by simp
    with "1.IH" "1.prems" have ih: "2 ^ (bitlen (n div 2) - 1) \<le> n div 2" "n div 2 < 2 ^ bitlen (n div 2)"
      by auto
    from half obtain k where k: "bitlen (n div 2) = Suc k"
      using bitlen_pos by blast
    from "1.prems" have "bitlen n = Suc (Suc k)" by (simp add: bitlen_pos k)
    with ih k show ?thesis by auto
  qed
qed

lemma bitlen_pos_iff: "0 < bitlen n \<longleftrightarrow> 0 < n"
  by (cases "n = 0") (auto simp: bitlen_pos)

lemma bitlen_le: "n < 2 ^ k \<Longrightarrow> bitlen n \<le> k"
proof (rule ccontr)
  assume "n < 2 ^ k" and "\<not> bitlen n \<le> k"
  then have "k \<le> bitlen n - 1" and "0 < n" using bitlen_pos_iff [of n] by linarith+
  then have "2 ^ k \<le> n"
    using bitlen_bounds [of n] power_increasing [of k "bitlen n - 1" "2::nat"] by linarith
  with \<open>n < 2 ^ k\<close> show False by simp
qed

lemma bitlen_double: "0 < n \<Longrightarrow> bitlen (2 * n) = Suc (bitlen n)"
  by (subst bitlen_pos) simp_all

lemma bitlen_shift: "0 < n \<Longrightarrow> bitlen (n * 2 ^ k) = bitlen n + k"
proof (induction k)
  case 0
  then show ?case by simp
next
  case (Suc k)
  then show ?case
    using bitlen_double [of "n * 2 ^ k"] by (simp add: algebra_simps)
qed

lemma rne_exact: "0 < d \<Longrightarrow> rne (n * d) d = n"
  by (simp add: rne_def)

lemma rne_scale: "0 < c \<Longrightarrow> 0 < d \<Longrightarrow> rne (n * c) (d * c) = rne n d"
  by (simp add: rne_def Let_def mult_mod_left [symmetric] mult.assoc [symmetric])

lemma bitlen_numeral [simp]:
  "bitlen (Suc 0) = 1"
  "bitlen 1 = 1"
  "bitlen (numeral (Num.Bit0 k)) = Suc (bitlen (numeral k))"
  "bitlen (numeral (Num.Bit1 k)) = Suc (bitlen (numeral k))"
  by (simp_all add: bitlen_pos)

text \<open>Shifting the significand left and the exponent down by the same amount changes nothing.\<close>

lemma man_at_shift: "man_at (m * 2 ^ k) (e - int k) e' = man_at m e e'"
proof -
  consider "e' \<le> e - int k" | "e - int k < e'" "e' \<le> e" | "e < e'" by linarith
  then show ?thesis
  proof cases
    case 1
    then have "nat (e - e') = k + nat (e - int k - e')" by simp
    with 1 show ?thesis by (simp add: man_at_def power_add mult.assoc)
  next
    case 2
    define a where "a = nat (e - e')"
    define b where "b = nat (e' - (e - int k))"
    from 2 have "k = a + b" by (simp add: a_def b_def)
    with rne_exact [of "2 ^ b" "m * 2 ^ a"] have "rne (m * 2 ^ k) (2 ^ b) = m * 2 ^ a"
      by (simp add: power_add mult.assoc)
    with 2 show ?thesis by (simp add: man_at_def flip: a_def b_def)
  next
    case 3
    then have "nat (e' - (e - int k)) = nat (e' - e) + k" by simp
    with 3 rne_scale [of "2 ^ k" "2 ^ nat (e' - e)" m] show ?thesis
      by (simp add: man_at_def power_add)
  qed
qed

lemma dbl_round_shift: "dbl_round s (m * 2 ^ k) (e - int k) = dbl_round s m e"
proof (cases "m = 0")
  case True
  then show ?thesis by (simp add: dbl_round_def)
next
  case False
  then have "dbl_exponent (m * 2 ^ k) (e - int k) = dbl_exponent m e"
    by (simp add: dbl_exponent_def bitlen_shift)
  with False show ?thesis
    by (simp add: dbl_round_def man_at_shift)
qed

text \<open>A natural number below \<open>2^53\<close> is a double, and decoding gives it back.\<close>

lemma dbl_decode_of_nat_pos:
  assumes "0 < n" and "n < 2 ^ 53"
  shows "dbl_decode (dbl_of_nat n) = FFin False (n * 2 ^ (53 - bitlen n)) (int (bitlen n) - 53)"
proof -
  define k where "k = 53 - bitlen n"
  define M where "M = n * 2 ^ k"
  have le: "bitlen n \<le> 53" using assms(2) by (rule bitlen_le)
  have pos: "0 < bitlen n" using assms(1) by (simp add: bitlen_pos_iff)
  have "bitlen M = 53" using assms le by (simp add: M_def k_def bitlen_shift)
  then have M: "2 ^ 52 \<le> M" "M < 2 ^ 53"
    using bitlen_bounds [of M] assms by (auto simp: M_def)
  define E where "E = bitlen n + 1021"
  have E: "nat (int (bitlen n) - 53 + 1074) = E" "E \<le> 1074" "1022 \<le> E"
    using le pos by (auto simp: E_def)
  have ex: "dbl_exponent n 0 = int (bitlen n) - 53"
    using pos by (simp add: dbl_exponent_def)
  have "man_at n 0 (int (bitlen n) - 53) = M"
    using le by (simp add: man_at_def M_def k_def nat_diff_distrib)
  then have round: "dbl_of_nat n = word_of_nat (E * 2 ^ 52 + M)"
    using assms E M by (simp add: dbl_of_nat_def dbl_round_def ex sign_bit_def Let_def min_def)
  have "E * 2 ^ 52 + M < 2 ^ 64" using E M by simp
  then have unat: "unat (dbl_of_nat n) = E * 2 ^ 52 + M"
    unfolding round unat_of_nat by simp
  have split: "E * 2 ^ 52 + M = (M - 2 ^ 52) + (E + 1) * 2 ^ 52" using M by simp
  have q: "(E * 2 ^ 52 + M) div 2 ^ 52 = E + 1" and r: "(E * 2 ^ 52 + M) mod 2 ^ 52 = M - 2 ^ 52"
    unfolding split using M by (simp_all only: div_mult_self3 mod_mult_self1) simp_all
  have "\<not> 2 ^ 63 \<le> E * 2 ^ 52 + M" using E M by simp
  then show ?thesis
    using E M le unfolding dbl_decode_def Let_def unat q r
    by (simp add: E_def) (simp add: M_def k_def)
qed


lemma dbl_of_nat_0 [simp]: "dbl_of_nat 0 = 0"
  by (simp add: dbl_of_nat_def dbl_round_def sign_bit_def)

lemma dbl_decode_0 [simp]: "dbl_decode 0 = FFin False 0 (-1074)"
  by (simp add: dbl_decode_def)

lemma dbl_decode_of_nat:
  assumes "n < 2 ^ 53"
  obtains k where "dbl_decode (dbl_of_nat n) = FFin False (n * 2 ^ k) (- int k)"
proof (cases "n = 0")
  case True
  show ?thesis by (rule that [of 1074]) (simp add: True)
next
  case False
  have "bitlen n \<le> 53" using assms by (rule bitlen_le)
  then have exp: "- int (53 - bitlen n) = int (bitlen n) - 53" by simp
  show ?thesis
    by (rule that [of "53 - bitlen n"], unfold exp) (use False assms in \<open>simp add: dbl_decode_of_nat_pos\<close>)
qed

lemma align_of_nat:
  assumes "k \<le> j"
  shows "align s (n * 2 ^ k) (- int k) (- int j) = signed_man s n * 2 ^ j"
proof -
  have "nat (- int k - - int j) = j - k" by simp
  moreover have "(2::int) ^ k * 2 ^ (j - k) = 2 ^ j"
    using assms by (simp flip: power_add)
  ultimately show ?thesis
    by (simp add: align_def signed_man_def mult.assoc)
qed

lemma dbl_result_of_nat: "dbl_result False (int (n * 2 ^ i)) (- int i) = dbl_of_nat n"
proof (cases "n = 0")
  case True
  then show ?thesis by (simp add: dbl_result_def sign_bit_def)
next
  case False
  define x where "x = n * 2 ^ i"
  have "dbl_round False x (- int i) = dbl_of_nat n"
    using dbl_round_shift [of False n i 0] by (simp add: dbl_of_nat_def x_def)
  moreover have "0 < x" using False by (simp add: x_def)
  ultimately show ?thesis
    by (simp add: dbl_result_def flip: x_def)
qed

text \<open>Addition of integral amounts is exact as long as the sum stays below \<open>2^53\<close>.\<close>

lemma dbl_add_of_nat:
  assumes "a + b < 2 ^ 53"
  shows "dbl_add (dbl_of_nat a) (dbl_of_nat b) = dbl_of_nat (a + b)"
proof -
  obtain k where k: "dbl_decode (dbl_of_nat a) = FFin False (a * 2 ^ k) (- int k)"
    using dbl_decode_of_nat [of a] assms by auto
  obtain j where j: "dbl_decode (dbl_of_nat b) = FFin False (b * 2 ^ j) (- int j)"
    using dbl_decode_of_nat [of b] assms by auto
  define i where "i = max k j"
  have e0: "min (- int k) (- int j) = - int i" by (simp add: i_def)
  have "align False (a * 2 ^ k) (- int k) (- int i) + align False (b * 2 ^ j) (- int j) (- int i)
      = int ((a + b) * 2 ^ i)"
    by (simp add: align_of_nat i_def signed_man_def algebra_simps)
  then show ?thesis
    unfolding dbl_add_def k j by (simp only: e0 Let_def prod.case fval.case) (simp add: dbl_result_of_nat del: of_nat_mult)
qed

text \<open>The sign bit is independent of the other fields.\<close>

lemma dbl_fields_sign:
  "(x + 2 ^ 63) div 2 ^ 52 mod 2048 = x div 2 ^ 52 mod (2048::nat)"
  "(x + 2 ^ 63) mod 2 ^ 52 = x mod (2 ^ 52 :: nat)"
proof -
  have gen: "(x + 2048 * c) div c mod 2048 = x div c mod 2048" "(x + 2048 * c) mod c = x mod c"
    if "0 < c" for c :: nat using that by simp_all
  have eq: "x + 2 ^ 63 = x + 2048 * 2 ^ 52" by simp
  show "(x + 2 ^ 63) div 2 ^ 52 mod 2048 = x div 2 ^ 52 mod (2048::nat)"
    unfolding eq by (rule gen) simp
  show "(x + 2 ^ 63) mod 2 ^ 52 = x mod (2 ^ 52 :: nat)"
    unfolding eq by (rule gen) simp
qed

lemma dbl_decode_sign: "dbl_decode d = FFin s m e \<Longrightarrow> s = (2 ^ 63 \<le> unat d)"
  by (simp only: dbl_decode_def Let_def split: if_splits) simp_all

lemma dbl_decode_neg:
  assumes "dbl_decode d = FFin False m e"
  shows "dbl_decode (dbl_neg d) = FFin True m e"
proof -
  define x where "x = unat d"
  have x: "x < 2 ^ 63" using dbl_decode_sign [OF assms] by (simp add: x_def)
  then have u: "unat (dbl_neg d) = x + 2 ^ 63"
    by (simp add: dbl_neg_def x_def unat_word_ariths)
  have "(2 ^ 63 \<le> x) = False" "(2 ^ 63 \<le> x + 2 ^ 63) = True"
    using x by simp_all
  with assms show ?thesis
    by (simp only: dbl_decode_def Let_def u dbl_fields_sign flip: x_def split: if_splits) simp_all
qed

lemma dbl_sub_of_nat:
  assumes "a < 2 ^ 53" and "b \<le> a"
  shows "dbl_sub (dbl_of_nat a) (dbl_of_nat b) = dbl_of_nat (a - b)"
proof -
  obtain k where k: "dbl_decode (dbl_of_nat a) = FFin False (a * 2 ^ k) (- int k)"
    using dbl_decode_of_nat [of a] assms by auto
  obtain j where j0: "dbl_decode (dbl_of_nat b) = FFin False (b * 2 ^ j) (- int j)"
    using dbl_decode_of_nat [of b] assms by auto
  have j: "dbl_decode (dbl_neg (dbl_of_nat b)) = FFin True (b * 2 ^ j) (- int j)"
    using j0 by (rule dbl_decode_neg)
  define i where "i = max k j"
  have e0: "min (- int k) (- int j) = - int i" by (simp add: i_def)
  have "align False (a * 2 ^ k) (- int k) (- int i) + align True (b * 2 ^ j) (- int j) (- int i)
      = int ((a - b) * 2 ^ i)"
    using assms by (simp add: align_of_nat i_def signed_man_def algebra_simps of_nat_diff)
  then show ?thesis
    unfolding dbl_sub_def dbl_add_def k j
    by (simp only: e0 Let_def prod.case fval.case) (simp add: dbl_result_of_nat del: of_nat_mult)
qed

lemma dbl_compare_of_nat:
  assumes "a < 2 ^ 53" and "b < 2 ^ 53"
  shows dbl_le_of_nat: "dbl_le (dbl_of_nat a) (dbl_of_nat b) \<longleftrightarrow> a \<le> b"
    and dbl_less_of_nat: "dbl_less (dbl_of_nat a) (dbl_of_nat b) \<longleftrightarrow> a < b"
proof -
  obtain k where k: "dbl_decode (dbl_of_nat a) = FFin False (a * 2 ^ k) (- int k)"
    using dbl_decode_of_nat [of a] assms by auto
  obtain j where j: "dbl_decode (dbl_of_nat b) = FFin False (b * 2 ^ j) (- int j)"
    using dbl_decode_of_nat [of b] assms by auto
  define i where "i = max k j"
  have e0: "min (- int k) (- int j) = - int i" by (simp add: i_def)
  have al: "align False (a * 2 ^ k) (- int k) (- int i) = int a * 2 ^ i"
    "align False (b * 2 ^ j) (- int j) (- int i) = int b * 2 ^ i"
    by (simp_all add: align_of_nat i_def signed_man_def)
  show "dbl_le (dbl_of_nat a) (dbl_of_nat b) \<longleftrightarrow> a \<le> b"
    unfolding dbl_le_def k j fval_le.simps Let_def e0 al by simp
  show "dbl_less (dbl_of_nat a) (dbl_of_nat b) \<longleftrightarrow> a < b"
    unfolding dbl_less_def k j fval_less.simps Let_def e0 al by simp
qed

section \<open>Signed integral amounts\<close>

text \<open>A double holds the integer \<open>i\<close>; zero has two such doubles, \<open>dbl_of_int\<close> is the positive one.\<close>

definition holds_int :: "double \<Rightarrow> int \<Rightarrow> bool" where
  "holds_int d i \<longleftrightarrow> (\<exists>s m k. dbl_decode d = FFin s (m * 2 ^ k) (- int k) \<and> signed_man s m = i)"

definition dbl_of_int :: "int \<Rightarrow> double" where
  "dbl_of_int i = (if i < 0 then dbl_neg (dbl_of_nat (nat (- i))) else dbl_of_nat (nat i))"

lemma dbl_neg_neg [simp]: "dbl_neg (dbl_neg d) = d"
proof -
  have "(2 ^ 63 + 2 ^ 63 :: double) = 0" by simp
  then show ?thesis by (simp only: dbl_neg_def add.assoc add_0_right)
qed

lemma dbl_decode_neg_iff: "dbl_decode d = FFin s m e \<Longrightarrow> dbl_decode (dbl_neg d) = FFin (\<not> s) m e"
proof (cases s)
  case False
  assume "dbl_decode d = FFin s m e"
  with False show ?thesis using dbl_decode_neg [of d m e] by simp
next
  case True
  assume dec: "dbl_decode d = FFin s m e"
  define x where "x = unat (dbl_neg d)"
  have big: "2 ^ 63 \<le> unat d" using dbl_decode_sign [OF dec] True by simp
  have "unat (dbl_neg d) = (unat d + 2 ^ 63) mod 2 ^ 64"
    by (simp add: dbl_neg_def unat_word_ariths)
  also have "\<dots> = unat d - 2 ^ 63"
  proof -
    have "unat d + 2 ^ 63 = (unat d - 2 ^ 63) + 2 ^ 64" using big by simp
    moreover have "unat d < 2 ^ 64" using unsigned_less [of d, where 'a = nat] by simp
    ultimately show ?thesis using big by (simp only: mod_add_self2) simp
  qed
  finally have x: "x = unat d - 2 ^ 63" by (simp add: x_def)
  then have u: "unat d = x + 2 ^ 63" using big by simp
  have "x < 2 ^ 63" using x big unsigned_less [of d, where 'a = nat] by simp
  then have s: "(2 ^ 63 \<le> x) = False" "(2 ^ 63 \<le> x + 2 ^ 63) = True" by simp_all
  from dec True show ?thesis
    by (simp only: dbl_decode_def Let_def u dbl_fields_sign s flip: x_def split: if_splits) simp_all
qed

lemma holds_int_neg: "holds_int d i \<Longrightarrow> holds_int (dbl_neg d) (- i)"
proof -
  assume "holds_int d i"
  then obtain s m k where "dbl_decode d = FFin s (m * 2 ^ k) (- int k)" "signed_man s m = i"
    by (auto simp: holds_int_def)
  then have "dbl_decode (dbl_neg d) = FFin (\<not> s) (m * 2 ^ k) (- int k)" "signed_man (\<not> s) m = - i"
    by (auto simp: dbl_decode_neg_iff signed_man_def)
  then show ?thesis unfolding holds_int_def by blast
qed

lemma holds_int_of_nat:
  assumes "n < 2 ^ 53"
  shows "holds_int (dbl_of_nat n) (int n)"
proof -
  obtain k where "dbl_decode (dbl_of_nat n) = FFin False (n * 2 ^ k) (- int k)"
    using dbl_decode_of_nat [OF assms] .
  moreover have "signed_man False n = int n" by (simp add: signed_man_def)
  ultimately show ?thesis unfolding holds_int_def by blast
qed

lemma holds_int_of_int:
  assumes "\<bar>i\<bar> < 2 ^ 53"
  shows "holds_int (dbl_of_int i) i"
proof (cases "i < 0")
  case True
  with assms have "holds_int (dbl_neg (dbl_of_nat (nat (- i)))) (- int (nat (- i)))"
    by (intro holds_int_neg holds_int_of_nat) (simp add: nat_less_iff)
  with True show ?thesis by (simp add: dbl_of_int_def)
next
  case False
  with assms holds_int_of_nat [of "nat i"] show ?thesis by (simp add: dbl_of_int_def)
qed

lemma dbl_decode_signed_zero: "dbl_decode (word_of_nat (sign_bit s)) = FFin s (0 * 2 ^ 1074) (- int 1074)"
  by (simp add: sign_bit_def dbl_decode_def)

lemma dbl_round_neg: "m \<noteq> 0 \<Longrightarrow> dbl_round True m e = dbl_neg (dbl_round False m e)"
  by (simp add: dbl_round_def dbl_neg_def sign_bit_def Let_def)

lemma dbl_result_of_int:
  assumes "v \<noteq> 0"
  shows "dbl_result z (v * 2 ^ i) (- int i) = dbl_of_int v"
proof -
  define n where "n = nat \<bar>v\<bar>"
  have n: "n \<noteq> 0" using assms by (simp add: n_def)
  have "nat \<bar>v * 2 ^ i\<bar> = n * 2 ^ i" by (simp add: n_def abs_mult nat_mult_distrib nat_power_eq)
  moreover have "dbl_round False (n * 2 ^ i) (- int i) = dbl_of_nat n"
    using dbl_round_shift [of False n i 0] by (simp add: dbl_of_nat_def)
  moreover have "v * 2 ^ i < 0 \<longleftrightarrow> v < 0" by (simp add: mult_less_0_iff)
  ultimately show ?thesis
    using assms n by (auto simp: dbl_result_def dbl_of_int_def dbl_round_neg n_def)
qed

text \<open>Adding whatever holds an integer to a running total that starts at \<open>0.0\<close> is exact.\<close>

lemma align_holds: "k \<le> j \<Longrightarrow> align s (m * 2 ^ k) (- int k) (- int j) = signed_man s m * 2 ^ j"
  by (rule align_of_nat)

lemma holds_int_add:
  assumes "holds_int x a" and "holds_int y b" and "\<bar>a + b\<bar> < 2 ^ 53"
  shows "holds_int (dbl_add x y) (a + b)"
    and "a + b \<noteq> 0 \<Longrightarrow> dbl_add x y = dbl_of_int (a + b)"
    and "a + b = 0 \<Longrightarrow> x = dbl_of_int a \<Longrightarrow> dbl_add x y = dbl_of_int 0"
proof -
  obtain s m k where x: "dbl_decode x = FFin s (m * 2 ^ k) (- int k)" "signed_man s m = a"
    using assms(1) by (auto simp: holds_int_def)
  obtain t n j where y: "dbl_decode y = FFin t (n * 2 ^ j) (- int j)" "signed_man t n = b"
    using assms(2) by (auto simp: holds_int_def)
  define i where "i = max k j"
  have e0: "min (- int k) (- int j) = - int i" by (simp add: i_def)
  have "align s (m * 2 ^ k) (- int k) (- int i) + align t (n * 2 ^ j) (- int j) (- int i) = (a + b) * 2 ^ i"
    by (simp add: align_holds i_def x y algebra_simps)
  then have add: "dbl_add x y = dbl_result (s \<and> t) ((a + b) * 2 ^ i) (- int i)"
    unfolding dbl_add_def x y by (simp only: e0 Let_def prod.case fval.case)
  show ne: "dbl_add x y = dbl_of_int (a + b)" if "a + b \<noteq> 0"
    unfolding add using that by (rule dbl_result_of_int)
  show "holds_int (dbl_add x y) (a + b)"
  proof (cases "a + b = 0")
    case True
    have "signed_man (s \<and> t) 0 = 0" by (simp add: signed_man_def)
    moreover have "dbl_add x y = word_of_nat (sign_bit (s \<and> t))"
      unfolding add using True by (simp add: dbl_result_def)
    ultimately show ?thesis
      unfolding holds_int_def True using dbl_decode_signed_zero [of "s \<and> t"] by metis
  next
    case False
    then show ?thesis using ne holds_int_of_int [OF assms(3)] by simp
  qed
  show "dbl_add x y = dbl_of_int 0" if "a + b = 0" "x = dbl_of_int a"
  proof -
    have "\<not> (s \<and> t)"
    proof
      assume st: "s \<and> t"
      then have "a \<le> 0" "b \<le> 0" using x y by (auto simp: signed_man_def)
      with that have "x = 0" by (simp add: dbl_of_int_def)
      with x st show False by simp
    qed
    then have "dbl_add x y = word_of_nat (sign_bit False)"
      unfolding add using that by (simp add: dbl_result_def sign_bit_def)
    then show ?thesis by (simp add: sign_bit_def dbl_of_int_def)
  qed
qed

lemma dbl_add_of_int:
  assumes "holds_int y b" and "\<bar>a\<bar> < 2 ^ 53" and "\<bar>a + b\<bar> < 2 ^ 53"
  shows "dbl_add (dbl_of_int a) y = dbl_of_int (a + b)"
proof (cases "a + b = 0")
  case True
  then show ?thesis
    using holds_int_add(3) [OF holds_int_of_int assms(1)] assms(2,3) by simp
next
  case False
  then show ?thesis
    using holds_int_add(2) [OF holds_int_of_int assms(1)] assms(2,3) by simp
qed

lemma holds_int_sub:
  "holds_int x a \<Longrightarrow> holds_int y b \<Longrightarrow> \<bar>a - b\<bar> < 2 ^ 53 \<Longrightarrow> holds_int (dbl_sub x y) (a - b)"
  using holds_int_add(1) [OF _ holds_int_neg, of x a y b] by (simp add: dbl_sub_def)

lemma dbl_of_int_0 [simp]: "dbl_of_int 0 = 0"
  by (simp add: dbl_of_int_def)

lemma dbl_of_int_nat [simp]: "dbl_of_int (int n) = dbl_of_nat n"
  by (simp add: dbl_of_int_def)

lemma holds_int_compare:
  assumes "holds_int x a" and "holds_int y b"
  shows dbl_le_holds: "dbl_le x y \<longleftrightarrow> a \<le> b" and dbl_less_holds: "dbl_less x y \<longleftrightarrow> a < b"
proof -
  obtain s m k where x: "dbl_decode x = FFin s (m * 2 ^ k) (- int k)" "signed_man s m = a"
    using assms(1) by (auto simp: holds_int_def)
  obtain t n j where y: "dbl_decode y = FFin t (n * 2 ^ j) (- int j)" "signed_man t n = b"
    using assms(2) by (auto simp: holds_int_def)
  define i where "i = max k j"
  have e0: "min (- int k) (- int j) = - int i" by (simp add: i_def)
  have al: "align s (m * 2 ^ k) (- int k) (- int i) = a * 2 ^ i"
    "align t (n * 2 ^ j) (- int j) (- int i) = b * 2 ^ i"
    by (simp_all add: align_holds i_def x y)
  show "dbl_le x y \<longleftrightarrow> a \<le> b"
    unfolding dbl_le_def x y fval_le.simps Let_def e0 al by simp
  show "dbl_less x y \<longleftrightarrow> a < b"
    unfolding dbl_less_def x y fval_less.simps Let_def e0 al by simp
qed

text \<open>The integer a double holds, by computation.\<close>

definition dbl_int :: "double \<Rightarrow> int" where
  "dbl_int d = (case dbl_decode d of
      FFin s m e \<Rightarrow> (if 0 \<le> e then signed_man s m * 2 ^ nat e else signed_man s m div 2 ^ nat (- e))
    | _ \<Rightarrow> 0)"

definition integral :: "double \<Rightarrow> bool" where
  "integral d \<longleftrightarrow> holds_int d (dbl_int d)"

lemma holds_int_unique: "holds_int d i \<Longrightarrow> dbl_int d = i"
proof -
  assume "holds_int d i"
  then obtain s m k where d: "dbl_decode d = FFin s (m * 2 ^ k) (- int k)" "signed_man s m = i"
    by (auto simp: holds_int_def)
  have "signed_man s (m * 2 ^ k) = signed_man s m * 2 ^ k" by (simp add: signed_man_def)
  with d show ?thesis by (simp add: dbl_int_def)
qed

lemma integral_iff: "integral d \<longleftrightarrow> (\<exists>i. holds_int d i)"
  using holds_int_unique by (auto simp: integral_def)

lemma integral_of_nat [simp]: "n < 2 ^ 53 \<Longrightarrow> integral (dbl_of_nat n)"
  using holds_int_of_nat by (auto simp: integral_iff)

lemma dbl_int_of_nat [simp]: "n < 2 ^ 53 \<Longrightarrow> dbl_int (dbl_of_nat n) = int n"
  by (rule holds_int_unique) (rule holds_int_of_nat)

lemma dbl_int_of_int [simp]: "\<bar>i\<bar> < 2 ^ 53 \<Longrightarrow> dbl_int (dbl_of_int i) = i"
  by (rule holds_int_unique) (rule holds_int_of_int)

lemma holds_int_zero [simp]: "holds_int 0 0"
  using holds_int_of_nat [of 0] by simp

text \<open>Evaluation on literals: amounts print as one expects.\<close>

lemmas dbl_str_eval =
  dbl_str_def fin_text_def sig_digits_def exp10_def rne_def layout6_def with_fraction_def
  strip_zeros_def exp_text_def dbl_decode_of_nat_pos

lemma dbl_str_literal [simp]:
  "dbl_str (dbl_of_nat 57) = ''57''"
  "dbl_str (dbl_of_nat 10) = ''10''"
  "dbl_str (dbl_of_nat 47) = ''47''"
  by (simp_all add: dbl_str_eval)

end
