(* ===== verification/Libs.thy ===== *)
theory Libs
  imports Doubles
begin

text \<open>
  The third-party code the program calls, as one record of functions that every definition
  using it takes as its argument: nlohmann::json, Crypto++, and boost. What the program relies
  on is stated as named hypotheses (\<open>json_laws\<close>). The last section gives one
  concrete library on which the witnesses are evaluated.
\<close>

section \<open>The library interface\<close>

text \<open>
  For nlohmann::json: the \<open>null\<close> value, the conversions from and to C++ values (a getter throws
  \<open>type_error\<close>), \<open>j[key] = v\<close>, the constant \<open>j[key]\<close>, \<open>push_back\<close>, \<open>contains\<close>, \<open>items\<close>,
  \<open>is_array\<close>, \<open>is_number\<close>, \<open>dump\<close> and the non-throwing \<open>parse\<close> (\<open>None\<close> is a discarded value).
  Strings are taken to be valid UTF-8, so that \<open>dump\<close> returns. For Crypto++: the SHA-256 and
  RIPEMD-160 digests of bytes, the hex encoder (in upper case or not) and decoder, the secp256k1 public point of a private key, and the printing in hex (with its
  suffix \<open>h\<close>) and the reading of a \<open>CryptoPP::Integer\<close>. For boost:
  \<open>hash_combine\<close> (the new seed) with the hashes of the standard library for three types, \<open>iequals\<close>, \<open>trim\<close>,
  \<open>replace_all\<close> and \<open>lexical_cast\<close> to the three integer types the settings use (\<open>None\<close> where it
  throws).
\<close>

datatype js_kind = KNull | KString | KBoolean | KUnsigned | KInteger | KFloat | KObject | KArray

record 'j lib =
  js_null :: 'j
  js_of_u64 :: "u64 \<Rightarrow> 'j"
  js_of_double :: "double \<Rightarrow> 'j"
  js_of_string :: "string \<Rightarrow> 'j"
  js_set :: "'j \<Rightarrow> string \<Rightarrow> 'j \<Rightarrow> 'j"
  js_push :: "'j \<Rightarrow> 'j \<Rightarrow> 'j"
  js_contains :: "'j \<Rightarrow> string \<Rightarrow> bool"
  js_at :: "'j \<Rightarrow> string \<Rightarrow> 'j res"
  js_items :: "'j \<Rightarrow> 'j list"
  js_is_array :: "'j \<Rightarrow> bool"
  js_is_number :: "'j \<Rightarrow> bool"
  js_get_u64 :: "'j \<Rightarrow> u64 res"
  js_get_double :: "'j \<Rightarrow> double res"
  js_get_string :: "'j \<Rightarrow> string res"
  js_dump :: "'j \<Rightarrow> string"
  js_parse :: "string \<Rightarrow> 'j option"
  js_kind_of :: "'j \<Rightarrow> js_kind"
  js_entries :: "'j \<Rightarrow> (string \<times> 'j) list"
  js_of_bool :: "bool \<Rightarrow> 'j"
  js_get_bool :: "'j \<Rightarrow> bool res"
  js_of_i32 :: "u32 \<Rightarrow> 'j"
  js_get_i32 :: "'j \<Rightarrow> u32 res"
  js_dump_indent :: "'j \<Rightarrow> int \<Rightarrow> string"
  sha256_digest :: "string \<Rightarrow> string"
  ripemd160_digest :: "string \<Rightarrow> string"
  hex_encode :: "bool \<Rightarrow> string \<Rightarrow> string"
  hex_decode :: "string \<Rightarrow> string"
  ec_public_point :: "string \<Rightarrow> nat \<times> nat"
  integer_hex :: "nat \<Rightarrow> string"
  integer_of :: "string \<Rightarrow> nat"
  hash_combine :: "u64 \<Rightarrow> u64 \<Rightarrow> u64"
  hash_u64 :: "u64 \<Rightarrow> u64"
  hash_string :: "string \<Rightarrow> u64"
  hash_double :: "double \<Rightarrow> u64"
  iequals :: "string \<Rightarrow> string \<Rightarrow> bool"
  trim :: "string \<Rightarrow> string"
  replace_all :: "string \<Rightarrow> string \<Rightarrow> string \<Rightarrow> string"
  lexical_u64 :: "string \<Rightarrow> u64 option"
  lexical_u32 :: "string \<Rightarrow> u32 option"
  lexical_i32 :: "string \<Rightarrow> u32 option"

text \<open>An object filled by successive \<open>j[key] = v\<close>, and an array filled by \<open>push_back\<close>.\<close>

definition js_object :: "'j lib \<Rightarrow> (string \<times> 'j) list \<Rightarrow> 'j" where
  "js_object L kvs = foldl (\<lambda>j (k, v). js_set L j k v) (js_null L) kvs"

definition js_array :: "'j lib \<Rightarrow> 'j list \<Rightarrow> 'j" where
  "js_array L vs = foldl (js_push L) (js_null L) vs"

text \<open>\<open>j[key].get_to(x)\<close> for the three value types.\<close>

definition at_u64 :: "'j lib \<Rightarrow> 'j \<Rightarrow> string \<Rightarrow> u64 res" where
  "at_u64 L j k = bindE (js_at L j k) (js_get_u64 L)"

definition at_double :: "'j lib \<Rightarrow> 'j \<Rightarrow> string \<Rightarrow> double res" where
  "at_double L j k = bindE (js_at L j k) (js_get_double L)"

definition at_string :: "'j lib \<Rightarrow> 'j \<Rightarrow> string \<Rightarrow> string res" where
  "at_string L j k = bindE (js_at L j k) (js_get_string L)"

section \<open>What the program relies on\<close>

text \<open>
  Documented behaviour of nlohmann::json: a key reads back the last value stored under it;
  reading a missing key of a constant object is undefined, and of \<open>null\<close> an exception; \<open>items\<close> of an
  array are the pushed values in order (none for \<open>null\<close>), and a value converts back to the C++ value it was made from.
\<close>

definition json_laws :: "'j lib \<Rightarrow> bool" where
  "json_laws L \<longleftrightarrow>
     (\<forall>kvs k. js_at L (js_object L kvs) k =
        (case map_of (rev kvs) k of Some v \<Rightarrow> Inr v | None \<Rightarrow> Inl (if kvs = [] then JsonError else UndefinedBehaviour))) \<and>
     (\<forall>kvs k. js_contains L (js_object L kvs) k \<longleftrightarrow> k \<in> fst ` set kvs) \<and>
     (\<forall>vs. js_items L (js_array L vs) = vs) \<and>
     (\<forall>vs. js_is_array L (js_array L vs) \<longleftrightarrow> vs \<noteq> []) \<and>
     (\<forall>x. js_get_u64 L (js_of_u64 L x) = Inr x \<and> js_is_number L (js_of_u64 L x)) \<and>
     (\<forall>x. js_get_double L (js_of_double L x) = Inr x) \<and>
     (\<forall>s. js_get_string L (js_of_string L s) = Inr s)"

named_theorems json_simps "reading back what was stored in a JSON value"

lemma js_at_object [json_simps]:
  "json_laws L \<Longrightarrow> js_at L (js_object L kvs) k =
     (case map_of (rev kvs) k of Some v \<Rightarrow> Inr v | None \<Rightarrow> Inl (if kvs = [] then JsonError else UndefinedBehaviour))"
  by (simp add: json_laws_def)

lemma js_contains_object [json_simps]:
  "json_laws L \<Longrightarrow> js_contains L (js_object L kvs) k \<longleftrightarrow> k \<in> fst ` set kvs"
  by (simp add: json_laws_def)

lemma js_items_array [json_simps]: "json_laws L \<Longrightarrow> js_items L (js_array L vs) = vs"
  by (simp add: json_laws_def)

lemma js_is_array_array [json_simps]: "json_laws L \<Longrightarrow> js_is_array L (js_array L vs) \<longleftrightarrow> vs \<noteq> []"
  by (simp add: json_laws_def)

lemma js_get_of [json_simps]:
  "json_laws L \<Longrightarrow> js_get_u64 L (js_of_u64 L x) = Inr x"
  "json_laws L \<Longrightarrow> js_get_double L (js_of_double L y) = Inr y"
  "json_laws L \<Longrightarrow> js_get_string L (js_of_string L s) = Inr s"
  "json_laws L \<Longrightarrow> js_is_number L (js_of_u64 L x)"
  by (simp_all add: json_laws_def)

text \<open>The kind of a value is that of the C++ value it was made from.\<close>

definition kind_laws :: "'j lib \<Rightarrow> bool" where
  "kind_laws L \<longleftrightarrow>
     (\<forall>s. js_kind_of L (js_of_string L s) = KString) \<and>
     (\<forall>b. js_kind_of L (js_of_bool L b) = KBoolean \<and> js_get_bool L (js_of_bool L b) = Inr b) \<and>
     (\<forall>x. js_kind_of L (js_of_u64 L x) = KUnsigned) \<and>
     (\<forall>i. js_kind_of L (js_of_i32 L i) = KInteger \<and> js_get_i32 L (js_of_i32 L i) = Inr i)"

lemma js_kind_simps [json_simps]:
  "kind_laws L \<Longrightarrow> js_kind_of L (js_of_string L s) = KString"
  "kind_laws L \<Longrightarrow> js_kind_of L (js_of_bool L b) = KBoolean"
  "kind_laws L \<Longrightarrow> js_get_bool L (js_of_bool L b) = Inr b"
  "kind_laws L \<Longrightarrow> js_kind_of L (js_of_u64 L x) = KUnsigned"
  "kind_laws L \<Longrightarrow> js_kind_of L (js_of_i32 L i) = KInteger"
  "kind_laws L \<Longrightarrow> js_get_i32 L (js_of_i32 L i) = Inr i"
  by (simp_all add: kind_laws_def)

text \<open>A value that survives printing and parsing: strings in UTF-8 and finite numbers do.\<close>

definition printable :: "'j lib \<Rightarrow> 'j \<Rightarrow> bool" where
  "printable L j \<longleftrightarrow> js_dump L j \<noteq> [] \<and> js_parse L (js_dump L j) = Some j"

lemmas at_defs = at_u64_def at_double_def at_string_def

section \<open>The contract of a \<open>to_json\<close>/\<open>from_json\<close> pair\<close>

text \<open>
  The loops \<open>for (const auto& x : xs) j.push_back(x)\<close> and
  \<open>for (const auto& i : j.items()) xs.push_back(i.value().get<T>())\<close>, which the program
  repeats for every vector it converts.
\<close>

definition to_json_array :: "('j lib \<Rightarrow> 'a \<Rightarrow> 'j) \<Rightarrow> 'j lib \<Rightarrow> 'a list \<Rightarrow> 'j" where
  "to_json_array f L xs = js_array L (map (f L) xs)"

definition from_json_array :: "('j lib \<Rightarrow> 'j \<Rightarrow> 'a res) \<Rightarrow> 'j lib \<Rightarrow> 'j \<Rightarrow> 'a list res" where
  "from_json_array g L j = mapE (g L) (js_items L j)"

locale json_codec =
  fixes to_j :: "'j lib \<Rightarrow> 'a \<Rightarrow> 'j"
    and from_j :: "'j lib \<Rightarrow> 'j \<Rightarrow> 'a res"
  assumes from_to: "json_laws L \<Longrightarrow> from_j L (to_j L x) = Inr x"
begin

lemma array_from_to:
  "json_laws L \<Longrightarrow> from_json_array from_j L (to_json_array to_j L xs) = Inr xs"
  by (simp add: from_json_array_def to_json_array_def js_items_array mapE_map_id from_to)

lemma to_json_inject: "json_laws L \<Longrightarrow> to_j L x = to_j L y \<longleftrightarrow> x = y"
  by (metis from_to sum.inject(2))

lemma array_inject:
  "json_laws L \<Longrightarrow> to_json_array to_j L xs = to_json_array to_j L ys \<longleftrightarrow> xs = ys"
  by (metis array_from_to sum.inject(2))

end

section \<open>A concrete library\<close>

text \<open>
  JSON values as a tree, printed in nlohmann's compact form but for the order of the keys
  (insertion order here) and string escapes (none here), with stand-ins for the cryptographic functions: the
  digest of \<open>s\<close> is \<open>s\<close> itself behind one digit, which depends on the length of \<open>s\<close> only, so that
  digests never collide and about half of them start with a zero.
\<close>

datatype json =
    JNull
  | JUnsigned u64
  | JSigned u32
  | JBool bool
  | JFloat double
  | JString string
  | JArray "json list"
  | JObject "(string \<times> json) list"

fun tree_set :: "json \<Rightarrow> string \<Rightarrow> json \<Rightarrow> json" where
  "tree_set (JObject kvs) k v = JObject (filter (\<lambda>p. fst p \<noteq> k) kvs @ [(k, v)])"
| "tree_set _ k v = JObject [(k, v)]"

fun tree_push :: "json \<Rightarrow> json \<Rightarrow> json" where
  "tree_push (JArray vs) v = JArray (vs @ [v])"
| "tree_push _ v = JArray [v]"

fun tree_at :: "json \<Rightarrow> string \<Rightarrow> json res" where
  "tree_at (JObject kvs) k = (case map_of kvs k of Some v \<Rightarrow> Inr v | None \<Rightarrow> Inl UndefinedBehaviour)"
| "tree_at _ k = Inl JsonError"

fun tree_contains :: "json \<Rightarrow> string \<Rightarrow> bool" where
  "tree_contains (JObject kvs) k = (k \<in> set (map fst kvs))"
| "tree_contains _ k = False"

fun tree_items :: "json \<Rightarrow> json list" where
  "tree_items JNull = []"
| "tree_items (JArray vs) = vs"
| "tree_items (JObject kvs) = map snd kvs"
| "tree_items j = [j]"

fun tree_get_u64 :: "json \<Rightarrow> u64 res" where
  "tree_get_u64 (JUnsigned x) = Inr x"
| "tree_get_u64 _ = Inl JsonError"

fun tree_get_double :: "json \<Rightarrow> double res" where
  "tree_get_double (JFloat x) = Inr x"
| "tree_get_double (JUnsigned x) = Inr (dbl_of_nat (unat x))"
| "tree_get_double _ = Inl JsonError"

fun tree_get_string :: "json \<Rightarrow> string res" where
  "tree_get_string (JString s) = Inr s"
| "tree_get_string _ = Inl JsonError"

fun is_JArray :: "json \<Rightarrow> bool" where
  "is_JArray (JArray _) = True"
| "is_JArray _ = False"

fun is_JNumber :: "json \<Rightarrow> bool" where
  "is_JNumber (JUnsigned _) = True"
| "is_JNumber (JSigned _) = True"
| "is_JNumber (JFloat _) = True"
| "is_JNumber _ = False"

fun tree_kind :: "json \<Rightarrow> js_kind" where
  "tree_kind JNull = KNull"
| "tree_kind (JUnsigned _) = KUnsigned"
| "tree_kind (JSigned _) = KInteger"
| "tree_kind (JBool _) = KBoolean"
| "tree_kind (JFloat _) = KFloat"
| "tree_kind (JString _) = KString"
| "tree_kind (JArray _) = KArray"
| "tree_kind (JObject _) = KObject"

fun tree_entries :: "json \<Rightarrow> (string \<times> json) list" where
  "tree_entries (JObject kvs) = kvs"
| "tree_entries _ = []"

fun tree_get_bool :: "json \<Rightarrow> bool res" where
  "tree_get_bool (JBool b) = Inr b"
| "tree_get_bool _ = Inl JsonError"

fun tree_get_i32 :: "json \<Rightarrow> u32 res" where
  "tree_get_i32 (JSigned i) = Inr i"
| "tree_get_i32 (JUnsigned x) = Inr (ucast x)"
| "tree_get_i32 _ = Inl JsonError"

fun comma :: "string list \<Rightarrow> string" where
  "comma [] = []"
| "comma [s] = s"
| "comma (s # ss) = s @ CHR '','' # comma ss"

definition quoted :: "string \<Rightarrow> string" where
  "quoted s = CHR 0x22 # s @ [CHR 0x22]"

fun tree_dump :: "json \<Rightarrow> string" where
  "tree_dump JNull = ''null''"
| "tree_dump (JUnsigned x) = u64_dec x"
| "tree_dump (JSigned i) = i64_dec (scast i)"
| "tree_dump (JBool b) = (if b then ''true'' else ''false'')"
| "tree_dump (JFloat x) = dbl_str x"
| "tree_dump (JString s) = quoted s"
| "tree_dump (JArray vs) = ''['' @ comma (map tree_dump vs) @ '']''"
| "tree_dump (JObject kvs) = ''{'' @ comma (map (\<lambda>(k, v). quoted k @ '':'' @ tree_dump v) kvs) @ ''}''"

definition demo_digest :: "string \<Rightarrow> string" where
  "demo_digest s = (if even (length s) then CHR ''0'' # s else CHR ''1'' # s)"

definition demo_lexical :: "nat \<Rightarrow> string \<Rightarrow> 'a :: len word option" where
  "demo_lexical bound s =
     (if s \<noteq> [] \<and> set s \<subseteq> set ''0123456789'' \<and> dec_value s < bound then Some (word_of_nat (dec_value s)) else None)"

definition demo_lib :: "json lib" where
  "demo_lib = \<lparr>js_null = JNull, js_of_u64 = JUnsigned, js_of_double = JFloat, js_of_string = JString,
     js_set = tree_set, js_push = tree_push, js_contains = tree_contains, js_at = tree_at,
     js_items = tree_items, js_is_array = is_JArray, js_is_number = is_JNumber,
     js_get_u64 = tree_get_u64, js_get_double = tree_get_double, js_get_string = tree_get_string,
     js_dump = tree_dump, js_parse = (\<lambda>s. None),
     js_kind_of = tree_kind, js_entries = tree_entries, js_of_bool = JBool, js_get_bool = tree_get_bool,
     js_of_i32 = JSigned, js_get_i32 = tree_get_i32, js_dump_indent = (\<lambda>j n. tree_dump j),
     sha256_digest = demo_digest, ripemd160_digest = demo_digest, hex_encode = (\<lambda>upper s. s), hex_decode = (\<lambda>s. s),
     ec_public_point = (\<lambda>s. (length s, dec_value s)),
     integer_hex = (\<lambda>n. nat_dec n @ ''h''), integer_of = length,
     hash_combine = (\<lambda>seed h. seed * 100 + h), hash_u64 = (\<lambda>x. x), hash_string = (\<lambda>s. word_of_nat (length s)),
     hash_double = (\<lambda>x. x),
     iequals = (=), trim = (\<lambda>s. s), replace_all = (\<lambda>s k v. s),
     lexical_u64 = demo_lexical (2 ^ 64), lexical_u32 = demo_lexical (2 ^ 32), lexical_i32 = demo_lexical (2 ^ 31)\<rparr>"

lemma demo_lib_simps [simp]:
  "js_null demo_lib = JNull" "js_of_u64 demo_lib = JUnsigned" "js_of_double demo_lib = JFloat"
  "js_of_string demo_lib = JString" "js_set demo_lib = tree_set" "js_push demo_lib = tree_push"
  "js_contains demo_lib = tree_contains" "js_at demo_lib = tree_at" "js_items demo_lib = tree_items"
  "js_is_array demo_lib = is_JArray" "js_is_number demo_lib = is_JNumber"
  "js_get_u64 demo_lib = tree_get_u64" "js_get_double demo_lib = tree_get_double"
  "js_get_string demo_lib = tree_get_string" "js_dump demo_lib = tree_dump"
  "sha256_digest demo_lib = demo_digest" "ripemd160_digest demo_lib = demo_digest"
  "hex_encode demo_lib upper s = s" "hex_decode demo_lib s = s"
  "hash_combine demo_lib seed h = seed * 100 + h" "hash_u64 demo_lib x = x"
  "iequals demo_lib = (=)" "integer_of demo_lib = length"
  "js_kind_of demo_lib = tree_kind" "js_entries demo_lib = tree_entries"
  "js_of_bool demo_lib = JBool" "js_get_bool demo_lib = tree_get_bool"
  "js_of_i32 demo_lib = JSigned" "js_get_i32 demo_lib = tree_get_i32"
  "lexical_u64 demo_lib = demo_lexical (2 ^ 64)" "lexical_u32 demo_lib = demo_lexical (2 ^ 32)"
  "trim demo_lib s = s"
  by (simp_all add: demo_lib_def)

lemma tree_object_not_empty:
  "\<exists>kvs'. foldl (\<lambda>j (k, v). tree_set j k v) JNull (kvs @ [p]) = JObject kvs'"
  by (cases p; cases "foldl (\<lambda>j (k, v). tree_set j k v) JNull kvs") auto

lemma tree_object_lookup:
  "tree_at (foldl (\<lambda>j (k, v). tree_set j k v) JNull kvs) k =
     (case map_of (rev kvs) k of Some v \<Rightarrow> Inr v | None \<Rightarrow> Inl (if kvs = [] then JsonError else UndefinedBehaviour))"
proof (induction kvs rule: rev_induct)
  case Nil
  then show ?case by simp
next
  case (snoc p kvs)
  have filt: "map_of (filter (\<lambda>p. fst p \<noteq> a) xs) k = (if k = a then None else map_of xs k)"
    for a and xs :: "(string \<times> json) list"
    by (induction xs) auto
  show ?case
  proof (cases "foldl (\<lambda>j (k, v). tree_set j k v) JNull kvs")
    case (JObject xs)
    with snoc show ?thesis by (cases p) (auto simp: filt map_add_def split: option.splits)
  qed (use snoc in \<open>cases p; auto split: option.splits\<close>)+
qed

lemma tree_object_contains:
  "tree_contains (foldl (\<lambda>j (k, v). tree_set j k v) JNull kvs) k \<longleftrightarrow> k \<in> fst ` set kvs"
proof (induction kvs rule: rev_induct)
  case Nil
  then show ?case by simp
next
  case (snoc p kvs)
  then show ?case
    by (cases p; cases "foldl (\<lambda>j (k, v). tree_set j k v) JNull kvs") force+
qed

lemma tree_array_push: "foldl tree_push JNull (vs @ [v]) = JArray (vs @ [v])"
  by (induction vs arbitrary: v rule: rev_induct) simp_all

lemma demo_json_laws: "json_laws demo_lib"
proof -
  have "tree_items (foldl tree_push JNull vs) = vs" for vs
    by (cases vs rule: rev_cases) (simp_all add: tree_array_push del: foldl_append)
  moreover have "is_JArray (foldl tree_push JNull vs) \<longleftrightarrow> vs \<noteq> []" for vs
    by (cases vs rule: rev_cases) (simp_all add: tree_array_push del: foldl_append)
  ultimately show ?thesis
    by (simp add: json_laws_def js_object_def js_array_def tree_object_lookup tree_object_contains)
qed

lemma demo_kind_laws: "kind_laws demo_lib"
  by (simp add: kind_laws_def)

lemma demo_digest_inject [simp]: "demo_digest s = demo_digest t \<longleftrightarrow> s = t"
  by (auto simp: demo_digest_def)

end
