(* ===== verification/Ordered_Map.thy ===== *)
theory Ordered_Map
  imports Prelude "HOL-Library.Char_ord" "HOL-Library.List_Lexorder"
begin

text \<open>
  \<open>std::map<std::string, T>\<close>: the list of its entries in the order of the keys, which is the order
  in which the program's loops over a map run. Keys compare byte by byte.
\<close>

type_synonym 'a smap = "(string \<times> 'a) list"

text \<open>\<open>m[k] = v\<close> and \<open>insert_or_assign\<close>.\<close>

fun map_put :: "string \<Rightarrow> 'a \<Rightarrow> 'a smap \<Rightarrow> 'a smap" where
  "map_put k v [] = [(k, v)]"
| "map_put k v ((k', v') # m) =
     (if k = k' then (k, v) # m else if k < k' then (k, v) # (k', v') # m else (k', v') # map_put k v m)"

definition sorted_map :: "'a smap \<Rightarrow> bool" where
  "sorted_map m \<longleftrightarrow> sorted_wrt (<) (map fst m)"

lemma map_of_map_put [simp]: "map_of (map_put k v m) = (map_of m)(k \<mapsto> v)"
  by (induction k v m rule: map_put.induct) (auto simp: fun_eq_iff)

lemma set_map_put: "set (map_put k v m) \<subseteq> insert (k, v) (set m)"
  by (induction k v m rule: map_put.induct) auto

lemma fst_map_put: "fst ` set (map_put k v m) = insert k (fst ` set m)"
  by (induction k v m rule: map_put.induct) auto

lemma sorted_map_Cons [simp]: "sorted_map ((k, v) # m) \<longleftrightarrow> (\<forall>y \<in> fst ` set m. k < y) \<and> sorted_map m"
  by (auto simp: sorted_map_def)

lemma sorted_map_Nil [simp]: "sorted_map []"
  by (simp add: sorted_map_def)

lemma sorted_map_put: "sorted_map m \<Longrightarrow> sorted_map (map_put k v m)"
proof (induction k v m rule: map_put.induct)
  case (2 k v k' v' m)
  consider "k = k'" | "k < k'" | "k' < k" by (rule linorder_cases)
  then show ?case
  proof cases
    case 2
    then have "\<forall>y \<in> fst ` set m. k < y" using "2.prems" by (auto intro: less_trans)
    with 2 "2.prems" show ?thesis by simp
  next
    case 3
    then have "\<not> k < k'" "k \<noteq> k'" by auto
    with 2 3 show ?thesis by (simp add: fst_map_put)
  qed (use "2.prems" in simp)
qed simp

lemma sorted_map_distinct: "sorted_map m \<Longrightarrow> distinct (map fst m)"
  by (simp add: sorted_map_def strict_sorted_iff)

lemma key_order_example: "''a:1'' < (''b:1'' :: string)" "''a'' < (''ab'' :: string)"
  by simp_all

end
