(* ===== verification/Json.thy ===== *)
theory Json
  imports Libs
begin

text \<open>
  A text format for the concrete JSON values of \<open>Libs\<close>, on which witnesses run the protocol: JSON with
  a comma behind every member, and bit patterns behind a letter for signed numbers and doubles. The
  parser also takes the texts that the program formats by itself.
\<close>

section \<open>Printing\<close>

definition escape :: "string \<Rightarrow> string" where
  "escape s = concat (map (\<lambda>c. if c = CHR 0x22 \<or> c = CHR 0x5C then [CHR 0x5C, c] else [c]) s)"

fun json_text :: "json \<Rightarrow> string" where
  "json_text JNull = ''null''"
| "json_text (JUnsigned x) = u64_dec x"
| "json_text (JSigned i) = CHR ''i'' # u64_dec (ucast i)"
| "json_text (JBool b) = (if b then ''true'' else ''false'')"
| "json_text (JFloat x) = CHR ''d'' # u64_dec x"
| "json_text (JString s) = CHR 0x22 # escape s @ [CHR 0x22]"
| "json_text (JArray vs) = CHR ''['' # concat (map (\<lambda>v. json_text v @ '','') vs) @ '']''"
| "json_text (JObject kvs) =
     CHR ''{'' # concat (map (\<lambda>(k, v). CHR 0x22 # escape k @ CHR 0x22 # CHR '':'' # json_text v @ '','') kvs) @ ''}''"

section \<open>Parsing\<close>

definition skip_ws :: "string \<Rightarrow> string" where
  "skip_ws s = dropWhile (\<lambda>c. c = CHR '' '') s"

definition skip_comma :: "string \<Rightarrow> string" where
  "skip_comma s = (case skip_ws s of [] \<Rightarrow> [] | c # r \<Rightarrow> if c = CHR '','' then r else c # r)"

definition take_number :: "string \<Rightarrow> u64 \<times> string" where
  "take_number s =
     (word_of_nat (dec_value (takeWhile (\<lambda>c. c \<in> dec_digits) s)), dropWhile (\<lambda>c. c \<in> dec_digits) s)"

fun take_string :: "string \<Rightarrow> (string \<times> string) option" where
  "take_string [] = None"
| "take_string (c # s) =
     (if c = CHR 0x22 then Some ([], s)
      else if c = CHR 0x5C
      then (case s of [] \<Rightarrow> None | d # s' \<Rightarrow> map_option (\<lambda>(t, r). (d # t, r)) (take_string s'))
      else map_option (\<lambda>(t, r). (c # t, r)) (take_string s))"

fun take_value :: "nat \<Rightarrow> string \<Rightarrow> (json \<times> string) option"
  and take_items :: "nat \<Rightarrow> string \<Rightarrow> (json list \<times> string) option"
  and take_members :: "nat \<Rightarrow> string \<Rightarrow> ((string \<times> json) list \<times> string) option" where
  "take_value 0 s = None"
| "take_value (Suc n) s =
     (case skip_ws s of
        [] \<Rightarrow> None
      | c # r \<Rightarrow>
          if c = CHR ''['' then map_option (\<lambda>(vs, r). (JArray vs, r)) (take_items n r)
          else if c = CHR ''{'' then map_option (\<lambda>(kvs, r). (JObject kvs, r)) (take_members n r)
          else if c = CHR 0x22 then map_option (\<lambda>(t, r). (JString t, r)) (take_string r)
          else if c = CHR ''n'' then Some (JNull, drop 3 r)
          else if c = CHR ''t'' then Some (JBool True, drop 3 r)
          else if c = CHR ''f'' then Some (JBool False, drop 4 r)
          else if c = CHR ''i'' then (let (w, r') = take_number r in Some (JSigned (ucast w), r'))
          else if c = CHR ''d'' then (let (w, r') = take_number r in Some (JFloat w, r'))
          else if c \<in> dec_digits then (let (w, r') = take_number (c # r) in Some (JUnsigned w, r'))
          else None)"
| "take_items 0 s = None"
| "take_items (Suc n) s =
     (case skip_ws s of
        [] \<Rightarrow> None
      | c # r \<Rightarrow>
          if c = CHR '']'' then Some ([], r)
          else (case take_value n (c # r) of
                  None \<Rightarrow> None
                | Some (v, r1) \<Rightarrow> map_option (\<lambda>(vs, r2). (v # vs, r2)) (take_items n (skip_comma r1))))"
| "take_members 0 s = None"
| "take_members (Suc n) s =
     (case skip_ws s of
        [] \<Rightarrow> None
      | c # r \<Rightarrow>
          if c = CHR ''}'' then Some ([], r)
          else if c \<noteq> CHR 0x22 then None
          else (case take_string r of
                  None \<Rightarrow> None
                | Some (k, r1) \<Rightarrow>
                    (case skip_ws r1 of
                       [] \<Rightarrow> None
                     | c # r2 \<Rightarrow>
                         if c \<noteq> CHR '':'' then None
                         else (case take_value n r2 of
                                 None \<Rightarrow> None
                               | Some (v, r3) \<Rightarrow>
                                   map_option (\<lambda>(kvs, r4). ((k, v) # kvs, r4)) (take_members n (skip_comma r3))))))"

definition json_parse :: "string \<Rightarrow> json option" where
  "json_parse s =
     (case take_value (length s) s of Some (j, r) \<Rightarrow> if skip_ws r = [] then Some j else None | None \<Rightarrow> None)"

section \<open>Parsing what was printed\<close>

lemma skip_ws_simps [simp]:
  "skip_ws [] = []" "skip_ws (c # s) = (if c = CHR '' '' then skip_ws s else c # s)"
  by (simp_all add: skip_ws_def)

lemma skip_comma_simps [simp]:
  "skip_comma [] = []"
  "skip_comma (c # s) = (if c = CHR '' '' then skip_comma s else if c = CHR '','' then s else c # s)"
  by (simp_all add: skip_comma_def)

lemma take_string_escape [simp]: "take_string (escape s @ CHR 0x22 # r) = Some (s, r)"
  by (induction s) (simp_all add: escape_def)

lemma take_number_dec [simp]:
  assumes "r = [] \<or> hd r \<notin> dec_digits"
  shows "take_number (u64_dec w @ r) = (w, r)"
proof -
  have d: "\<forall>c \<in> set (u64_dec w). c \<in> dec_digits" using nat_dec_digits by (auto simp: u64_dec_def)
  then have "takeWhile (\<lambda>c. c \<in> dec_digits) (u64_dec w @ r) = u64_dec w" "dropWhile (\<lambda>c. c \<in> dec_digits) (u64_dec w @ r) = r"
    using assms by (cases r; auto)+
  then show ?thesis by (simp add: take_number_def) (simp add: u64_dec_def)
qed

lemma u64_dec_start: "\<exists>c s. u64_dec w = c # s \<and> c \<in> dec_digits"
  using nat_dec_digits [of "unat w"] nat_dec_nonempty [of "unat w"] by (cases "u64_dec w") (auto simp: u64_dec_def)

lemma take_value_number:
  assumes "r = [] \<or> hd r \<notin> dec_digits" and "0 < n"
  shows "take_value n (u64_dec w @ r) = Some (JUnsigned w, r)"
proof -
  obtain c s where c: "u64_dec w = c # s" "c \<in> dec_digits" using u64_dec_start by blast
  moreover have "c \<notin> {CHR '' '', CHR ''['', CHR ''{'', CHR 0x22, CHR ''n'', CHR ''t'', CHR ''f'', CHR ''i'', CHR ''d''}"
    using c(2) by (auto simp: dec_digits_def)
  moreover have "take_number (c # s @ r) = (w, r)" using take_number_dec [OF assms(1), of w] c(1) by simp
  ultimately show ?thesis using assms(2) by (cases n) auto
qed

lemma json_text_start: "\<exists>c s. json_text j = c # s \<and> c \<notin> {CHR '' '', CHR '']''}"
proof (cases j)
  case (JUnsigned x)
  then show ?thesis using u64_dec_start [of x] by (auto simp: dec_digits_def)
qed auto

lemma take_items_text:
  assumes "\<forall>v \<in> set vs. \<forall>n r. length (json_text v) \<le> n \<longrightarrow> r = [] \<or> hd r \<notin> dec_digits \<longrightarrow>
      take_value n (json_text v @ r) = Some (v, r)"
    and "length (concat (map (\<lambda>v. json_text v @ '','') vs)) < n"
  shows "take_items n (concat (map (\<lambda>v. json_text v @ '','') vs) @ CHR '']'' # r) = Some (vs, r)"
  using assms
proof (induction vs arbitrary: n)
  case Nil
  then show ?case by (cases n) auto
next
  case (Cons v vs)
  obtain c s where c: "json_text v = c # s" "c \<notin> {CHR '' '', CHR '']''}" using json_text_start by blast
  obtain m where n: "n = Suc m" using Cons.prems(2) by (cases n) auto
  let ?rest = "concat (map (\<lambda>v. json_text v @ '','') vs) @ CHR '']'' # r"
  have "take_value m (json_text v @ CHR '','' # ?rest) = Some (v, CHR '','' # ?rest)"
    using Cons.prems n by (simp add: dec_digits_def)
  moreover have "take_items m ?rest = Some (vs, r)" using Cons n c(1) by simp
  ultimately show ?case using n c by simp
qed

lemma take_members_text:
  assumes "\<forall>(k, v) \<in> set kvs. \<forall>n r. length (json_text v) \<le> n \<longrightarrow> r = [] \<or> hd r \<notin> dec_digits \<longrightarrow>
      take_value n (json_text v @ r) = Some (v, r)"
    and "length (concat (map (\<lambda>(k, v). CHR 0x22 # escape k @ CHR 0x22 # CHR '':'' # json_text v @ '','') kvs)) < n"
  shows "take_members n (concat (map (\<lambda>(k, v). CHR 0x22 # escape k @ CHR 0x22 # CHR '':'' # json_text v @ '','') kvs)
      @ CHR ''}'' # r) = Some (kvs, r)"
  using assms
proof (induction kvs arbitrary: n)
  case Nil
  then show ?case by (cases n) auto
next
  case (Cons p kvs)
  obtain k v where p: "p = (k, v)" by (cases p)
  obtain m where n: "n = Suc m" using Cons.prems(2) by (cases n) auto
  let ?rest = "concat (map (\<lambda>(k, v). CHR 0x22 # escape k @ CHR 0x22 # CHR '':'' # json_text v @ '','') kvs) @ CHR ''}'' # r"
  have "take_value m (json_text v @ CHR '','' # ?rest) = Some (v, CHR '','' # ?rest)"
    using Cons.prems n p by (simp add: dec_digits_def)
  moreover have "take_members m ?rest = Some (kvs, r)" using Cons n p by simp
  ultimately show ?case using n p by simp
qed

lemma take_value_text:
  "length (json_text j) \<le> n \<Longrightarrow> r = [] \<or> hd r \<notin> dec_digits \<Longrightarrow> take_value n (json_text j @ r) = Some (j, r)"
proof (induction j arbitrary: n r)
  case (JUnsigned x)
  then show ?case using take_value_number [of r n x] u64_dec_start [of x] by auto
next
  case (JSigned i)
  then show ?case by (cases n) (auto simp: ucast_up_ucast_id is_up)
next
  case (JArray vs)
  then obtain m where n: "n = Suc m" by (cases n) auto
  with JArray.prems JArray.IH take_items_text [of vs m r] show ?case by auto
next
  case (JObject kvs)
  then obtain m where n: "n = Suc m" by (cases n) auto
  have "\<forall>(k, v) \<in> set kvs. \<forall>n r. length (json_text v) \<le> n \<longrightarrow> r = [] \<or> hd r \<notin> dec_digits \<longrightarrow>
      take_value n (json_text v @ r) = Some (v, r)"
    using JObject.IH by force
  with JObject.prems n take_members_text [of kvs m r] show ?case by auto
next
  case JNull
  then obtain m where "n = Suc m" by (cases n) (auto split: if_splits)
  with JNull.prems show ?case by simp
next
  case (JBool b)
  then obtain m where "n = Suc m" by (cases n) (auto split: if_splits)
  with JBool.prems show ?case by simp
next
  case (JFloat x)
  then obtain m where "n = Suc m" by (cases n) (auto split: if_splits)
  with JFloat.prems show ?case by simp
next
  case (JString s)
  then obtain m where "n = Suc m" by (cases n) (auto split: if_splits)
  with JString.prems show ?case by simp
qed

lemma json_text_nonempty [simp]: "json_text j \<noteq> []"
  using json_text_start [of j] by auto

lemma json_parse_text [simp]: "json_parse (json_text j) = Some j"
  using take_value_text [of j "length (json_text j)" "[]"] by (simp add: json_parse_def)

section \<open>Parsing formatted texts\<close>

lemma take_value_string: "take_value (Suc n) (CHR 0x22 # s) = map_option (\<lambda>(t, r). (JString t, r)) (take_string s)"
  by simp

lemma take_value_object: "take_value (Suc n) (CHR ''{'' # s) = map_option (\<lambda>(kvs, r). (JObject kvs, r)) (take_members n s)"
  by simp

lemmas take_formatted = take_value_string take_value_object take_value_number dec_digits_def quoted_def

end
