(* ===== verification/Digests.thy ===== *)
theory Digests
  imports Libs
begin

text \<open>
  The digests of \<open>CryptoUtils.cpp\<close>: a hash filter between the hex coders of Crypto++. All printed
  digests are in lower case.
\<close>

definition SHA256 :: "'j lib \<Rightarrow> string \<Rightarrow> string" where
  "SHA256 L data = hex_encode L False (sha256_digest L data)"

definition SHA256HexString :: "'j lib \<Rightarrow> string \<Rightarrow> string" where
  "SHA256HexString L data = hex_encode L False (sha256_digest L (hex_decode L data))"

definition RIPEMD160HexString :: "'j lib \<Rightarrow> string \<Rightarrow> string" where
  "RIPEMD160HexString L data = hex_encode L False (ripemd160_digest L (hex_decode L data))"

text \<open>The hash of the bytes that a hex text stands for, and of nothing else.\<close>

lemma SHA256HexString_decoded: "SHA256HexString L data = SHA256 L (hex_decode L data)"
  by (simp add: SHA256HexString_def SHA256_def)

text \<open>The concrete libraries do not code.\<close>

lemma SHA256_plain: "hex_encode L = (\<lambda>upper s. s) \<Longrightarrow> SHA256 L = sha256_digest L"
  by (simp add: SHA256_def fun_eq_iff)

lemma SHA256_demo [simp]:
  "SHA256 demo_lib = demo_digest" "SHA256HexString demo_lib = demo_digest" "RIPEMD160HexString demo_lib = demo_digest"
  "SHA256 (demo_lib\<lparr>sha256_digest := f\<rparr>) = f"
  by (simp_all add: SHA256_def SHA256HexString_def RIPEMD160HexString_def fun_eq_iff)

end
