(* ===== verification/Transactions.thy ===== *)
theory Transactions
  imports Digests
begin

text \<open>
  \<open>Transactions.h\<close> and \<open>Transactions.cpp\<close>: the transaction data, its JSON form, the transaction
  id, the coinbase transaction and the result codes of \<open>CreateTransaction\<close>.
\<close>

section \<open>Data\<close>

record tx_out_point =
  blockIndex :: u64
  txIndex :: u64
  txOutIndex :: u64
  ptAddress :: "string option"
  ptAmount :: "double option"

record tx_in =
  txOutPt :: tx_out_point
  signature :: string

record tx_out =
  address :: string
  amount :: double

record transaction =
  txId :: string
  txIns :: "tx_in list"
  txOuts :: "tx_out list"

definition make_point :: "u64 \<Rightarrow> u64 \<Rightarrow> u64 \<Rightarrow> tx_out_point" where
  "make_point b t j = \<lparr>blockIndex = b, txIndex = t, txOutIndex = j, ptAddress = None, ptAmount = None\<rparr>"

definition make_tx_in :: "u64 \<Rightarrow> u64 \<Rightarrow> u64 \<Rightarrow> string \<Rightarrow> tx_in" where
  "make_tx_in b t j sig = \<lparr>txOutPt = make_point b t j, signature = sig\<rparr>"

text \<open>\<open>Transaction tx;\<close> is an empty transaction.\<close>

definition empty_transaction :: transaction where
  "empty_transaction = \<lparr>txId = [], txIns = [], txOuts = []\<rparr>"

definition COINBASE_REWARD :: double where
  "COINBASE_REWARD = dbl_of_nat 57"

section \<open>Result codes\<close>

datatype tx_result = SUCCESS | INSUFFICIENT_FUNDS | TXOUTS_EMPTY | NOOP_TRANSACTION

fun tx_result_to_string :: "tx_result \<Rightarrow> string res" where
  "tx_result_to_string SUCCESS = Inr ''success''"
| "tx_result_to_string INSUFFICIENT_FUNDS = Inr ''insufficient_fund''"
| "tx_result_to_string TXOUTS_EMPTY = Inr ''txouts_empty''"
| "tx_result_to_string NOOP_TRANSACTION = Inl (RuntimeError ''unknown TxResult'')"

definition tx_result_from_string :: "string \<Rightarrow> tx_result res" where
  "tx_result_from_string str =
     (if str = ''success'' then Inr SUCCESS
      else if str = ''insufficient_funds'' then Inr INSUFFICIENT_FUNDS
      else if str = ''txouts_empty'' then Inr TXOUTS_EMPTY
      else Inl (RuntimeError (''unknown TxResult '' @ CHR 0x27 # str @ [CHR 0x27])))"

section \<open>JSON\<close>

definition point_to_json :: "'j lib \<Rightarrow> tx_out_point \<Rightarrow> 'j" where
  "point_to_json L pt = js_object L
     ([(''blockIndex'', js_of_u64 L (blockIndex pt)),
       (''txIndex'', js_of_u64 L (txIndex pt)),
       (''txOutIndex'', js_of_u64 L (txOutIndex pt))]
      @ (case ptAddress pt of Some a \<Rightarrow> [(''address'', js_of_string L a)] | None \<Rightarrow> [])
      @ (case ptAmount pt of Some x \<Rightarrow> [(''amount'', js_of_double L x)] | None \<Rightarrow> []))"

definition point_from_json :: "'j lib \<Rightarrow> 'j \<Rightarrow> tx_out_point res" where
  "point_from_json L j =
     bindE (at_u64 L j ''blockIndex'') (\<lambda>b.
     bindE (at_u64 L j ''txIndex'') (\<lambda>t.
     bindE (at_u64 L j ''txOutIndex'') (\<lambda>i.
     bindE (if js_contains L j ''address'' then map_sum id Some (at_string L j ''address'') else Inr None) (\<lambda>a.
     bindE (if js_contains L j ''amount'' then map_sum id Some (at_double L j ''amount'') else Inr None) (\<lambda>x.
     Inr \<lparr>blockIndex = b, txIndex = t, txOutIndex = i, ptAddress = a, ptAmount = x\<rparr>)))))"

definition tx_in_to_json :: "'j lib \<Rightarrow> tx_in \<Rightarrow> 'j" where
  "tx_in_to_json L tx = js_object L
     [(''txOutPt'', point_to_json L (txOutPt tx)), (''signature'', js_of_string L (signature tx))]"

definition tx_in_from_json :: "'j lib \<Rightarrow> 'j \<Rightarrow> tx_in res" where
  "tx_in_from_json L j =
     bindE (bindE (js_at L j ''txOutPt'') (point_from_json L)) (\<lambda>pt.
     bindE (at_string L j ''signature'') (\<lambda>s.
     Inr \<lparr>txOutPt = pt, signature = s\<rparr>))"

definition tx_ins_to_json :: "'j lib \<Rightarrow> tx_in list \<Rightarrow> 'j" where
  "tx_ins_to_json = to_json_array tx_in_to_json"

definition tx_ins_from_json :: "'j lib \<Rightarrow> 'j \<Rightarrow> tx_in list res" where
  "tx_ins_from_json = from_json_array tx_in_from_json"

definition tx_out_to_json :: "'j lib \<Rightarrow> tx_out \<Rightarrow> 'j" where
  "tx_out_to_json L txout = js_object L
     [(''address'', js_of_string L (address txout)), (''amount'', js_of_double L (amount txout))]"

definition tx_out_from_json :: "'j lib \<Rightarrow> 'j \<Rightarrow> tx_out res" where
  "tx_out_from_json L j =
     bindE (at_string L j ''address'') (\<lambda>a.
     bindE (at_double L j ''amount'') (\<lambda>x.
     Inr \<lparr>address = a, amount = x\<rparr>))"

definition tx_outs_to_json :: "'j lib \<Rightarrow> tx_out list \<Rightarrow> 'j" where
  "tx_outs_to_json = to_json_array tx_out_to_json"

definition tx_outs_from_json :: "'j lib \<Rightarrow> 'j \<Rightarrow> tx_out list res" where
  "tx_outs_from_json = from_json_array tx_out_from_json"

definition transaction_to_json :: "'j lib \<Rightarrow> transaction \<Rightarrow> 'j" where
  "transaction_to_json L tx = js_object L
     [(''id'', js_of_string L (txId tx)), (''inputs'', tx_ins_to_json L (txIns tx)),
      (''outputs'', tx_outs_to_json L (txOuts tx))]"

definition transaction_from_json :: "'j lib \<Rightarrow> 'j \<Rightarrow> transaction res" where
  "transaction_from_json L j =
     bindE (at_string L j ''id'') (\<lambda>i.
     bindE (bindE (js_at L j ''inputs'') (tx_ins_from_json L)) (\<lambda>ins.
     bindE (bindE (js_at L j ''outputs'') (tx_outs_from_json L)) (\<lambda>outs.
     Inr \<lparr>txId = i, txIns = ins, txOuts = outs\<rparr>)))"

definition transactions_to_json :: "'j lib \<Rightarrow> transaction list \<Rightarrow> 'j" where
  "transactions_to_json = to_json_array transaction_to_json"

definition transactions_from_json :: "'j lib \<Rightarrow> 'j \<Rightarrow> transaction list res" where
  "transactions_from_json = from_json_array transaction_from_json"

definition unspent_to_json :: "'j lib \<Rightarrow> tx_out_point list \<Rightarrow> 'j" where
  "unspent_to_json = to_json_array point_to_json"

definition unspent_from_json :: "'j lib \<Rightarrow> 'j \<Rightarrow> tx_out_point list res" where
  "unspent_from_json = from_json_array point_from_json"

lemmas json_array_defs =
  tx_ins_to_json_def tx_ins_from_json_def tx_outs_to_json_def tx_outs_from_json_def
  transactions_to_json_def transactions_from_json_def unspent_to_json_def unspent_from_json_def

text \<open>Every pair meets the contract; each vector pair gets its law from its element pair.\<close>

interpretation point_json: json_codec point_to_json point_from_json
  by unfold_locales
    (auto simp: point_to_json_def point_from_json_def at_defs json_simps split: option.splits)

interpretation tx_in_json: json_codec tx_in_to_json tx_in_from_json
  by unfold_locales
    (simp add: tx_in_to_json_def tx_in_from_json_def at_defs json_simps point_json.from_to)

interpretation tx_out_json: json_codec tx_out_to_json tx_out_from_json
  by unfold_locales (simp add: tx_out_to_json_def tx_out_from_json_def at_defs json_simps)

interpretation tx_ins_json: json_codec tx_ins_to_json tx_ins_from_json
  by unfold_locales (simp add: json_array_defs tx_in_json.array_from_to)

interpretation tx_outs_json: json_codec tx_outs_to_json tx_outs_from_json
  by unfold_locales (simp add: json_array_defs tx_out_json.array_from_to)

interpretation transaction_json: json_codec transaction_to_json transaction_from_json
  by unfold_locales
    (simp add: transaction_to_json_def transaction_from_json_def at_defs json_simps
      tx_ins_json.from_to tx_outs_json.from_to)

interpretation transactions_json: json_codec transactions_to_json transactions_from_json
  by unfold_locales (simp add: json_array_defs transaction_json.array_from_to)

interpretation unspent_json: json_codec unspent_to_json unspent_from_json
  by unfold_locales (simp add: json_array_defs point_json.array_from_to)

section \<open>Hashes for containers\<close>

text \<open>
  \<open>std::hash\<close> of an output point combines the three indices only; that of an input combines the hash of
  its point with the last index once more. Only the first one is used.
\<close>

definition point_key :: "'j lib \<Rightarrow> tx_out_point \<Rightarrow> u64" where
  "point_key L p =
     (let seed = hash_combine L 0 (hash_u64 L (blockIndex p));
          seed = hash_combine L seed (hash_u64 L (txIndex p))
      in hash_combine L seed (hash_u64 L (txOutIndex p)))"

definition tx_in_key :: "'j lib \<Rightarrow> tx_in \<Rightarrow> u64" where
  "tx_in_key L txin =
     (let seed = hash_combine L 0 (point_key L (txOutPt txin))
      in hash_combine L seed (hash_u64 L (txOutIndex (txOutPt txin))))"

definition tx_out_key :: "'j lib \<Rightarrow> tx_out \<Rightarrow> u64" where
  "tx_out_key L txout =
     (let seed = hash_combine L 0 (hash_string L (address txout))
      in hash_combine L seed (hash_double L (amount txout)))"

section \<open>Transaction ids\<close>

definition tx_in_id_text :: "tx_in \<Rightarrow> string" where
  "tx_in_id_text txin =
     u64_dec (blockIndex (txOutPt txin)) @ u64_dec (txIndex (txOutPt txin)) @ u64_dec (txOutIndex (txOutPt txin))"

definition tx_out_id_text :: "tx_out \<Rightarrow> string" where
  "tx_out_id_text txout = address txout @ dbl_str (amount txout)"

definition tx_id_text :: "transaction \<Rightarrow> u64 \<Rightarrow> string" where
  "tx_id_text tx blockid =
     concat (map tx_in_id_text (txIns tx)) @ concat (map tx_out_id_text (txOuts tx)) @ u64_dec blockid"

definition GetTransactionId :: "'j lib \<Rightarrow> transaction \<Rightarrow> u64 \<Rightarrow> string" where
  "GetTransactionId L tx blockid = SHA256 L (tx_id_text tx blockid)"

definition calcuateId :: "'j lib \<Rightarrow> u64 \<Rightarrow> transaction \<Rightarrow> transaction" where
  "calcuateId L blockid tx = tx\<lparr>txId := GetTransactionId L tx blockid\<rparr>"

definition CreateCoinbaseTransaction :: "'j lib \<Rightarrow> u64 \<Rightarrow> string \<Rightarrow> transaction" where
  "CreateCoinbaseTransaction L blockIdx addr =
     (let tx = \<lparr>txId = [], txIns = [make_tx_in blockIdx 0 0 []],
                txOuts = [\<lparr>address = addr, amount = COINBASE_REWARD\<rparr>]\<rparr>
      in tx\<lparr>txId := GetTransactionId L tx blockIdx\<rparr>)"

definition isCoinbase :: "transaction \<Rightarrow> bool res" where
  "isCoinbase tx =
     bindE (assertE (txIns tx \<noteq> [])) (\<lambda>_.
     bindE (assertE (txOuts tx \<noteq> [])) (\<lambda>_.
     bindE (atE (txIns tx) 0) (\<lambda>txin.
     Inr (txIndex (txOutPt txin) = 0 \<and> txOutIndex (txOutPt txin) = 0
          \<and> signature (hd (txIns tx)) = []))))"

text \<open>A transaction with inputs and outputs, the only kind the chain code accepts.\<close>

definition wf_transaction :: "transaction \<Rightarrow> bool" where
  "wf_transaction tx \<longleftrightarrow> txIns tx \<noteq> [] \<and> txOuts tx \<noteq> []"

definition coinbase_tx :: "transaction \<Rightarrow> bool" where
  "coinbase_tx tx \<longleftrightarrow>
     (case txIns tx of [] \<Rightarrow> False
      | txin # _ \<Rightarrow> txIndex (txOutPt txin) = 0 \<and> txOutIndex (txOutPt txin) = 0 \<and> signature txin = [])"

lemma isCoinbase_wf [simp]: "wf_transaction tx \<Longrightarrow> isCoinbase tx = Inr (coinbase_tx tx)"
  by (auto simp: isCoinbase_def wf_transaction_def coinbase_tx_def split: list.splits)

lemma isCoinbase_eq_Inr [res_simps]:
  "isCoinbase tx = Inr b \<longleftrightarrow> wf_transaction tx \<and> b = coinbase_tx tx"
  by (auto simp: isCoinbase_def wf_transaction_def coinbase_tx_def res_simps split: list.splits)

lemma coinbase_created [simp]:
  "wf_transaction (CreateCoinbaseTransaction L b a)"
  "coinbase_tx (CreateCoinbaseTransaction L b a)"
  by (simp_all add: CreateCoinbaseTransaction_def wf_transaction_def coinbase_tx_def make_tx_in_def
      make_point_def)

end
