(* ===== verification/Blocks.thy ===== *)
theory Blocks
  imports Transactions
begin

text \<open>
  \<open>Block.h\<close> and \<open>Block.cpp\<close>: a block, the hash over its header and transactions, the two
  validity checks, and its JSON form. The hash function and the JSON library are the argument
  \<open>L\<close>.
\<close>

section \<open>Data\<close>

record hashed_data =
  index :: u64
  nonce :: u64
  difficulty :: u64
  blockData :: string
  blockTime :: block_time
  previousHash :: string
  transactions :: "transaction list"

record block = hashed_data +
  hash :: string
  miner :: string

text \<open>\<open>Block()\<close> as \<open>std::vector::resize\<close> makes it: value-initialised.\<close>

definition default_block :: block where
  "default_block = \<lparr>index = 0, nonce = 0, difficulty = 0, blockData = [], blockTime = 0,
     previousHash = [], transactions = [], hash = [], miner = []\<rparr>"

text \<open>\<open>operator==\<close> looks at four of the header fields only.\<close>

definition block_equal :: "block \<Rightarrow> block \<Rightarrow> bool" where
  "block_equal a b \<longleftrightarrow>
     index a = index b \<and> nonce a = nonce b \<and> blockData a = blockData b \<and> blockTime a = blockTime b"

definition setMinedData :: "u64 \<Rightarrow> u64 \<Rightarrow> block_time \<Rightarrow> string \<Rightarrow> block \<Rightarrow> block" where
  "setMinedData n diff t h b = b\<lparr>nonce := n, difficulty := diff, blockTime := t, hash := h\<rparr>"

definition setMiner :: "string \<Rightarrow> block \<Rightarrow> block" where
  "setMiner val b = b\<lparr>miner := val\<rparr>"

definition setData :: "string \<Rightarrow> block \<Rightarrow> block" where
  "setData d b = b\<lparr>blockData := d\<rparr>"

section \<open>Hashing and validity\<close>

definition block_hash_text :: "u64 \<Rightarrow> u64 \<Rightarrow> u64 \<Rightarrow> block_time \<Rightarrow> string \<Rightarrow> string \<Rightarrow> string \<Rightarrow> string" where
  "block_hash_text idx non diff t dat prev extra =
     u64_dec idx @ u64_dec non @ u64_dec diff @ dat @ i64_dec t @ prev @ extra"

definition CalculateHash :: "'j lib \<Rightarrow> u64 \<Rightarrow> u64 \<Rightarrow> u64 \<Rightarrow> block_time \<Rightarrow> string \<Rightarrow> string \<Rightarrow> string \<Rightarrow> string" where
  "CalculateHash L idx non diff t dat prev extra =
     SHA256 L (block_hash_text idx non diff t dat prev extra)"

definition transactions_digest :: "'j lib \<Rightarrow> transaction list \<Rightarrow> string" where
  "transactions_digest L txs = SHA256 L (js_dump L (transactions_to_json L txs))"

definition CalculateBlockHash :: "'j lib \<Rightarrow> block \<Rightarrow> string" where
  "CalculateBlockHash L b =
     CalculateHash L (index b) (nonce b) (difficulty b) (blockTime b) (blockData b) (previousHash b)
       (transactions_digest L (transactions b))"

text \<open>
  \<open>zeros.assign(n, '0')\<close> and \<open>h.compare(0, n, zeros) == 0\<close>: the compared part of \<open>h\<close> is its
  first \<open>min n (size h)\<close> characters.
\<close>

definition hash_has_zeros :: "u64 \<Rightarrow> string \<Rightarrow> bool" where
  "hash_has_zeros diff h \<longleftrightarrow> take (unat diff) h = replicate (unat diff) (CHR ''0'')"

definition ValidHash :: "'j lib \<Rightarrow> block \<Rightarrow> bool" where
  "ValidHash L b =
     (if CalculateBlockHash L b \<noteq> hash b then False
      else if \<not> hash_has_zeros (difficulty b) (hash b) then False
      else True)"

definition ValidNewBlock :: "'j lib \<Rightarrow> block \<Rightarrow> block \<Rightarrow> bool" where
  "ValidNewBlock L b prevblock =
     (if \<not> ValidHash L b then False
      else index b = index prevblock + 1 \<and> previousHash b = hash prevblock)"

text \<open>The constructor: \<open>now\<close> is the clock reading.\<close>

definition new_block :: "'j lib \<Rightarrow> block_time \<Rightarrow> u64 \<Rightarrow> string \<Rightarrow> transaction list \<Rightarrow> block" where
  "new_block L now idx prev txs =
     (let b = default_block\<lparr>index := idx, nonce := 0, difficulty := 1, blockTime := now,
                            previousHash := prev, transactions := txs\<rparr>
      in b\<lparr>hash := CalculateBlockHash L b\<rparr>)"

text \<open>\<open>operator<<\<close>.\<close>

definition block_line :: "block \<Rightarrow> string" where
  "block_line b = ''block { index: '' @ u64_dec (index b) @ '' hash: '' @ hash b @ '' data: '' @ blockData b @ '' }''"

section \<open>JSON\<close>

definition block_to_json :: "'j lib \<Rightarrow> block \<Rightarrow> 'j" where
  "block_to_json L b = js_object L
     [(''index'', js_of_u64 L (index b)), (''nonce'', js_of_u64 L (nonce b)),
      (''difficulty'', js_of_u64 L (difficulty b)), (''hash'', js_of_string L (hash b)),
      (''prev'', js_of_string L (previousHash b)), (''miner'', js_of_string L (miner b)),
      (''data'', js_of_string L (blockData b)),
      (''transactions'', transactions_to_json L (transactions b)),
      (''time'', js_of_u64 L (blockTime b))]"

definition block_from_json :: "'j lib \<Rightarrow> 'j \<Rightarrow> block res" where
  "block_from_json L j =
     bindE (at_u64 L j ''index'') (\<lambda>i.
     bindE (at_u64 L j ''nonce'') (\<lambda>n.
     bindE (at_u64 L j ''difficulty'') (\<lambda>d.
     bindE (at_string L j ''data'') (\<lambda>dat.
     bindE (at_string L j ''prev'') (\<lambda>p.
     bindE (at_string L j ''hash'') (\<lambda>h.
     bindE (at_string L j ''miner'') (\<lambda>m.
     bindE (bindE (js_at L j ''transactions'') (transactions_from_json L)) (\<lambda>txs.
     bindE (at_u64 L j ''time'') (\<lambda>t.
     Inr \<lparr>index = i, nonce = n, difficulty = d, blockData = dat, blockTime = t, previousHash = p,
          transactions = txs, hash = h, miner = m\<rparr>)))))))))"

definition blocks_to_json :: "'j lib \<Rightarrow> block list \<Rightarrow> 'j" where
  "blocks_to_json = to_json_array block_to_json"

definition blocks_from_json :: "'j lib \<Rightarrow> 'j \<Rightarrow> block list res" where
  "blocks_from_json = from_json_array block_from_json"

interpretation block_json: json_codec block_to_json block_from_json
  by unfold_locales
    (simp add: block_to_json_def block_from_json_def at_defs json_simps transactions_json.from_to)

interpretation blocks_json: json_codec blocks_to_json blocks_from_json
  by unfold_locales (simp add: blocks_to_json_def blocks_from_json_def block_json.array_from_to)

section \<open>Lemmas\<close>

named_theorems block_frame "fields an operation leaves alone"

lemma ValidHash_iff:
  "ValidHash L b \<longleftrightarrow> CalculateBlockHash L b = hash b \<and> hash_has_zeros (difficulty b) (hash b)"
  by (simp add: ValidHash_def)

lemma hash_has_zeros_iff:
  "hash_has_zeros d h \<longleftrightarrow> unat d \<le> length h \<and> (\<forall>i < unat d. h ! i = CHR ''0'')"
proof
  assume "hash_has_zeros d h"
  then have eq: "take (unat d) h = replicate (unat d) (CHR ''0'')"
    by (simp add: hash_has_zeros_def)
  then have "length (take (unat d) h) = unat d" by simp
  moreover have "h ! i = CHR ''0''" if "i < unat d" for i
    using eq that by (metis nth_replicate nth_take)
  ultimately show "unat d \<le> length h \<and> (\<forall>i < unat d. h ! i = CHR ''0'')" by auto
next
  assume "unat d \<le> length h \<and> (\<forall>i < unat d. h ! i = CHR ''0'')"
  then show "hash_has_zeros d h"
    by (auto simp: hash_has_zeros_def intro!: nth_equalityI)
qed

lemma hash_has_zeros_0 [simp]: "hash_has_zeros 0 h"
  by (simp add: hash_has_zeros_def)

text \<open>The miner's name is not hashed, everything else of the block is.\<close>

lemma CalculateBlockHash_frame [block_frame]:
  "CalculateBlockHash L (setMiner m b) = CalculateBlockHash L b"
  "CalculateBlockHash L (b\<lparr>hash := h\<rparr>) = CalculateBlockHash L b"
  by (simp_all add: CalculateBlockHash_def setMiner_def)

lemma setMinedData_frame [block_frame]:
  "index (setMinedData n d t h b) = index b"
  "previousHash (setMinedData n d t h b) = previousHash b"
  "transactions (setMinedData n d t h b) = transactions b"
  "blockData (setMinedData n d t h b) = blockData b"
  "miner (setMinedData n d t h b) = miner b"
  by (simp_all add: setMinedData_def)

lemma new_block_fields [simp]:
  "index (new_block L now i p txs) = i"
  "previousHash (new_block L now i p txs) = p"
  "transactions (new_block L now i p txs) = txs"
  "difficulty (new_block L now i p txs) = 1"
  "blockTime (new_block L now i p txs) = now"
  by (simp_all add: new_block_def Let_def)

lemma new_block_hash: "CalculateBlockHash L (new_block L now i p txs) = hash (new_block L now i p txs)"
  by (simp add: new_block_def Let_def block_frame)

text \<open>A digest without collisions ties the hash to the transactions.\<close>

lemma CalculateBlockHash_transactions:
  assumes "inj (SHA256 L)"
    and "CalculateBlockHash L (b\<lparr>transactions := ts\<rparr>) = CalculateBlockHash L b"
  shows "js_dump L (transactions_to_json L ts) = js_dump L (transactions_to_json L (transactions b))"
  using assms
  by (simp add: CalculateBlockHash_def CalculateHash_def block_hash_text_def transactions_digest_def inj_eq)

section \<open>A concrete chain of two blocks\<close>

text \<open>
  For the witnesses: alice's genesis block, and a mined block in which bob gets the reward and
  alice sends him ten coins.
\<close>

definition demo_genesis :: block where
  "demo_genesis = new_block demo_lib 0 0 [] [CreateCoinbaseTransaction demo_lib 0 ''alice'']"

definition demo_payment :: transaction where
  "demo_payment = calcuateId demo_lib 1
     \<lparr>txId = [], txIns = [make_tx_in 0 0 0 ''signature''],
      txOuts = [\<lparr>address = ''bob'', amount = dbl_of_nat 10\<rparr>, \<lparr>address = ''alice'', amount = dbl_of_nat 47\<rparr>]\<rparr>"

definition demo_mine :: "u64 \<Rightarrow> block \<Rightarrow> block" where
  "demo_mine n b =
     setMinedData n 1 (blockTime b) (CalculateBlockHash demo_lib (b\<lparr>nonce := n, difficulty := 1\<rparr>)) b"

definition demo_block :: block where
  "demo_block = demo_mine 0
     (new_block demo_lib 1000 1 (hash demo_genesis)
        [CreateCoinbaseTransaction demo_lib 1 ''bob'', demo_payment])"

lemmas demo_eval =
  new_block_def CalculateBlockHash_def CalculateHash_def block_hash_text_def u64_dec_def i64_dec_def
  default_block_def transactions_digest_def CreateCoinbaseTransaction_def GetTransactionId_def
  calcuateId_def tx_id_text_def tx_in_id_text_def tx_out_id_text_def make_tx_in_def make_point_def
  COINBASE_REWARD_def transactions_to_json_def to_json_array_def js_array_def
  transaction_to_json_def js_object_def tx_ins_to_json_def tx_outs_to_json_def tx_in_to_json_def
  tx_out_to_json_def point_to_json_def demo_digest_def quoted_def setMinedData_def

lemma demo_genesis_fields [simp]:
  "index demo_genesis = 0" "difficulty demo_genesis = 1" "previousHash demo_genesis = []"
  "transactions demo_genesis = [CreateCoinbaseTransaction demo_lib 0 ''alice'']"
  "blockTime demo_genesis = 0"
  by (simp_all add: demo_genesis_def)

lemma demo_block_fields [simp]:
  "index demo_block = 1" "difficulty demo_block = 1" "previousHash demo_block = hash demo_genesis"
  "transactions demo_block = [CreateCoinbaseTransaction demo_lib 1 ''bob'', demo_payment]"
  "blockTime demo_block = 1000"
  by (simp_all add: demo_block_def demo_mine_def setMinedData_def)

lemma demo_block_hash: "CalculateBlockHash demo_lib demo_block = hash demo_block"
  by (simp add: demo_block_def demo_mine_def setMinedData_def CalculateBlockHash_def)

lemma demo_genesis_valid: "ValidHash demo_lib demo_genesis"
  by (simp add: ValidHash_iff hash_has_zeros_def) (simp add: demo_genesis_def demo_eval)

lemma demo_block_valid: "ValidHash demo_lib demo_block"
  unfolding ValidHash_iff hash_has_zeros_def
  by (simp add: demo_block_hash) (simp add: demo_block_def demo_mine_def demo_genesis_def demo_payment_def demo_eval)

end
