(* ===== verification/Chain.thy ===== *)
theory Chain
  imports Blocks "HOL-Library.Signed_Division"
begin

text \<open>
  The class \<open>Blockchain\<close> (\<open>Blockchain.h\<close>, and the member functions of \<open>Blockchain.cpp\<close>): the
  vector of blocks, the queue of transactions waiting for the next block, chain validity,
  cumulative difficulty, the difficulty adjustment and the making of an unmined block.
\<close>

section \<open>State and constants\<close>

text \<open>The two constants depend on the build; \<open>rel\<close> says whether \<open>_RELEASE\<close> is defined.\<close>

definition TARGET_TIMESPAN :: "bool \<Rightarrow> int" where
  "TARGET_TIMESPAN rel = (if rel then 10 * 60 else 60)"

definition BLOCK_INTERVAL :: "bool \<Rightarrow> nat" where
  "BLOCK_INTERVAL rel = (if rel then 25 else 10)"

record blockchain =
  blocks :: "block list"
  unspentTxOuts :: "tx_out_point list"
  txQueue :: "transaction list"

definition empty_blockchain :: blockchain where
  "empty_blockchain = \<lparr>blocks = [], unspentTxOuts = [], txQueue = []\<rparr>"

definition chain_size :: "blockchain \<Rightarrow> nat" where
  "chain_size c = length (blocks c)"

definition chain_clear :: "blockchain \<Rightarrow> blockchain" where
  "chain_clear c = c\<lparr>blocks := []\<rparr>"

text \<open>\<open>std::vector::resize\<close>: cut off, or filled up with default blocks.\<close>

definition chain_resize :: "nat \<Rightarrow> blockchain \<Rightarrow> blockchain" where
  "chain_resize n c =
     c\<lparr>blocks := take n (blocks c) @ replicate (n - length (blocks c)) default_block\<rparr>"

definition txAt :: "blockchain \<Rightarrow> nat \<Rightarrow> nat \<Rightarrow> transaction res" where
  "txAt c bi ti =
     bindE (assertE (bi < chain_size c)) (\<lambda>_.
     bindE (atE (blocks c) bi) (\<lambda>b.
     bindE (assertE (ti < length (transactions b))) (\<lambda>_.
     atE (transactions b) ti)))"

definition blockchain_to_json :: "'j lib \<Rightarrow> blockchain \<Rightarrow> 'j" where
  "blockchain_to_json L c = blocks_to_json L (blocks c)"

definition blockchain_from_json :: "'j lib \<Rightarrow> 'j \<Rightarrow> blockchain res" where
  "blockchain_from_json L j =
     bindE (blocks_from_json L j) (\<lambda>bs. Inr (empty_blockchain\<lparr>blocks := bs\<rparr>))"

section \<open>Adding blocks and validity\<close>

definition addNewBlock_checked :: "'j lib \<Rightarrow> block \<Rightarrow> bool \<Rightarrow> blockchain \<Rightarrow> (bool \<times> blockchain) res" where
  "addNewBlock_checked L b checkPreviousBlock c =
     (if \<not> ValidHash L b then Inr (False, c)
      else bindE (if checkPreviousBlock
                  then bindE (backE (blocks c)) (\<lambda>l. Inr (previousHash b \<noteq> hash l))
                  else Inr False)
             (\<lambda>mismatch. if mismatch then Inr (False, c)
                         else Inr (True, c\<lparr>blocks := blocks c @ [b]\<rparr>)))"

definition addNewBlock :: "'j lib \<Rightarrow> block \<Rightarrow> blockchain \<Rightarrow> (bool \<times> blockchain) res" where
  "addNewBlock L b c = addNewBlock_checked L b True c"

definition isValidBlockPair :: "'j lib \<Rightarrow> blockchain \<Rightarrow> nat \<Rightarrow> bool res" where
  "isValidBlockPair L c idx =
     (if chain_size c < idx \<or> idx < 1 then Inr False
      else bindE (atE (blocks c) idx) (\<lambda>current.
           bindE (atE (blocks c) (idx - 1)) (\<lambda>prev.
           Inr (index current = index prev + 1 \<and> previousHash current = hash prev
                \<and> CalculateBlockHash L current = hash current))))"

text \<open>The loop over \<open>idx\<close>, left at the first pair that fails.\<close>

fun valid_pairs :: "'j lib \<Rightarrow> blockchain \<Rightarrow> nat list \<Rightarrow> bool res" where
  "valid_pairs L c [] = Inr True"
| "valid_pairs L c (idx # rest) =
     bindE (isValidBlockPair L c idx) (\<lambda>ok. if ok then valid_pairs L c rest else Inr False)"

definition isValidChain :: "'j lib \<Rightarrow> blockchain \<Rightarrow> bool res" where
  "isValidChain L c =
     (if chain_size c = 0 then Inr True else valid_pairs L c [1..<chain_size c])"

section \<open>Difficulty\<close>

text \<open>
  \<open>static_cast<std::uint64_t>(std::pow(2u, d))\<close>: the power is exact, but converting a double
  of \<open>2^64\<close> or more is undefined.
\<close>

definition pow2_u64 :: "u64 \<Rightarrow> u64 res" where
  "pow2_u64 d = (if unat d < 64 then Inr (2 ^ unat d) else Inl UndefinedBehaviour)"

definition cumDifficulty_at :: "blockchain \<Rightarrow> nat \<Rightarrow> u64 res" where
  "cumDifficulty_at c idx =
     (if chain_size c < idx then Inl UndefinedBehaviour
      else foldE (\<lambda>total b. bindE (pow2_u64 (difficulty b)) (\<lambda>p. Inr (total + p)))
             0 (take idx (blocks c)))"

definition cumDifficulty :: "blockchain \<Rightarrow> u64 res" where
  "cumDifficulty c =
     (if chain_size c = 0 then Inl UndefinedBehaviour else cumDifficulty_at c (chain_size c - 1))"

text \<open>The signed difference of two block times in whole seconds, truncated towards zero.\<close>

definition timespan_seconds :: "block_time \<Rightarrow> block_time \<Rightarrow> int res" where
  "timespan_seconds t1 t0 =
     (let d = sint t1 - sint t0
      in if d < - (2 ^ 63) \<or> 2 ^ 63 \<le> d then Inl UndefinedBehaviour else Inr (d sdiv 1000))"

definition getAdjustedDifficulty :: "bool \<Rightarrow> blockchain \<Rightarrow> u64 res" where
  "getAdjustedDifficulty rel c =
     bindE (assertE (chain_size c > 0)) (\<lambda>_.
     bindE (backE (blocks c)) (\<lambda>lastBlock.
     if (index lastBlock + 1) mod word_of_nat (BLOCK_INTERVAL rel) \<noteq> 0
     then Inr (difficulty lastBlock)
     else bindE (if chain_size c < BLOCK_INTERVAL rel then Inl OutOfRange
                 else atE (blocks c) (chain_size c - BLOCK_INTERVAL rel)) (\<lambda>firstBlock.
          bindE (timespan_seconds (blockTime lastBlock) (blockTime firstBlock)) (\<lambda>timespan.
          if timespan < TARGET_TIMESPAN rel div 2 then Inr (difficulty lastBlock + 1)
          else if timespan > TARGET_TIMESPAN rel * 2 then Inr (difficulty lastBlock - 1)
          else Inr (difficulty lastBlock)))))"

section \<open>The transaction queue and new blocks\<close>

definition transactionQueueSize :: "blockchain \<Rightarrow> nat" where
  "transactionQueueSize c = length (txQueue c)"

definition queueTransaction :: "transaction \<Rightarrow> blockchain \<Rightarrow> blockchain" where
  "queueTransaction tx c = c\<lparr>txQueue := txQueue c @ [tx]\<rparr>"

definition reQueueTransactions :: "block \<Rightarrow> blockchain \<Rightarrow> (nat \<times> blockchain) res" where
  "reQueueTransactions b c =
     foldE (\<lambda>(count, c') tx. bindE (isCoinbase tx)
              (\<lambda>cb. if cb then Inr (count, c') else Inr (count + 1, queueTransaction tx c')))
       (0, c) (transactions b)"

text \<open>The loop that empties the queue into the block, giving each transaction its id.\<close>

fun drain_queue :: "'j lib \<Rightarrow> u64 \<Rightarrow> transaction list \<Rightarrow> transaction list \<Rightarrow> transaction list" where
  "drain_queue L idx txs [] = txs"
| "drain_queue L idx txs (tx # q) = drain_queue L idx (txs @ [calcuateId L idx tx]) q"

definition createUnminedBlock ::
  "'j lib \<Rightarrow> block_time \<Rightarrow> string \<Rightarrow> blockchain \<Rightarrow> (block \<times> blockchain) res" where
  "createUnminedBlock L now coinbasewallet c =
     (let newblockidx = word_of_nat (chain_size c);
          txs = drain_queue L newblockidx [CreateCoinbaseTransaction L newblockidx coinbasewallet] (txQueue c);
          c' = c\<lparr>txQueue := []\<rparr>
      in bindE (backE (blocks c')) (\<lambda>l. Inr (new_block L now newblockidx (hash l) txs, c')))"

section \<open>What validity means\<close>

text \<open>A block follows another, and its stored hash is the hash of its contents.\<close>

definition valid_pair :: "'j lib \<Rightarrow> block \<Rightarrow> block \<Rightarrow> bool" where
  "valid_pair L prev cur \<longleftrightarrow>
     index cur = index prev + 1 \<and> previousHash cur = hash prev \<and> CalculateBlockHash L cur = hash cur"

definition valid_blocks :: "'j lib \<Rightarrow> block list \<Rightarrow> bool" where
  "valid_blocks L bs = successively (valid_pair L) bs"

text \<open>Each block sits at the position its index names.\<close>

definition indexed_blocks :: "block list \<Rightarrow> bool" where
  "indexed_blocks bs \<longleftrightarrow> (\<forall>i < length bs. index (bs ! i) = word_of_nat i)"

lemma isValidBlockPair_inside:
  assumes "1 \<le> i" and "i < chain_size c"
  shows "isValidBlockPair L c i = Inr (valid_pair L (blocks c ! (i - 1)) (blocks c ! i))"
  using assms by (simp add: isValidBlockPair_def chain_size_def valid_pair_def)

lemma valid_pairs_inside:
  "\<forall>i \<in> set is. 1 \<le> i \<and> i < chain_size c \<Longrightarrow>
   valid_pairs L c is = Inr (\<forall>i \<in> set is. valid_pair L (blocks c ! (i - 1)) (blocks c ! i))"
  by (induction "is") (auto simp: isValidBlockPair_inside)

lemma successively_conv_pred:
  "successively P xs \<longleftrightarrow> (\<forall>i. 1 \<le> i \<and> i < length xs \<longrightarrow> P (xs ! (i - 1)) (xs ! i))"
proof (induction xs rule: rev_induct)
  case Nil
  then show ?case by simp
next
  case (snoc x xs)
  show ?case
  proof (cases "xs = []")
    case False
    then have "(\<forall>i. 1 \<le> i \<and> i < length (xs @ [x]) \<longrightarrow> P ((xs @ [x]) ! (i - 1)) ((xs @ [x]) ! i))
      \<longleftrightarrow> (\<forall>i. 1 \<le> i \<and> i < length xs \<longrightarrow> P (xs ! (i - 1)) (xs ! i)) \<and> P (last xs) x"
      by (auto simp: nth_append last_conv_nth less_Suc_eq Suc_le_eq)
    with snoc False show ?thesis by (simp add: successively_snoc)
  qed auto
qed

lemma isValidChain_eq: "isValidChain L c = Inr (valid_blocks L (blocks c))"
proof (cases "blocks c = []")
  case True
  then show ?thesis by (simp add: isValidChain_def chain_size_def valid_blocks_def)
next
  case False
  then have "isValidChain L c = valid_pairs L c [1..<chain_size c]"
    by (simp add: isValidChain_def chain_size_def)
  also have "\<dots> = Inr (\<forall>i \<in> set [1..<chain_size c]. valid_pair L (blocks c ! (i - 1)) (blocks c ! i))"
    by (rule valid_pairs_inside) simp
  also have "\<dots> = Inr (valid_blocks L (blocks c))"
    by (auto simp: valid_blocks_def successively_conv_pred chain_size_def)
  finally show ?thesis .
qed

lemma valid_blocks_snoc:
  "valid_blocks L (bs @ [b]) \<longleftrightarrow> valid_blocks L bs \<and> (bs = [] \<or> valid_pair L (last bs) b)"
  by (simp add: valid_blocks_def successively_snoc)

lemma valid_blocks_take: "valid_blocks L bs \<Longrightarrow> valid_blocks L (take n bs)"
  by (auto simp: valid_blocks_def successively_conv_pred)

lemma valid_blocks_Nil [simp]: "valid_blocks L []"
  by (simp add: valid_blocks_def)

lemma valid_blocks_single [simp]: "valid_blocks L [b]"
  by (simp add: valid_blocks_def)

text \<open>A valid chain that starts at index 0 has every block at its index.\<close>

lemma valid_blocks_index:
  assumes "valid_blocks L bs" and "index (hd bs) = 0" and "i < length bs"
  shows "index (bs ! i) = word_of_nat i"
  using assms(3)
proof (induction i)
  case 0
  with assms(2) show ?case by (cases bs) auto
next
  case (Suc i)
  with assms(1) have "valid_pair L (bs ! i) (bs ! Suc i)"
    by (auto simp: valid_blocks_def successively_conv_pred dest: spec [of _ "Suc i"])
  with Suc show ?case by (simp add: valid_pair_def)
qed

lemma valid_blocks_indexed:
  "valid_blocks L bs \<Longrightarrow> bs = [] \<or> index (hd bs) = 0 \<Longrightarrow> indexed_blocks bs"
  by (auto simp: indexed_blocks_def intro: valid_blocks_index)

lemma indexed_blocks_last:
  "indexed_blocks bs \<Longrightarrow> bs \<noteq> [] \<Longrightarrow> index (last bs) = word_of_nat (length bs - 1)"
  by (simp add: indexed_blocks_def last_conv_nth)

lemma indexed_blocks_take: "indexed_blocks bs \<Longrightarrow> indexed_blocks (take n bs)"
  by (simp add: indexed_blocks_def)

lemma indexed_blocks_snoc:
  "indexed_blocks (bs @ [b]) \<longleftrightarrow> indexed_blocks bs \<and> index b = word_of_nat (length bs)"
  by (auto simp: indexed_blocks_def nth_append less_Suc_eq)

section \<open>Adding blocks\<close>

lemma addNewBlock_eq:
  "addNewBlock L b c =
     (if \<not> ValidHash L b then Inr (False, c)
      else if blocks c = [] then Inl UndefinedBehaviour
      else if previousHash b \<noteq> hash (last (blocks c)) then Inr (False, c)
      else Inr (True, c\<lparr>blocks := blocks c @ [b]\<rparr>))"
  by (simp add: addNewBlock_def addNewBlock_checked_def backE_def)

lemma addNewBlock_cases:
  assumes "addNewBlock L b c = Inr (ok, c')"
  obtains "\<not> ok" "c' = c"
  | "ok" "c' = c\<lparr>blocks := blocks c @ [b]\<rparr>" "ValidHash L b" "blocks c \<noteq> []"
      "previousHash b = hash (last (blocks c))"
  using assms by (auto simp: addNewBlock_eq split: if_splits)

lemma addNewBlock_total: "blocks c \<noteq> [] \<Longrightarrow> \<exists>ok c'. addNewBlock L b c = Inr (ok, c')"
  by (auto simp: addNewBlock_eq)

lemma addNewBlock_nonempty:
  "addNewBlock L b c = Inr (ok, c') \<Longrightarrow> blocks c \<noteq> [] \<Longrightarrow> blocks c' \<noteq> []"
  by (erule addNewBlock_cases) auto

text \<open>\<open>C23\<close>: \<open>isValidChain\<close> never throws, and it accepts a chain exactly when every block but the
  first has the index after its predecessor's, names its predecessor's hash and stores the hash
  of its own contents. Neither the leading zeros of a hash nor the first block are looked at.\<close>

theorem isValidChain_characterised:
  "isValidChain L c =
     Inr (successively (\<lambda>p b. index b = index p + 1 \<and> previousHash b = hash p
                              \<and> CalculateBlockHash L b = hash b) (blocks c))"
  by (simp add: isValidChain_eq valid_blocks_def valid_pair_def [abs_def])

text \<open>\<open>addNewBlock\<close> keeps a valid chain valid when the block carries the next index:
  it appends the block, with its proof of work checked, or leaves the chain alone.\<close>

theorem addNewBlock_keeps_valid:
  assumes "isValidChain L c = Inr True" and "blocks c \<noteq> []"
    and "index b = index (last (blocks c)) + 1"
    and "addNewBlock L b c = Inr (ok, c')"
  shows "isValidChain L c' = Inr True
    \<and> blocks c' = (if ok then blocks c @ [b] else blocks c)
    \<and> (ok \<longleftrightarrow> ValidNewBlock L b (last (blocks c)))"
  using assms
  by (auto simp: isValidChain_eq addNewBlock_eq valid_blocks_snoc valid_pair_def ValidNewBlock_def ValidHash_iff
      split: if_splits)

section \<open>Cumulative difficulty\<close>

lemma cumDifficulty_eq:
  assumes "blocks c \<noteq> []"
  shows "cumDifficulty c =
     foldE (\<lambda>total b. bindE (pow2_u64 (difficulty b)) (\<lambda>p. Inr (total + p))) 0 (butlast (blocks c))"
proof -
  have "\<not> length (blocks c) < length (blocks c) - Suc 0" by arith
  with assms show ?thesis
    by (simp add: cumDifficulty_def cumDifficulty_at_def chain_size_def take_butlast)
qed

lemma pow2_u64_sum_unat:
  assumes "(\<Sum>b\<leftarrow>bs. 2 ^ unat (difficulty b)) + unat t < (2 ^ 64 :: nat)"
  shows "\<exists>r. foldE (\<lambda>total b. bindE (pow2_u64 (difficulty b)) (\<lambda>p. Inr (total + p))) t bs = Inr r
           \<and> unat r = (\<Sum>b\<leftarrow>bs. 2 ^ unat (difficulty b)) + unat t"
  using assms
proof (induction bs arbitrary: t)
  case Nil
  then show ?case by simp
next
  case (Cons b bs)
  define d where "d = unat (difficulty b)"
  from Cons.prems have sum: "2 ^ d + (\<Sum>b\<leftarrow>bs. 2 ^ unat (difficulty b)) + unat t < (2 ^ 64 :: nat)"
    by (simp add: d_def)
  then have "(2::nat) ^ d < 2 ^ 64" by linarith
  then have d: "d < 64" by (rule power_less_imp_less_exp [rotated]) simp
  then have pow: "pow2_u64 (difficulty b) = Inr (2 ^ d)" by (simp add: pow2_u64_def d_def)
  from sum d have unat: "unat (t + 2 ^ d) = unat t + 2 ^ d"
    by (simp add: unat_word_ariths unat_2_power)
  with sum have "(\<Sum>b\<leftarrow>bs. 2 ^ unat (difficulty b)) + unat (t + 2 ^ d) < (2 ^ 64 :: nat)" by simp
  from Cons.IH [OF this] unat show ?case
    by (simp add: pow ac_simps flip: d_def)
qed

text \<open>While the sum fits 64 bits, \<open>cumDifficulty\<close> returns, without overflow, the sum of
  two to the difficulty over all blocks but the last one.\<close>

theorem cumDifficulty_sum:
  assumes "blocks c \<noteq> []"
    and "(\<Sum>b\<leftarrow>butlast (blocks c). 2 ^ unat (difficulty b)) < (2 ^ 64 :: nat)"
  shows "\<exists>r. cumDifficulty c = Inr r \<and> unat r = (\<Sum>b\<leftarrow>butlast (blocks c). 2 ^ unat (difficulty b))"
  using pow2_u64_sum_unat [of "butlast (blocks c)" 0] assms
  by (simp add: cumDifficulty_eq)

text \<open>Appending a block adds two to the difficulty of the block before it; the
  difficulty of the new last block itself does not count yet.\<close>

theorem cumDifficulty_snoc:
  "cumDifficulty (c\<lparr>blocks := bs @ [p, b]\<rparr>) =
     bindE (cumDifficulty (c\<lparr>blocks := bs @ [p]\<rparr>)) (\<lambda>total.
     bindE (pow2_u64 (difficulty p)) (\<lambda>x. Inr (total + x)))"
  by (simp add: cumDifficulty_eq foldE_append butlast_append)

section \<open>Difficulty adjustment\<close>

lemma BLOCK_INTERVAL_cases: "BLOCK_INTERVAL rel = 10 \<or> BLOCK_INTERVAL rel = 25"
  by (simp add: BLOCK_INTERVAL_def)

lemma word_of_nat_mod_interval:
  assumes "n < 2 ^ 64"
  shows "(word_of_nat n :: u64) mod word_of_nat (BLOCK_INTERVAL rel) = 0 \<longleftrightarrow> n mod BLOCK_INTERVAL rel = 0"
proof -
  have "unat ((word_of_nat n :: u64) mod word_of_nat (BLOCK_INTERVAL rel)) = n mod BLOCK_INTERVAL rel"
    using BLOCK_INTERVAL_cases [of rel] assms by (auto simp: unat_mod_distrib unat_of_nat)
  then show ?thesis by (metis unat_0_iff)
qed

text \<open>The new difficulty for a timespan in seconds.\<close>

definition retarget :: "bool \<Rightarrow> u64 \<Rightarrow> int \<Rightarrow> u64" where
  "retarget rel d secs =
     (if secs < TARGET_TIMESPAN rel div 2 then d + 1
      else if secs > TARGET_TIMESPAN rel * 2 then d - 1 else d)"

lemma getAdjustedDifficulty_indexed:
  assumes "indexed_blocks (blocks c)" and "blocks c \<noteq> []" and "chain_size c < 2 ^ 64"
  shows "getAdjustedDifficulty rel c =
     (if chain_size c mod BLOCK_INTERVAL rel \<noteq> 0 then Inr (difficulty (last (blocks c)))
      else bindE (timespan_seconds (blockTime (last (blocks c)))
                    (blockTime (blocks c ! (chain_size c - BLOCK_INTERVAL rel))))
             (\<lambda>secs. Inr (retarget rel (difficulty (last (blocks c))) secs)))"
proof -
  have pos: "0 < chain_size c" using assms by (simp add: chain_size_def)
  have "index (last (blocks c)) = word_of_nat (chain_size c - 1)"
    using assms indexed_blocks_last by (simp add: chain_size_def)
  moreover have "(word_of_nat (chain_size c - 1) + 1 :: u64) = word_of_nat (chain_size c)"
    using pos by (simp add: of_nat_diff)
  ultimately have idx: "(index (last (blocks c)) + 1) mod word_of_nat (BLOCK_INTERVAL rel) = 0
      \<longleftrightarrow> chain_size c mod BLOCK_INTERVAL rel = 0"
    using assms(3) by (simp add: word_of_nat_mod_interval)
  have inside: "BLOCK_INTERVAL rel \<le> chain_size c" if "chain_size c mod BLOCK_INTERVAL rel = 0"
    using that pos by (metis mod_less not_le not_less0)
  have ipos: "0 < BLOCK_INTERVAL rel" by (simp add: BLOCK_INTERVAL_def)
  show ?thesis
  proof (cases "chain_size c mod BLOCK_INTERVAL rel = 0")
    case True
    with inside idx assms pos ipos show ?thesis
      by (simp add: getAdjustedDifficulty_def backE_def retarget_def if_distrib [of Inr] chain_size_def cong: if_cong)
  next
    case False
    with idx assms pos show ?thesis
      by (simp add: getAdjustedDifficulty_def backE_def)
  qed
qed

text \<open>\<open>C22\<close>: in a chain whose blocks sit at their indices, the difficulty stays the same between
  two multiples of the interval, and at a multiple it is raised, lowered or kept by comparing the
  seconds between the first and the last block of the interval with half and twice the target.
  The look-back never leaves the chain.\<close>

theorem getAdjustedDifficulty_spec:
  assumes "isValidChain L c = Inr True" and "blocks c \<noteq> []" and "index (hd (blocks c)) = 0"
    and "chain_size c < 2 ^ 64"
    and "timespan_seconds (blockTime (last (blocks c)))
           (blockTime (blocks c ! (chain_size c - BLOCK_INTERVAL rel))) = Inr secs"
  shows "getAdjustedDifficulty rel c =
     Inr (if chain_size c mod BLOCK_INTERVAL rel \<noteq> 0 then difficulty (last (blocks c))
          else if secs < TARGET_TIMESPAN rel div 2 then difficulty (last (blocks c)) + 1
          else if secs > TARGET_TIMESPAN rel * 2 then difficulty (last (blocks c)) - 1
          else difficulty (last (blocks c)))"
  using assms getAdjustedDifficulty_indexed [OF valid_blocks_indexed, of L c rel]
  by (auto simp: isValidChain_eq retarget_def)

text \<open>Away from the two ends of the 64-bit range one adjustment moves the difficulty by at
  most one.\<close>

theorem getAdjustedDifficulty_step:
  assumes "getAdjustedDifficulty rel c = Inr d"
    and "0 < unat (difficulty (last (blocks c)))" and "unat (difficulty (last (blocks c))) + 1 < 2 ^ 64"
  shows "unat d \<le> unat (difficulty (last (blocks c))) + 1 \<and> unat (difficulty (last (blocks c))) \<le> unat d + 1"
proof -
  let ?D = "difficulty (last (blocks c))"
  from assms(1) have "d = ?D \<or> d = ?D + 1 \<or> d = ?D - 1"
    by (auto simp: getAdjustedDifficulty_def res_simps split: if_splits)
  moreover have "unat (?D + 1) = unat ?D + 1"
    using assms(3) by (simp add: unat_word_ariths)
  moreover have "unat (?D - 1) = unat ?D - 1"
    using assms(2) by (intro unat_minus_one) (auto simp: unat_0_iff)
  ultimately show ?thesis by auto
qed

text \<open>\<open>C40\<close>: the decrement is unsigned. A slow interval that ends in a block of difficulty 0 sets
  the difficulty to the largest 64-bit number, which no 64-digit hash can reach.\<close>

theorem getAdjustedDifficulty_underflow:
  assumes "indexed_blocks (blocks c)" and "blocks c \<noteq> []" and "chain_size c < 2 ^ 64"
    and "chain_size c mod BLOCK_INTERVAL rel = 0"
    and "timespan_seconds (blockTime (last (blocks c)))
           (blockTime (blocks c ! (chain_size c - BLOCK_INTERVAL rel))) = Inr secs"
    and "TARGET_TIMESPAN rel * 2 < secs" and "difficulty (last (blocks c)) = 0"
  shows "\<exists>d. getAdjustedDifficulty rel c = Inr d \<and> unat d = 2 ^ 64 - 1
          \<and> (length h = 64 \<longrightarrow> \<not> hash_has_zeros d h)"
proof -
  have "0 \<le> TARGET_TIMESPAN rel" by (simp add: TARGET_TIMESPAN_def)
  with assms have "getAdjustedDifficulty rel c = Inr (- 1)"
    by (simp add: getAdjustedDifficulty_indexed retarget_def)
  moreover have "unat (- 1 :: u64) = 2 ^ 64 - 1" by (simp add: unsigned_minus_1_eq_mask mask_eq_exp_minus_1)
  ultimately show ?thesis by (auto simp: hash_has_zeros_iff)
qed

section \<open>The queue\<close>

lemma drain_queue_eq: "drain_queue L idx txs q = txs @ map (calcuateId L idx) q"
  by (induction q arbitrary: txs) auto

lemma calcuateId_frame [simp]:
  "txIns (calcuateId L i tx) = txIns tx" "txOuts (calcuateId L i tx) = txOuts tx"
  "wf_transaction (calcuateId L i tx) = wf_transaction tx"
  "coinbase_tx (calcuateId L i tx) = coinbase_tx tx"
  by (simp_all add: calcuateId_def wf_transaction_def coinbase_tx_def)

lemma createUnminedBlock_eq:
  "blocks c \<noteq> [] \<Longrightarrow> createUnminedBlock L now w c =
     Inr (new_block L now (word_of_nat (chain_size c)) (hash (last (blocks c)))
            (CreateCoinbaseTransaction L (word_of_nat (chain_size c)) w
               # map (calcuateId L (word_of_nat (chain_size c))) (txQueue c)),
          c\<lparr>txQueue := []\<rparr>)"
  by (simp add: createUnminedBlock_def drain_queue_eq backE_def Let_def)

lemma reQueue_fold:
  assumes "\<forall>tx \<in> set txs. wf_transaction tx"
  shows "foldE (\<lambda>(count, c') tx. bindE (isCoinbase tx)
              (\<lambda>cb. if cb then Inr (count, c') else Inr (count + 1, queueTransaction tx c')))
           (n, c) txs
       = Inr (n + length (filter (\<lambda>tx. \<not> coinbase_tx tx) txs),
              c\<lparr>txQueue := txQueue c @ filter (\<lambda>tx. \<not> coinbase_tx tx) txs\<rparr>)"
  using assms by (induction txs arbitrary: n c) (simp_all add: queueTransaction_def)

lemma reQueueTransactions_eq:
  "\<forall>tx \<in> set (transactions b). wf_transaction tx \<Longrightarrow>
   reQueueTransactions b c =
     Inr (length (filter (\<lambda>tx. \<not> coinbase_tx tx) (transactions b)),
          c\<lparr>txQueue := txQueue c @ filter (\<lambda>tx. \<not> coinbase_tx tx) (transactions b)\<rparr>)"
  by (simp add: reQueueTransactions_def reQueue_fold)

text \<open>An unmined block is at the next index and names the last block's hash; it holds the
  reward for the wallet first and then every queued transaction, in order, with an id for this
  block; its stored hash is that of its contents, and the queue is empty afterwards.\<close>

theorem createUnminedBlock_spec:
  assumes "blocks c \<noteq> []"
  shows "\<exists>b. createUnminedBlock L now w c = Inr (b, c\<lparr>txQueue := []\<rparr>)
     \<and> index b = word_of_nat (chain_size c) \<and> previousHash b = hash (last (blocks c))
     \<and> transactions b = CreateCoinbaseTransaction L (index b) w # map (calcuateId L (index b)) (txQueue c)
     \<and> CalculateBlockHash L b = hash b"
  using assms by (simp add: createUnminedBlock_eq new_block_hash)

text \<open>\<open>C27\<close>: giving up on a block puts every transaction back. If the queue held well-formed
  transactions that are no coinbases, making a block and requeueing it restores the queue, in
  order, up to the ids, and the coinbase made for the block is dropped.\<close>

theorem create_requeue_roundtrip:
  assumes "blocks c \<noteq> []" and "\<forall>tx \<in> set (txQueue c). wf_transaction tx \<and> \<not> coinbase_tx tx"
  shows "bindE (createUnminedBlock L now w c) (\<lambda>(b, c'). reQueueTransactions b c') =
     Inr (transactionQueueSize c,
          c\<lparr>txQueue := map (calcuateId L (word_of_nat (chain_size c))) (txQueue c)\<rparr>)"
proof -
  have "filter (\<lambda>tx. \<not> coinbase_tx tx) (map (calcuateId L i) (txQueue c)) = map (calcuateId L i) (txQueue c)" for i
    using assms(2) by (auto simp: filter_map o_def intro!: arg_cong [where f = "map _"] filter_True)
  moreover have "\<forall>tx \<in> set (map (calcuateId L i) (txQueue c)). wf_transaction tx" for i
    using assms(2) by auto
  ultimately show ?thesis
    using assms(1) by (simp add: createUnminedBlock_eq reQueueTransactions_eq transactionQueueSize_def)
qed

section \<open>Witnesses\<close>

definition demo_chain :: blockchain where
  "demo_chain = empty_blockchain\<lparr>blocks := [demo_genesis, demo_block]\<rparr>"

lemma demo_chain_simps [simp]:
  "blocks demo_chain = [demo_genesis, demo_block]" "txQueue demo_chain = []"
  "chain_size demo_chain = 2"
  by (simp_all add: demo_chain_def empty_blockchain_def chain_size_def)

lemma demo_chain_valid: "valid_blocks demo_lib [demo_genesis, demo_block]"
  by (simp add: valid_blocks_def valid_pair_def demo_block_hash)

text \<open>Ten blocks, a million milliseconds apart.\<close>

definition demo_slow :: "u64 \<Rightarrow> blockchain" where
  "demo_slow d = empty_blockchain\<lparr>blocks := map (\<lambda>i. default_block\<lparr>index := word_of_nat i,
     blockTime := word_of_nat (1000000 * i), difficulty := d\<rparr>) [0..<10]\<rparr>"

lemma demo_slow_indexed [simp]: "indexed_blocks (blocks (demo_slow d))"
  by (simp add: demo_slow_def empty_blockchain_def indexed_blocks_def del: upt_Suc)

lemma demo_slow_simps [simp]:
  "chain_size (demo_slow d) = 10" "blocks (demo_slow d) \<noteq> []"
  "difficulty (last (blocks (demo_slow d))) = d"
  "timespan_seconds (blockTime (last (blocks (demo_slow d)))) (blockTime (blocks (demo_slow d) ! 0)) = Inr 9000"
  by (simp_all add: demo_slow_def empty_blockchain_def chain_size_def upt_rec
      timespan_seconds_def signed_divide_int_def)

theorem addNewBlock_keeps_valid_witness:
  "isValidChain demo_lib (demo_chain\<lparr>blocks := [demo_genesis, demo_block]\<rparr>) = Inr True"
proof -
  let ?c = "demo_chain\<lparr>blocks := [demo_genesis]\<rparr>"
  have 1: "isValidChain demo_lib ?c = Inr True" by (simp add: isValidChain_eq)
  have 2: "blocks ?c \<noteq> []" by simp
  have 3: "index demo_block = index (last (blocks ?c)) + 1" by simp
  have 4: "addNewBlock demo_lib demo_block ?c = Inr (True, demo_chain\<lparr>blocks := [demo_genesis, demo_block]\<rparr>)"
    by (simp add: addNewBlock_eq demo_block_valid)
  show ?thesis using addNewBlock_keeps_valid [OF 1 2 3 4] by simp
qed

theorem cumDifficulty_sum_witness: "\<exists>r. cumDifficulty demo_chain = Inr r \<and> unat r = 2"
  using cumDifficulty_sum [of demo_chain] by simp

theorem getAdjustedDifficulty_spec_witness:
  "getAdjustedDifficulty False demo_chain = Inr 1"
proof -
  have t: "timespan_seconds (blockTime (last (blocks demo_chain)))
      (blockTime (blocks demo_chain ! (chain_size demo_chain - BLOCK_INTERVAL False))) = Inr 1"
    by (simp add: timespan_seconds_def BLOCK_INTERVAL_def signed_divide_int_def)
  show ?thesis
    using getAdjustedDifficulty_spec [OF _ _ _ _ t, of demo_lib]
    by (simp add: isValidChain_eq demo_chain_valid BLOCK_INTERVAL_def)
qed

theorem getAdjustedDifficulty_step_witness:
  "unat (difficulty (last (blocks (demo_slow 5)))) \<le> unat (4 :: u64) + 1"
proof -
  have 1: "getAdjustedDifficulty False (demo_slow 5) = Inr 4"
    by (simp add: getAdjustedDifficulty_indexed BLOCK_INTERVAL_def TARGET_TIMESPAN_def retarget_def)
  show ?thesis using getAdjustedDifficulty_step [OF 1] by simp
qed

theorem getAdjustedDifficulty_underflow_witness:
  "\<exists>d. getAdjustedDifficulty False (demo_slow 0) = Inr d \<and> unat d = 2 ^ 64 - 1"
proof -
  have t: "timespan_seconds (blockTime (last (blocks (demo_slow 0))))
      (blockTime (blocks (demo_slow 0) ! (chain_size (demo_slow 0) - BLOCK_INTERVAL False))) = Inr 9000"
    by (simp add: BLOCK_INTERVAL_def)
  show ?thesis
    using getAdjustedDifficulty_underflow [OF _ _ _ _ t] by (auto simp: BLOCK_INTERVAL_def TARGET_TIMESPAN_def)
qed

theorem createUnminedBlock_spec_witness:
  "\<exists>b. createUnminedBlock demo_lib 0 ''bob'' demo_chain = Inr (b, demo_chain\<lparr>txQueue := []\<rparr>) \<and> index b = 2"
  using createUnminedBlock_spec [of demo_chain demo_lib 0 "''bob''"] by auto

lemma demo_payment_wf [simp]: "wf_transaction demo_payment" "\<not> coinbase_tx demo_payment"
  by (simp_all add: demo_payment_def wf_transaction_def coinbase_tx_def calcuateId_def make_tx_in_def)

theorem create_requeue_roundtrip_witness:
  "bindE (createUnminedBlock demo_lib 0 ''bob'' (demo_chain\<lparr>txQueue := [demo_payment]\<rparr>))
     (\<lambda>(b, c'). reQueueTransactions b c')
   = Inr (1, demo_chain\<lparr>txQueue := [calcuateId demo_lib 2 demo_payment]\<rparr>)"
  using create_requeue_roundtrip [of "demo_chain\<lparr>txQueue := [demo_payment]\<rparr>" demo_lib 0 "''bob''"]
  by (simp add: transactionQueueSize_def chain_size_def)

end
