(* ===== verification/Crypto.thy ===== *)
theory Crypto
  imports Transactions
begin

text \<open>
  \<open>CryptoUtils.cpp\<close>: the formatting of the public key, the address pipeline and the base 58
  encoding, over the digests, the curve point and the integers of Crypto++.
\<close>

section \<open>Base 58\<close>

definition base_count :: nat where
  "base_count = 58"

definition base58Alphabet :: string where
  "base58Alphabet = ''123456789ABCDEFGHJKLMNPQRSTUVWXYZabcdefghijkmnopqrstuvwxyz''"

text \<open>The loop with the string built so far.\<close>

function base58_loop :: "nat \<Rightarrow> string \<Rightarrow> string" where
  "base58_loop num encoded =
     (if base_count \<le> num
      then base58_loop (num div base_count) (base58Alphabet ! (num - base_count * (num div base_count)) # encoded)
      else base58Alphabet ! num # encoded)"
  by pat_completeness auto

termination base58_loop
  by (relation "measure fst") (auto simp: base_count_def)

declare base58_loop.simps [simp del]

definition Base58Encode :: "nat \<Rightarrow> string" where
  "Base58Encode num = base58_loop num []"

section \<open>Keys and addresses\<close>

text \<open>\<open>fmt::format("{:0>64}", s)\<close>.\<close>

definition pad64 :: "string \<Rightarrow> string" where
  "pad64 s = replicate (64 - length s) (CHR ''0'') @ s"

definition GetPublicKey :: "'j lib \<Rightarrow> string \<Rightarrow> string" where
  "GetPublicKey L privateKeyStr =
     (let (x, y) = ec_public_point L privateKeyStr;
          qx = pad64 (butlast (integer_hex L x));
          qy = pad64 (butlast (integer_hex L y))
      in ''04'' @ qx @ qy)"

definition GetAddressFromPrivateKey :: "'j lib \<Rightarrow> string \<Rightarrow> string" where
  "GetAddressFromPrivateKey L privateKeyStr =
     (let publicKey = GetPublicKey L privateKeyStr;
          publicKeyHash = SHA256HexString L publicKey;
          ripeHash = RIPEMD160HexString L publicKeyHash;
          step4 = ''00'' @ ripeHash;
          networkBytesHash = SHA256HexString L (SHA256HexString L step4);
          step7 = take 8 networkBytesHash;
          step9 = integer_of L (step4 @ step7 @ ''h'')
      in ''1'' @ Base58Encode step9)"

text \<open>\<open>GeneratePrivateKey\<close>: \<open>exponent\<close> is what the random generator gives, \<open>None\<close> when the key
  does not validate. The \<open>h\<close> that ends the printed integer stays.\<close>

definition GeneratePrivateKey :: "'j lib \<Rightarrow> nat option \<Rightarrow> string" where
  "GeneratePrivateKey L exponent =
     (case exponent of Some k \<Rightarrow> pad64 (integer_hex L k) | None \<Rightarrow> [])"

section \<open>Lemmas\<close>

fun index_of :: "char \<Rightarrow> string \<Rightarrow> nat" where
  "index_of c [] = 0"
| "index_of c (d # ds) = (if c = d then 0 else Suc (index_of c ds))"

definition base58_value :: "string \<Rightarrow> nat" where
  "base58_value = foldl (\<lambda>acc c. 58 * acc + index_of c base58Alphabet) 0"

lemma length_base58Alphabet [simp]: "length base58Alphabet = 58"
  by (simp add: base58Alphabet_def)

lemma distinct_base58Alphabet: "distinct base58Alphabet"
  by (simp add: base58Alphabet_def)

lemma index_of_nth: "distinct ds \<Longrightarrow> i < length ds \<Longrightarrow> index_of (ds ! i) ds = i"
proof (induction ds arbitrary: i)
  case Nil
  then show ?case by simp
next
  case (Cons d ds)
  then show ?case by (cases i) (auto simp: nth_mem)
qed

lemma index_of_alphabet [simp]: "i < 58 \<Longrightarrow> index_of (base58Alphabet ! i) base58Alphabet = i"
  by (simp add: index_of_nth distinct_base58Alphabet)

lemma base58_remainder: "num - base_count * (num div base_count) = num mod 58"
  by (simp add: base_count_def minus_mult_div_eq_mod)

lemma base58_fold:
  "foldl (\<lambda>acc c. 58 * acc + index_of c base58Alphabet) 0 (base58_loop num encoded) =
   foldl (\<lambda>acc c. 58 * acc + index_of c base58Alphabet) num encoded"
proof (induction num encoded rule: base58_loop.induct)
  case (1 num encoded)
  show ?case
  proof (cases "base_count \<le> num")
    case True
    have "58 * (num div base_count) + num mod 58 = num" by (simp add: base_count_def)
    with True 1 show ?thesis
      by (subst base58_loop.simps) (simp add: base58_remainder)
  next
    case False
    then show ?thesis
      by (subst base58_loop.simps) (simp add: base_count_def)
  qed
qed

lemma base58_loop_chars: "set (base58_loop num encoded) \<subseteq> set base58Alphabet \<union> set encoded"
proof (induction num encoded rule: base58_loop.induct)
  case (1 num encoded)
  have "base58Alphabet ! i \<in> set base58Alphabet" if "i < 58" for i
    using that by (simp add: nth_mem)
  moreover have "num mod 58 < 58" by simp
  ultimately have digit: "base58Alphabet ! (num mod 58) \<in> set base58Alphabet" by blast
  have last: "base58Alphabet ! num \<in> set base58Alphabet" if "\<not> base_count \<le> num"
    using that by (simp add: nth_mem base_count_def)
  have step: "set (base58_loop (num div base_count) (base58Alphabet ! (num mod 58) # encoded))
      \<subseteq> set base58Alphabet \<union> set encoded" if "base_count \<le> num"
    using 1 [OF that] digit by (auto simp: base58_remainder)
  show ?case
    using step last by (subst base58_loop.simps) (auto simp: base58_remainder)
qed

text \<open>How \<open>operator<<\<close> prints the digits of a \<open>CryptoPP::Integer\<close> in base 16, and how they are read.\<close>

definition hex_digits :: string where
  "hex_digits = ''0123456789abcdef''"

fun nat_hex :: "nat \<Rightarrow> string" where
  "nat_hex n = (if n < 16 then [hex_digits ! n] else nat_hex (n div 16) @ [hex_digits ! (n mod 16)])"

declare nat_hex.simps [simp del]

definition hex_value :: "string \<Rightarrow> nat" where
  "hex_value = foldl (\<lambda>acc c. 16 * acc + index_of c hex_digits) 0"

lemma hex_digits_simps [simp]: "length hex_digits = 16" "distinct hex_digits" "index_of (CHR ''0'') hex_digits = 0"
  by (simp_all add: hex_digits_def)

lemma hex_value_nat_hex [simp]: "hex_value (nat_hex n) = n"
proof (induction n rule: nat_hex.induct)
  case (1 n)
  then show ?case by (subst nat_hex.simps) (auto simp: hex_value_def index_of_nth)
qed

lemma nat_hex_digits: "set (nat_hex n) \<subseteq> set hex_digits"
proof (induction n rule: nat_hex.induct)
  case (1 n)
  have "hex_digits ! (n mod 16) \<in> set hex_digits" "n < 16 \<Longrightarrow> hex_digits ! n \<in> set hex_digits" by (simp_all add: nth_mem)
  with 1 show ?case by (subst nat_hex.simps) auto
qed

lemma length_nat_hex: "n < 16 ^ Suc k \<Longrightarrow> length (nat_hex n) \<le> Suc k"
proof (induction k arbitrary: n)
  case 0
  then show ?case by (subst nat_hex.simps) simp
next
  case (Suc k)
  then have "n div 16 < 16 ^ Suc k" by (simp add: less_mult_imp_div_less mult.commute)
  from Suc.IH [OF this] show ?case by (subst nat_hex.simps) simp
qed

lemma pad64_hex:
  assumes "n < 2 ^ 256"
  shows "length (pad64 (nat_hex n)) = 64 \<and> set (pad64 (nat_hex n)) \<subseteq> set hex_digits \<and> hex_value (pad64 (nat_hex n)) = n"
proof -
  have "n < 16 ^ Suc 63" using assms by simp
  then have "length (nat_hex n) \<le> 64" using length_nat_hex [of n 63] by simp
  moreover have "foldl (\<lambda>acc c. 16 * acc + index_of c hex_digits) 0 (replicate m (CHR ''0'')) = 0" for m
    by (induction m) simp_all
  then have "hex_value (replicate m (CHR ''0'') @ s) = hex_value s" for m s by (simp add: hex_value_def)
  ultimately show ?thesis using nat_hex_digits [of n] by (auto simp: pad64_def hex_digits_def)
qed

text \<open>\<open>C36\<close>: base 58 encoding loses nothing: reading the digits back gives the number, so
  different numbers have different encodings, and only letters of the alphabet occur.\<close>

theorem base58_roundtrip:
  "base58_value (Base58Encode num) = num \<and> set (Base58Encode num) \<subseteq> set base58Alphabet"
  using base58_loop_chars [of num "[]"]
  by (simp add: base58_value_def Base58Encode_def base58_fold)

text \<open>\<open>C37\<close>: a public key is \<open>04\<close> and twice 64 lower-case hex digits, which read back to the two coordinates of
  the curve point, leading zeros and all; an address is a \<open>1\<close> followed by base 58 digits. This relies on the
  library to print an integer as its hex digits with an \<open>h\<close> behind them, and on coordinates below \<open>2^256\<close>, as
  those of the curve \<open>secp256k1\<close> are.\<close>

theorem key_and_address_shape:
  assumes "\<forall>n. integer_hex L n = nat_hex n @ ''h''" and "ec_public_point L pk = (x, y)" and "x < 2 ^ 256" and "y < 2 ^ 256"
  shows "\<exists>qx qy. GetPublicKey L pk = ''04'' @ qx @ qy \<and> length qx = 64 \<and> length qy = 64
    \<and> set (qx @ qy) \<subseteq> set hex_digits \<and> hex_value qx = x \<and> hex_value qy = y
    \<and> hd (GetAddressFromPrivateKey L pk) = CHR ''1''
    \<and> set (GetAddressFromPrivateKey L pk) \<subseteq> set base58Alphabet"
proof -
  have "CHR ''1'' \<in> set base58Alphabet" by (simp add: base58Alphabet_def)
  then have address: "hd (GetAddressFromPrivateKey L pk) = CHR ''1''" "set (GetAddressFromPrivateKey L pk) \<subseteq> set base58Alphabet"
    using base58_loop_chars [of _ "[]"] by (auto simp: GetAddressFromPrivateKey_def Let_def Base58Encode_def)
  have key: "GetPublicKey L pk = ''04'' @ pad64 (nat_hex x) @ pad64 (nat_hex y)"
    using assms(1,2) by (simp add: GetPublicKey_def)
  show ?thesis
    by (intro exI [of _ "pad64 (nat_hex x)"] exI [of _ "pad64 (nat_hex y)"])
      (use pad64_hex [OF assms(3)] pad64_hex [OF assms(4)] address key in simp)
qed

text \<open>A point with a short coordinate: the key has its leading zeros.\<close>

theorem key_and_address_shape_witness:
  "\<exists>qx qy. GetPublicKey (demo_lib\<lparr>integer_hex := \<lambda>n. nat_hex n @ ''h'', ec_public_point := \<lambda>pk. (171, 2 ^ 255)\<rparr>) ''k'' = ''04'' @ qx @ qy
     \<and> length qx = 64 \<and> hex_value qx = 171 \<and> hex_value qy = 2 ^ 255"
proof -
  let ?L = "demo_lib\<lparr>integer_hex := \<lambda>n. nat_hex n @ ''h'', ec_public_point := \<lambda>pk. (171, 2 ^ 255)\<rparr>"
  have "\<forall>n. integer_hex ?L n = nat_hex n @ ''h''" "ec_public_point ?L ''k'' = (171, 2 ^ 255)" by simp_all
  from key_and_address_shape [OF this] show ?thesis by simp blast
qed

lemma address_starts_with_1: "GetAddressFromPrivateKey L pk = CHR ''1'' # tl (GetAddressFromPrivateKey L pk)"
  by (simp add: GetAddressFromPrivateKey_def Let_def)

end
