(* ===== verification/Unspent.thy ===== *)
theory Unspent
  imports Chain
begin

text \<open>
  \<open>GetUnspentTxOuts\<close> of \<open>Blockchain.cpp\<close>: the outputs of a chain that no later transaction
  spends, kept in a \<open>std::set\<close> that is ordered by the hash of an output point.
\<close>

section \<open>Unspent outputs\<close>

text \<open>The predicate of \<open>find_if\<close>: the three indices agree.\<close>

definition same_point :: "tx_out_point \<Rightarrow> tx_out_point \<Rightarrow> bool" where
  "same_point a b \<longleftrightarrow>
     blockIndex a = blockIndex b \<and> txIndex a = txIndex b \<and> txOutIndex a = txOutIndex b"

text \<open>
  \<open>std::set\<close> ordered by the hash: the elements in order, an element with the key of a present
  one is not inserted; \<open>find_if\<close> and \<open>erase\<close> remove the first match in that order.
\<close>

fun outs_insert :: "('a \<Rightarrow> u64) \<Rightarrow> 'a \<Rightarrow> 'a list \<Rightarrow> 'a list" where
  "outs_insert k x [] = [x]"
| "outs_insert k x (y # ys) =
     (if k x < k y then x # y # ys
      else if k y < k x then y # outs_insert k x ys
      else y # ys)"

fun outs_erase :: "('a \<Rightarrow> bool) \<Rightarrow> 'a list \<Rightarrow> 'a list" where
  "outs_erase P [] = []"
| "outs_erase P (y # ys) = (if P y then ys else y # outs_erase P ys)"

definition output_point :: "u64 \<Rightarrow> u64 \<Rightarrow> nat \<Rightarrow> tx_out \<Rightarrow> tx_out_point" where
  "output_point bi ti j txout =
     \<lparr>blockIndex = bi, txIndex = ti, txOutIndex = word_of_nat j,
      ptAddress = Some (address txout), ptAmount = Some (amount txout)\<rparr>"

definition insert_output ::
  "'j lib \<Rightarrow> string \<Rightarrow> u64 \<Rightarrow> u64 \<Rightarrow> nat \<times> tx_out \<Rightarrow> tx_out_point list \<Rightarrow> tx_out_point list" where
  "insert_output L addr bi ti txoutitem outs =
     (let (j, txout) = txoutitem
      in if length addr > 0 \<and> address txout \<noteq> addr then outs
         else outs_insert (point_key L) (output_point bi ti j txout) outs)"

definition erase_input :: "tx_in \<Rightarrow> tx_out_point list \<Rightarrow> tx_out_point list" where
  "erase_input txin outs = outs_erase (same_point (txOutPt txin)) outs"

definition unspent_step ::
  "'j lib \<Rightarrow> string \<Rightarrow> tx_out_point list \<Rightarrow> u64 \<times> u64 \<times> transaction \<Rightarrow> tx_out_point list res" where
  "unspent_step L addr outs item =
     (let (bi, ti, tx) = item
      in bindE (assertE (length (txIns tx) > 0)) (\<lambda>_.
         bindE (assertE (length (txOuts tx) > 0)) (\<lambda>_.
         let outs' = fold (insert_output L addr bi ti) (enumerate 0 (txOuts tx)) outs
         in bindE (isCoinbase tx) (\<lambda>cb.
            Inr (if cb then outs' else fold erase_input (txIns tx) outs')))))"

definition GetUnspentTxOuts :: "'j lib \<Rightarrow> blockchain \<Rightarrow> string \<Rightarrow> tx_out_point list res" where
  "GetUnspentTxOuts L c addr =
     foldE (\<lambda>outs b.
        foldE (unspent_step L addr) outs
          (map (\<lambda>(ti, tx). (index b, word_of_nat ti, tx)) (enumerate 0 (transactions b))))
       [] (blocks c)"

section \<open>The ordered set of outputs\<close>

text \<open>
  What the computation of the unspent outputs needs of \<open>std::set\<close> ordered by a key: the elements
  stay in strictly increasing order of their keys, an insertion adds the element unless its key is
  taken, an erasure removes the one match.
\<close>

locale keyed_set =
  fixes key :: "'a \<Rightarrow> u64"
    and ins :: "'a \<Rightarrow> 'a list \<Rightarrow> 'a list"
    and era :: "('a \<Rightarrow> bool) \<Rightarrow> 'a list \<Rightarrow> 'a list"
  assumes sorted_ins: "sorted_wrt (\<lambda>a b. key a < key b) s \<Longrightarrow> sorted_wrt (\<lambda>a b. key a < key b) (ins x s)"
    and sorted_era: "sorted_wrt (\<lambda>a b. key a < key b) s \<Longrightarrow> sorted_wrt (\<lambda>a b. key a < key b) (era P s)"
    and set_ins: "sorted_wrt (\<lambda>a b. key a < key b) s \<Longrightarrow>
      set (ins x s) = (if key x \<in> key ` set s then set s else insert x (set s))"
    and set_era: "sorted_wrt (\<lambda>a b. key a < key b) s \<Longrightarrow>
      (\<And>x y. x \<in> set s \<Longrightarrow> y \<in> set s \<Longrightarrow> P x \<Longrightarrow> P y \<Longrightarrow> x = y) \<Longrightarrow> set (era P s) = {x \<in> set s. \<not> P x}"
begin

lemma insert_all:
  assumes "sorted_wrt (\<lambda>a b. key a < key b) s" and "inj_on key (set s \<union> set xs)"
  shows "sorted_wrt (\<lambda>a b. key a < key b) (fold ins xs s) \<and> set (fold ins xs s) = set s \<union> set xs"
  using assms
proof (induction xs arbitrary: s)
  case Nil
  then show ?case by simp
next
  case (Cons x xs)
  have "set (ins x s) = insert x (set s)"
  proof (cases "key x \<in> key ` set s")
    case True
    then obtain y where "y \<in> set s" "key y = key x" by auto
    with Cons.prems(2) have "x \<in> set s" by (metis UnCI inj_onD list.set_intros(1))
    with True Cons.prems show ?thesis by (auto simp: set_ins)
  qed (use Cons.prems in \<open>simp add: set_ins\<close>)
  with Cons.IH [of "ins x s"] Cons.prems show ?case by (simp add: sorted_ins)
qed

lemma erase_all:
  assumes "sorted_wrt (\<lambda>a b. key a < key b) s"
    and "\<And>P x y. P \<in> set Ps \<Longrightarrow> x \<in> set s \<Longrightarrow> y \<in> set s \<Longrightarrow> P x \<Longrightarrow> P y \<Longrightarrow> x = y"
  shows "sorted_wrt (\<lambda>a b. key a < key b) (fold era Ps s)
    \<and> set (fold era Ps s) = {x \<in> set s. \<forall>P \<in> set Ps. \<not> P x}"
  using assms
proof (induction Ps arbitrary: s)
  case Nil
  then show ?case by simp
next
  case (Cons P Ps)
  have set: "set (era P s) = {x \<in> set s. \<not> P x}"
    using Cons.prems by (intro set_era) auto
  have "sorted_wrt (\<lambda>a b. key a < key b) (fold era Ps (era P s))
      \<and> set (fold era Ps (era P s)) = {x \<in> set (era P s). \<forall>P \<in> set Ps. \<not> P x}"
    by (rule Cons.IH) (use Cons.prems in \<open>auto simp: set sorted_era\<close>)
  then show ?case by (auto simp: set)
qed

lemma sorted_set_unique:
  "sorted_wrt (\<lambda>a b. key a < key b) s \<Longrightarrow> sorted_wrt (\<lambda>a b. key a < key b) t \<Longrightarrow> set s = set t \<Longrightarrow> s = t"
proof (induction s arbitrary: t)
  case Nil
  then show ?case by simp
next
  case (Cons x s)
  then obtain y u where t: "t = y # u" by (cases t) auto
  with Cons.prems have "x = y" by simp (metis insert_iff not_less_iff_gr_or_eq)
  moreover have "x \<notin> set s" "y \<notin> set u" using Cons.prems t by auto
  with Cons.prems t \<open>x = y\<close> have "set s = set u" by (metis insert_ident list.simps(15))
  ultimately show ?case using Cons t by simp
qed

end

lemma key_sorted_inj:
  "sorted_wrt (\<lambda>a b. k a < (k b :: u64)) s \<Longrightarrow> inj_on k (set s)"
proof (induction s)
  case Nil
  then show ?case by simp
next
  case (Cons x s)
  then have "k x \<noteq> k y" if "y \<in> set s" for y using that by fastforce
  with Cons show ?case by (simp add: image_iff)
qed

lemma set_outs_insert_subset: "set (outs_insert k x ys) \<subseteq> insert x (set ys)"
  by (induction ys) auto

lemma set_outs_erase_subset: "set (outs_erase P ys) \<subseteq> set ys"
  by (induction ys) auto

lemma sorted_outs_insert:
  "sorted_wrt (\<lambda>a b. k a < k b) s \<Longrightarrow> sorted_wrt (\<lambda>a b. k a < k b) (outs_insert k x s)"
  by (induction s) (use set_outs_insert_subset in \<open>auto, fastforce\<close>)

lemma sorted_outs_erase:
  "sorted_wrt (\<lambda>a b. k a < (k b :: u64)) s \<Longrightarrow> sorted_wrt (\<lambda>a b. k a < k b) (outs_erase P s)"
proof (induction s)
  case Nil
  then show ?case by simp
next
  case (Cons y s)
  then show ?case using set_outs_erase_subset [of P s] by auto
qed

lemma set_outs_insert:
  "sorted_wrt (\<lambda>a b. k a < k b) s \<Longrightarrow>
   set (outs_insert k x s) = (if k x \<in> k ` set s then set s else insert x (set s))"
proof (induction s)
  case Nil
  then show ?case by simp
next
  case (Cons y s)
  consider "k x < k y" | "k y < k x" | "k x = k y" by (rule linorder_less_linear [THEN disjE]) auto
  then show ?case
    by cases (use Cons in \<open>force+\<close>)
qed

lemma set_outs_erase:
  assumes "sorted_wrt (\<lambda>a b. k a < (k b :: u64)) s"
    and "\<And>x y. x \<in> set s \<Longrightarrow> y \<in> set s \<Longrightarrow> P x \<Longrightarrow> P y \<Longrightarrow> x = y"
  shows "set (outs_erase P s) = {x \<in> set s. \<not> P x}"
  using assms
proof (induction s)
  case Nil
  then show ?case by simp
next
  case (Cons y s)
  have "y \<notin> set s" using Cons.prems(1) by auto
  with Cons show ?case by (auto; metis)
qed

interpretation outs: keyed_set "point_key L" "outs_insert (point_key L)" outs_erase for L
  by unfold_locales (auto simp: sorted_outs_insert sorted_outs_erase set_outs_insert set_outs_erase)

section \<open>Which outputs are unspent\<close>

text \<open>The transactions of a chain in order, each with its block's index and its own.\<close>

definition located :: "blockchain \<Rightarrow> (u64 \<times> u64 \<times> transaction) list" where
  "located c =
     concat (map (\<lambda>b. map (\<lambda>(ti, tx). (index b, word_of_nat ti, tx)) (enumerate 0 (transactions b))) (blocks c))"

definition outputs_of :: "u64 \<times> u64 \<times> transaction \<Rightarrow> tx_out_point list" where
  "outputs_of = (\<lambda>(bi, ti, tx). map (\<lambda>(j, txout). output_point bi ti j txout) (enumerate 0 (txOuts tx)))"

definition spends :: "u64 \<times> u64 \<times> transaction \<Rightarrow> tx_out_point \<Rightarrow> bool" where
  "spends = (\<lambda>(bi, ti, tx) p. \<not> coinbase_tx tx \<and> (\<exists>txin \<in> set (txIns tx). same_point (txOutPt txin) p))"

definition wanted :: "string \<Rightarrow> tx_out_point \<Rightarrow> bool" where
  "wanted addr p \<longleftrightarrow> addr = [] \<or> ptAddress p = Some addr"

text \<open>Made by some transaction and spent by none from that one on.\<close>

definition unspent_in :: "(u64 \<times> u64 \<times> transaction) list \<Rightarrow> tx_out_point \<Rightarrow> bool" where
  "unspent_in txs p \<longleftrightarrow>
     (\<exists>k < length txs. p \<in> set (outputs_of (txs ! k)) \<and> (\<forall>k' < length txs. k \<le> k' \<longrightarrow> \<not> spends (txs ! k') p))"

definition all_outputs :: "blockchain \<Rightarrow> tx_out_point set" where
  "all_outputs c = (\<Union>it \<in> set (located c). set (outputs_of it))"

definition wf_chain :: "blockchain \<Rightarrow> bool" where
  "wf_chain c \<longleftrightarrow> (\<forall>b \<in> set (blocks c). \<forall>tx \<in> set (transactions b). wf_transaction tx)"

abbreviation key_sorted :: "'j lib \<Rightarrow> tx_out_point list \<Rightarrow> bool" where
  "key_sorted L \<equiv> sorted_wrt (\<lambda>a b. point_key L a < point_key L b)"

lemma GetUnspentTxOuts_located: "GetUnspentTxOuts L c addr = foldE (unspent_step L addr) [] (located c)"
  by (simp add: GetUnspentTxOuts_def located_def foldE_concat)

lemma set_located_tx:
  "snd ` snd ` set (located c) = (\<Union>b \<in> set (blocks c). set (transactions b))"
proof -
  have "(\<lambda>x. snd (snd (case x of (ti, tx) \<Rightarrow> (i, word_of_nat ti :: u64, tx)))) ` set (enumerate n xs) = set xs"
    for i :: u64 and n and xs :: "transaction list"
  proof -
    have "(\<lambda>x. snd (snd (case x of (ti, tx) \<Rightarrow> (i, word_of_nat ti :: u64, tx)))) ` set (enumerate n xs)
        = snd ` set (enumerate n xs)"
      by (rule image_cong) auto
    also have "\<dots> = set xs" by (simp only: flip: set_map) simp
    finally show ?thesis .
  qed
  then show ?thesis by (simp add: located_def image_UN image_image)
qed

lemma wf_chain_located: "wf_chain c \<longleftrightarrow> (\<forall>(bi, ti, tx) \<in> set (located c). wf_transaction tx)"
proof -
  have "(\<forall>(bi, ti, tx) \<in> set (located c). wf_transaction tx) \<longleftrightarrow> (\<forall>tx \<in> snd ` snd ` set (located c). wf_transaction tx)"
    by auto
  then show ?thesis by (auto simp: wf_chain_def set_located_tx)
qed

lemma insert_output_fold:
  "fold (insert_output L addr bi ti) (enumerate n outs) s =
   fold (outs_insert (point_key L))
     (filter (wanted addr) (map (\<lambda>(j, txout). output_point bi ti j txout) (enumerate n outs))) s"
  by (induction outs arbitrary: n s) (auto simp: insert_output_def wanted_def output_point_def)

lemma erase_input_fold:
  "fold erase_input ins s = fold outs_erase (map (\<lambda>txin. same_point (txOutPt txin)) ins) s"
  by (induction ins arbitrary: s) (simp_all add: erase_input_def)

lemma unspent_step_eq:
  assumes "wf_transaction tx"
  shows "unspent_step L addr s (bi, ti, tx) =
     Inr (fold outs_erase (if coinbase_tx tx then [] else map (\<lambda>txin. same_point (txOutPt txin)) (txIns tx))
            (fold (outs_insert (point_key L)) (filter (wanted addr) (outputs_of (bi, ti, tx))) s))"
proof -
  have "txIns tx \<noteq> []" "txOuts tx \<noteq> []" using assms by (simp_all add: wf_transaction_def)
  with assms show ?thesis
    by (simp add: unspent_step_def insert_output_fold erase_input_fold outputs_of_def Let_def)
qed

lemma same_point_key: "same_point p q \<Longrightarrow> same_point p r \<Longrightarrow> point_key L q = point_key L r"
  by (simp add: same_point_def point_key_def)

lemma unspent_in_snoc:
  "unspent_in (txs @ [it]) p \<longleftrightarrow> (unspent_in txs p \<or> p \<in> set (outputs_of it)) \<and> \<not> spends it p"
  by (simp add: unspent_in_def nth_append Ex_less_Suc All_less_Suc cong: conj_cong) (meson less_imp_le_nat linorder_not_le)

text \<open>The invariant of the whole loop.\<close>

lemma unspent_loop:
  assumes "inj_on (point_key L) (\<Union>it \<in> set txs. set (outputs_of it))"
    and "\<forall>(bi, ti, tx) \<in> set txs. wf_transaction tx"
  shows "\<exists>outs. foldE (unspent_step L addr) [] txs = Inr outs \<and> key_sorted L outs
    \<and> set outs = {p. wanted addr p \<and> unspent_in txs p}"
  using assms
proof (induction txs rule: rev_induct)
  case Nil
  then show ?case by (simp add: unspent_in_def)
next
  case (snoc it txs)
  obtain bi ti tx where it: "it = (bi, ti, tx)" by (cases it)
  have inj: "inj_on (point_key L) ((\<Union>it \<in> set txs. set (outputs_of it)) \<union> set (outputs_of it))"
    using snoc.prems(1) by (simp add: Un_commute)
  then have "inj_on (point_key L) (\<Union>it \<in> set txs. set (outputs_of it))"
    by (rule inj_on_subset) auto
  then obtain outs where outs: "foldE (unspent_step L addr) [] txs = Inr outs" "key_sorted L outs"
      "set outs = {p. wanted addr p \<and> unspent_in txs p}"
    using snoc by auto
  define new where "new = filter (wanted addr) (outputs_of it)"
  define Ps where "Ps = (if coinbase_tx tx then [] else map (\<lambda>txin. same_point (txOutPt txin)) (txIns tx))"
  define mid where "mid = fold (outs_insert (point_key L)) new outs"
  have old: "set outs \<subseteq> (\<Union>it \<in> set txs. set (outputs_of it))"
    by (auto simp: outs(3) unspent_in_def) (metis nth_mem prod.collapse)
  with inj have "inj_on (point_key L) (set outs \<union> set new)"
    by (rule_tac inj_on_subset) (auto simp: new_def)
  with outs.insert_all [OF outs(2), of new] have mid: "key_sorted L mid" "set mid = set outs \<union> set new"
    by (auto simp: mid_def)
  then have injm: "inj_on (point_key L) (set mid)" using \<open>inj_on (point_key L) (set outs \<union> set new)\<close> by simp
  have one: "x = y" if "P \<in> set Ps" "x \<in> set mid" "y \<in> set mid" "P x" "P y" for P x y
    using that injm by (auto simp: Ps_def dest: same_point_key [of _ x y L] inj_onD split: if_splits)
  have "foldE (unspent_step L addr) [] (txs @ [it]) = Inr (fold outs_erase Ps mid)"
    using snoc.prems(2) by (simp add: foldE_append outs(1) it unspent_step_eq Ps_def mid_def new_def)
  moreover have "key_sorted L (fold outs_erase Ps mid)"
      "set (fold outs_erase Ps mid) = {x \<in> set mid. \<forall>P \<in> set Ps. \<not> P x}"
    using outs.erase_all [OF mid(1), of Ps] one by auto
  moreover have "(\<forall>P \<in> set Ps. \<not> P p) \<longleftrightarrow> \<not> spends it p" for p
    by (auto simp: Ps_def it spends_def)
  ultimately show ?case
    by (auto simp: unspent_in_snoc mid(2) outs(3) new_def)
qed

text \<open>\<open>C17\<close>: as long as no two outputs of the chain have the same hash, the unspent outputs are
  those made by some transaction and spent by no non-coinbase transaction from there on, of the
  address if one is given; each occurs once and they come in the order of their hashes.\<close>

theorem GetUnspentTxOuts_spec:
  assumes "wf_chain c" and "inj_on (point_key L) (all_outputs c)"
  shows "\<exists>outs. GetUnspentTxOuts L c addr = Inr outs
    \<and> sorted_wrt (\<lambda>a b. point_key L a < point_key L b) outs
    \<and> (\<forall>p. p \<in> set outs \<longleftrightarrow> (addr = [] \<or> ptAddress p = Some addr) \<and> unspent_in (located c) p)"
  using unspent_loop [of L "located c" addr] assms
  by (auto simp: GetUnspentTxOuts_located all_outputs_def wf_chain_located wanted_def)

lemma unspent_step_key_sorted:
  assumes "key_sorted L s" and "wf_transaction tx"
  shows "\<exists>s'. unspent_step L addr s (bi, ti, tx) = Inr s' \<and> key_sorted L s'"
proof -
  have ins: "key_sorted L (fold (outs_insert (point_key L)) xs s)" if "key_sorted L s" for xs s
    using that by (induction xs arbitrary: s) (simp_all add: outs.sorted_ins)
  have era: "key_sorted L (fold outs_erase Ps s)" if "key_sorted L s" for Ps s
    using that by (induction Ps arbitrary: s) (simp_all add: outs.sorted_era)
  from assms show ?thesis by (simp add: unspent_step_eq ins era)
qed

lemma unspent_step_malformed:
  "\<not> wf_transaction tx \<Longrightarrow> unspent_step L addr s (bi, ti, tx) = Inl AssertFailed"
  by (cases "txIns tx = []") (auto simp: unspent_step_def wf_transaction_def)

lemma unspent_loop_total:
  "key_sorted L s \<Longrightarrow>
   if \<forall>(bi, ti, tx) \<in> set txs. wf_transaction tx
   then \<exists>outs. foldE (unspent_step L addr) s txs = Inr outs \<and> key_sorted L outs
   else foldE (unspent_step L addr) s txs = Inl AssertFailed"
proof (induction txs arbitrary: s)
  case Nil
  then show ?case by simp
next
  case (Cons it txs)
  obtain bi ti tx where it: "it = (bi, ti, tx)" by (cases it)
  show ?case
  proof (cases "wf_transaction tx")
    case True
    with Cons.prems obtain s' where "unspent_step L addr s it = Inr s'" "key_sorted L s'"
      using unspent_step_key_sorted it by blast
    with Cons.IH [of s'] True show ?thesis by (simp add: it)
  next
    case False
    then show ?thesis by (simp add: it unspent_step_malformed)
  qed
qed

text \<open>The call fails, by a failed assertion, exactly when the chain holds a transaction without
  inputs or without outputs; otherwise it returns outputs with pairwise different hashes, whatever
  the hash function.\<close>

theorem GetUnspentTxOuts_total:
  "if wf_chain c
   then \<exists>outs. GetUnspentTxOuts L c addr = Inr outs
          \<and> sorted_wrt (\<lambda>a b. point_key L a < point_key L b) outs
   else GetUnspentTxOuts L c addr = Inl AssertFailed"
  using unspent_loop_total [of L "[]" "located c" addr]
  by (simp add: GetUnspentTxOuts_located wf_chain_located)

text \<open>Asking for one address gives the same list as asking for all outputs and keeping those
  of the address.\<close>

theorem GetUnspentTxOuts_address:
  assumes "wf_chain c" and "inj_on (point_key L) (all_outputs c)" and "addr \<noteq> []"
    and "GetUnspentTxOuts L c [] = Inr outs"
  shows "GetUnspentTxOuts L c addr = Inr (filter (\<lambda>p. ptAddress p = Some addr) outs)"
proof -
  have its: "inj_on (point_key L) (\<Union>it \<in> set (located c). set (outputs_of it))"
      "\<forall>(bi, ti, tx) \<in> set (located c). wf_transaction tx"
    using assms by (simp_all add: all_outputs_def wf_chain_located)
  obtain some where some: "GetUnspentTxOuts L c addr = Inr some" "key_sorted L some"
      "set some = {p. wanted addr p \<and> unspent_in (located c) p}"
    using unspent_loop [OF its, of addr] by (auto simp: GetUnspentTxOuts_located)
  have all: "key_sorted L outs" "set outs = {p. unspent_in (located c) p}"
    using unspent_loop [OF its, of "[]"] assms(4) by (auto simp: GetUnspentTxOuts_located wanted_def)
  have "some = filter (\<lambda>p. ptAddress p = Some addr) outs"
    by (rule outs.sorted_set_unique [of L]) (use some all assms(3) in \<open>auto simp: sorted_wrt_filter wanted_def\<close>)
  with some show ?thesis by simp
qed

text \<open>The hash decides what is the same output. Of two different unspent outputs with one hash
  at least one is missing from the answer.\<close>

theorem GetUnspentTxOuts_collision:
  assumes "unspent_in (located c) p" and "unspent_in (located c) q" and "p \<noteq> q"
    and "point_key L p = point_key L q" and "GetUnspentTxOuts L c addr = Inr outs"
  shows "p \<notin> set outs \<or> q \<notin> set outs"
proof -
  have "key_sorted L outs"
    using unspent_loop_total [of L "[]" "located c" addr] assms(5)
    by (auto simp: GetUnspentTxOuts_located split: if_splits)
  then have "inj_on (point_key L) (set outs)" by (rule key_sorted_inj)
  with assms(3,4) show ?thesis by (meson inj_onD)
qed

end
