(* ===== verification/Accounts.thy ===== *)
theory Accounts
  imports Unspent Crypto
begin

text \<open>
  The free functions of \<open>Blockchain.cpp\<close> that read a chain for one address or transaction: the
  ledger and the balance of an address, the making of a transaction, the search for one, and the
  details of a block. Amounts are IEEE doubles throughout.
\<close>

section \<open>Ledger entries\<close>

record ledger_info =
  blockIdx :: u64
  txid :: string
  ledgerTime :: block_time
  ledgerAmount :: double

definition ledger_equal :: "ledger_info \<Rightarrow> ledger_info \<Rightarrow> bool" where
  "ledger_equal a b \<longleftrightarrow> blockIdx a = blockIdx b \<and> txid a = txid b"

definition ledger_info_to_json :: "'j lib \<Rightarrow> ledger_info \<Rightarrow> 'j" where
  "ledger_info_to_json L li = js_object L
     [(''txid'', js_of_string L (txid li)), (''blockid'', js_of_u64 L (blockIdx li)),
      (''amount'', js_of_double L (ledgerAmount li)), (''time'', js_of_u64 L (ledgerTime li))]"

definition ledger_info_from_json :: "'j lib \<Rightarrow> 'j \<Rightarrow> ledger_info res" where
  "ledger_info_from_json L j =
     bindE (at_u64 L j ''blockid'') (\<lambda>b.
     bindE (at_string L j ''txid'') (\<lambda>i.
     bindE (at_double L j ''amount'') (\<lambda>x.
     bindE (at_u64 L j ''time'') (\<lambda>t.
     Inr \<lparr>blockIdx = b, txid = i, ledgerTime = t, ledgerAmount = x\<rparr>))))"

definition ledger_to_json :: "'j lib \<Rightarrow> ledger_info list \<Rightarrow> 'j" where
  "ledger_to_json = to_json_array ledger_info_to_json"

definition ledger_from_json :: "'j lib \<Rightarrow> 'j \<Rightarrow> ledger_info list res" where
  "ledger_from_json = from_json_array ledger_info_from_json"

interpretation ledger_info_json: json_codec ledger_info_to_json ledger_info_from_json
  by unfold_locales (simp add: ledger_info_to_json_def ledger_info_from_json_def at_defs json_simps)

interpretation ledger_json: json_codec ledger_to_json ledger_from_json
  by unfold_locales (simp add: ledger_to_json_def ledger_from_json_def ledger_info_json.array_from_to)

section \<open>Block details and the search for a transaction\<close>

definition fill_input :: "blockchain \<Rightarrow> tx_in \<Rightarrow> tx_in res" where
  "fill_input c txin =
     (let txpt = txOutPt txin
      in bindE (assertE (unat (blockIndex txpt) < chain_size c)) (\<lambda>_.
         bindE (atE (blocks c) (unat (blockIndex txpt))) (\<lambda>b.
         bindE (assertE (unat (txIndex txpt) < length (transactions b))) (\<lambda>_.
         bindE (atE (transactions b) (unat (txIndex txpt))) (\<lambda>tx.
         bindE (assertE (unat (txOutIndex txpt) < length (txOuts tx))) (\<lambda>_.
         bindE (atE (txOuts tx) (unat (txOutIndex txpt))) (\<lambda>txout.
         Inr (txin\<lparr>txOutPt := txpt\<lparr>ptAddress := Some (address txout),
                                   ptAmount := Some (amount txout)\<rparr>\<rparr>))))))))"

definition fill_transaction :: "blockchain \<Rightarrow> transaction \<Rightarrow> transaction res" where
  "fill_transaction c tx = bindE (mapE (fill_input c) (txIns tx)) (\<lambda>ins. Inr (tx\<lparr>txIns := ins\<rparr>))"

definition GetBlockDetails :: "blockchain \<Rightarrow> nat \<Rightarrow> block res" where
  "GetBlockDetails c idx =
     bindE (atE (blocks c) idx) (\<lambda>b.
     bindE (mapE (fill_transaction c) (transactions b)) (\<lambda>txs.
     Inr (b\<lparr>transactions := txs\<rparr>)))"

fun find_tx_in_block :: "string \<Rightarrow> nat \<Rightarrow> transaction list \<Rightarrow> nat option" where
  "find_tx_in_block i n [] = None"
| "find_tx_in_block i n (tx # txs) = (if txId tx = i then Some n else find_tx_in_block i (n + 1) txs)"

fun find_tx_in_blocks :: "string \<Rightarrow> block list \<Rightarrow> (u64 \<times> u64) option" where
  "find_tx_in_blocks i [] = None"
| "find_tx_in_blocks i (b # bs) =
     (case find_tx_in_block i 0 (transactions b) of
        Some n \<Rightarrow> Some (index b, word_of_nat n)
      | None \<Rightarrow> find_tx_in_blocks i bs)"

definition FindTransaction :: "blockchain \<Rightarrow> string \<Rightarrow> (u64 \<times> u64) option" where
  "FindTransaction c i = find_tx_in_blocks i (blocks c)"

section \<open>Ledger and balance of an address\<close>

text \<open>
  The first output to the address makes an entry. A non-coinbase transaction whose first input
  comes from the address then replaces the last entry by the net amount.
\<close>

definition input_total :: "tx_in list \<Rightarrow> double res" where
  "input_total ins =
     foldE (\<lambda>accum txin. case ptAmount (txOutPt txin) of
               None \<Rightarrow> Inl UndefinedBehaviour | Some x \<Rightarrow> Inr (dbl_add accum x))
       dbl_zero ins"

definition credit_entry ::
  "string \<Rightarrow> block \<Rightarrow> transaction \<Rightarrow> ledger_info list \<Rightarrow> ledger_info list" where
  "credit_entry addr b tx ledger =
     (case find (\<lambda>txout. address txout = addr) (txOuts tx) of
        Some txout \<Rightarrow> ledger @ [\<lparr>blockIdx = index b, txid = txId tx, ledgerTime = blockTime b,
                                ledgerAmount = amount txout\<rparr>]
      | None \<Rightarrow> ledger)"

definition debit_entry ::
  "block \<Rightarrow> transaction \<Rightarrow> ledger_info list \<Rightarrow> ledger_info list res" where
  "debit_entry b tx ledger =
     bindE (input_total (txIns tx)) (\<lambda>txInTotal.
     bindE (backE ledger) (\<lambda>l.
     let net = dbl_sub txInTotal (ledgerAmount l)
     in Inr (butlast ledger @ [\<lparr>blockIdx = index b, txid = txId tx, ledgerTime = blockTime b,
                               ledgerAmount = dbl_neg net\<rparr>])))"

definition ledger_step :: "string \<Rightarrow> block \<Rightarrow> ledger_info list \<Rightarrow> transaction \<Rightarrow> ledger_info list res" where
  "ledger_step addr b ledger tx =
     bindE (assertE (length (txOuts tx) > 0)) (\<lambda>_.
     let ledger' = credit_entry addr b tx ledger
     in bindE (assertE (length (txIns tx) > 0)) (\<lambda>_.
        bindE (atE (txIns tx) 0) (\<lambda>txin.
        bindE (assertE (ptAddress (txOutPt txin) \<noteq> None)) (\<lambda>_.
        bindE (isCoinbase tx) (\<lambda>cb.
        if \<not> cb \<and> ptAddress (txOutPt txin) = Some addr
        then debit_entry b tx ledger' else Inr ledger')))))"

definition GetAddressLedger :: "blockchain \<Rightarrow> string \<Rightarrow> ledger_info list res" where
  "GetAddressLedger c addr =
     foldE (\<lambda>ledger b.
        bindE (GetBlockDetails c (unat (index b))) (\<lambda>fullblock.
        foldE (ledger_step addr b) ledger (transactions fullblock)))
       [] (blocks c)"

definition GetAddressBalance :: "blockchain \<Rightarrow> string \<Rightarrow> double res" where
  "GetAddressBalance c addr =
     bindE (GetAddressLedger c addr) (\<lambda>ledger.
     Inr (foldl (\<lambda>accum entry. dbl_add accum (ledgerAmount entry)) dbl_zero ledger))"

section \<open>Making a transaction\<close>

text \<open>The loop over the sender's unspent outputs: total so far, leftover and included outputs.\<close>

fun select_outs ::
  "double \<Rightarrow> tx_out_point list \<Rightarrow> double \<Rightarrow> double \<Rightarrow> tx_out_point list
   \<Rightarrow> (double \<times> double \<times> tx_out_point list) res" where
  "select_outs amt [] currentAmount leftoverAmount included = Inr (currentAmount, leftoverAmount, included)"
| "select_outs amt (unspent # rest) currentAmount leftoverAmount included =
     (case ptAmount unspent of
        None \<Rightarrow> Inl AssertFailed
      | Some x \<Rightarrow>
          (let included' = included @ [unspent]; current' = dbl_add currentAmount x
           in if dbl_le amt current' then Inr (current', dbl_sub current' amt, included')
              else select_outs amt rest current' leftoverAmount included'))"

definition CreateTransaction ::
  "'j lib \<Rightarrow> blockchain \<Rightarrow> string \<Rightarrow> string \<Rightarrow> double \<Rightarrow> (tx_result \<times> transaction) res" where
  "CreateTransaction L c senderPK receiver amt =
     (let senderAddress = GetAddressFromPrivateKey L senderPK
      in if iequals L receiver senderAddress then Inr (NOOP_TRANSACTION, empty_transaction)
         else bindE (GetUnspentTxOuts L c senderAddress) (\<lambda>senderUnspentList.
           if length senderUnspentList = 0 then Inr (TXOUTS_EMPTY, empty_transaction)
           else bindE (select_outs amt senderUnspentList dbl_zero dbl_zero []) (\<lambda>(currentAmount, leftoverAmount, included).
             if dbl_less currentAmount amt then Inr (INSUFFICIENT_FUNDS, empty_transaction)
             else Inr (SUCCESS,
               \<lparr>txId = [],
                txIns = map (\<lambda>u. make_tx_in (blockIndex u) (txIndex u) (txOutIndex u) ''signature'') included,
                txOuts = \<lparr>address = receiver, amount = amt\<rparr>
                  # (if dbl_less dbl_zero leftoverAmount
                     then [\<lparr>address = senderAddress, amount = leftoverAmount\<rparr>] else [])\<rparr>))))"

section \<open>Details of a block\<close>

text \<open>The output a point names, and whether it exists.\<close>

definition in_range :: "blockchain \<Rightarrow> tx_out_point \<Rightarrow> bool" where
  "in_range c pt \<longleftrightarrow>
     unat (blockIndex pt) < length (blocks c)
     \<and> unat (txIndex pt) < length (transactions (blocks c ! unat (blockIndex pt)))
     \<and> unat (txOutIndex pt)
         < length (txOuts (transactions (blocks c ! unat (blockIndex pt)) ! unat (txIndex pt)))"

definition output_at :: "blockchain \<Rightarrow> tx_out_point \<Rightarrow> tx_out" where
  "output_at c pt =
     txOuts (transactions (blocks c ! unat (blockIndex pt)) ! unat (txIndex pt)) ! unat (txOutIndex pt)"

definition filled_input :: "blockchain \<Rightarrow> tx_in \<Rightarrow> tx_in" where
  "filled_input c txin = txin\<lparr>txOutPt := (txOutPt txin)
     \<lparr>ptAddress := Some (address (output_at c (txOutPt txin))),
      ptAmount := Some (amount (output_at c (txOutPt txin)))\<rparr>\<rparr>"

definition filled :: "blockchain \<Rightarrow> transaction \<Rightarrow> transaction" where
  "filled c tx = tx\<lparr>txIns := map (filled_input c) (txIns tx)\<rparr>"

lemma filled_input_simps [simp]:
  "ptAddress (txOutPt (filled_input c txin)) = Some (address (output_at c (txOutPt txin)))"
  "ptAmount (txOutPt (filled_input c txin)) = Some (amount (output_at c (txOutPt txin)))"
  by (simp_all add: filled_input_def)

lemma fill_input_eq:
  "fill_input c txin = (if in_range c (txOutPt txin) then Inr (filled_input c txin) else Inl AssertFailed)"
  by (simp add: fill_input_def in_range_def filled_input_def output_at_def chain_size_def Let_def assertE_def)

lemma mapE_if:
  "mapE (\<lambda>x. if P x then Inr (f x) else Inl e) xs = (if \<forall>x \<in> set xs. P x then Inr (map f xs) else Inl e)"
  by (induction xs) auto

lemma fill_transaction_eq:
  "fill_transaction c tx =
     (if \<forall>txin \<in> set (txIns tx). in_range c (txOutPt txin) then Inr (filled c tx) else Inl AssertFailed)"
  by (simp add: fill_transaction_def fill_input_eq [abs_def] mapE_if filled_def)

lemma GetBlockDetails_eq:
  "GetBlockDetails c idx =
     (if length (blocks c) \<le> idx then Inl OutOfRange
      else if \<forall>tx \<in> set (transactions (blocks c ! idx)). \<forall>txin \<in> set (txIns tx). in_range c (txOutPt txin)
      then Inr ((blocks c ! idx)\<lparr>transactions := map (filled c) (transactions (blocks c ! idx))\<rparr>)
      else Inl AssertFailed)"
  by (simp add: GetBlockDetails_def atE_def fill_transaction_eq [abs_def] mapE_if)

lemma filled_frame [simp]:
  "txId (filled c tx) = txId tx" "txOuts (filled c tx) = txOuts tx"
  "wf_transaction (filled c tx) = wf_transaction tx"
  "coinbase_tx (filled c tx) = coinbase_tx tx"
  by (auto simp: filled_def wf_transaction_def coinbase_tx_def filled_input_def split: list.splits)

text \<open>\<open>GetBlockDetails\<close> returns the block with the address and the amount of the referenced
  output filled in at every input and nothing else changed; it throws for an index outside the
  chain and fails an assertion for an input that names an output outside the chain.\<close>

theorem GetBlockDetails_spec:
  "GetBlockDetails c idx =
     (if length (blocks c) \<le> idx then Inl OutOfRange
      else if \<forall>tx \<in> set (transactions (blocks c ! idx)). \<forall>txin \<in> set (txIns tx). in_range c (txOutPt txin)
      then Inr ((blocks c ! idx)\<lparr>transactions := map (\<lambda>tx. tx\<lparr>txIns := map (\<lambda>txin. txin
             \<lparr>txOutPt := (txOutPt txin)\<lparr>ptAddress := Some (address (output_at c (txOutPt txin))),
                                      ptAmount := Some (amount (output_at c (txOutPt txin)))\<rparr>\<rparr>)
             (txIns tx)\<rparr>) (transactions (blocks c ! idx))\<rparr>)
      else Inl AssertFailed)"
  by (simp only: GetBlockDetails_eq filled_def [abs_def] filled_input_def [abs_def])

section \<open>Finding a transaction\<close>

lemma find_tx_in_block_eq:
  "find_tx_in_block i n txs =
     map_option fst (find (\<lambda>(k, tx). txId tx = i) (enumerate n txs))"
  by (induction i n txs rule: find_tx_in_block.induct) auto

lemma find_append: "find P (xs @ ys) = (case find P xs of Some x \<Rightarrow> Some x | None \<Rightarrow> find P ys)"
  by (induction xs) auto

lemma find_map: "find P (map f xs) = map_option f (find (P \<circ> f) xs)"
  by (induction xs) auto

lemma find_tx_in_blocks_eq:
  "find_tx_in_blocks i bs =
     map_option (\<lambda>(bi, ti, tx). (bi, ti)) (find (\<lambda>(bi, ti, tx). txId tx = i)
       (concat (map (\<lambda>b. map (\<lambda>(ti, tx). (index b, word_of_nat ti, tx)) (enumerate 0 (transactions b))) bs)))"
proof (induction bs)
  case Nil
  then show ?case by simp
next
  case (Cons b bs)
  have comp: "((\<lambda>(bi, ti, tx). txId tx = i) \<circ> (\<lambda>(ti, tx). (index b, word_of_nat ti :: u64, tx)))
      = (\<lambda>(k, tx). txId tx = i)" by auto
  show ?case
    by (simp only: find_tx_in_blocks.simps list.map concat.simps find_append find_map comp Cons.IH
        find_tx_in_block_eq) (auto split: option.splits)
qed

lemma FindTransaction_eq:
  "FindTransaction c i = map_option (\<lambda>(bi, ti, tx). (bi, ti)) (find (\<lambda>(bi, ti, tx). txId tx = i) (located c))"
  by (simp add: FindTransaction_def find_tx_in_blocks_eq located_def)

lemma FindTransaction_None:
  "FindTransaction c i = None \<longleftrightarrow> (\<forall>b \<in> set (blocks c). \<forall>tx \<in> set (transactions b). txId tx \<noteq> i)"
proof -
  have "FindTransaction c i = None \<longleftrightarrow> (\<forall>tx \<in> snd ` snd ` set (located c). txId tx \<noteq> i)"
    by (simp add: FindTransaction_eq find_None_iff split_def) (metis prod.collapse snd_conv)
  then show ?thesis by (simp add: set_located_tx)
qed

text \<open>\<open>FindTransaction\<close> finds the first transaction of the chain with the id, in the order of
  blocks and of transactions within a block, and none exactly when there is none.\<close>

theorem FindTransaction_first:
  "FindTransaction c i =
     map_option (\<lambda>(bi, ti, tx). (bi, ti)) (find (\<lambda>(bi, ti, tx). txId tx = i) (located c))
   \<and> (FindTransaction c i = None \<longleftrightarrow> (\<forall>b \<in> set (blocks c). \<forall>tx \<in> set (transactions b). txId tx \<noteq> i))"
  using FindTransaction_eq FindTransaction_None by blast

section \<open>The balance of an address\<close>

text \<open>What a transaction brings to and takes from an address, in whole coins.\<close>

definition credited :: "string \<Rightarrow> transaction \<Rightarrow> bool" where
  "credited addr tx \<longleftrightarrow> (\<exists>txout \<in> set (txOuts tx). address txout = addr)"

definition credit :: "string \<Rightarrow> transaction \<Rightarrow> int" where
  "credit addr tx =
     (case find (\<lambda>txout. address txout = addr) (txOuts tx) of Some txout \<Rightarrow> dbl_int (amount txout) | None \<Rightarrow> 0)"

definition debited :: "blockchain \<Rightarrow> string \<Rightarrow> transaction \<Rightarrow> bool" where
  "debited c addr tx \<longleftrightarrow> \<not> coinbase_tx tx \<and> address (output_at c (txOutPt (hd (txIns tx)))) = addr"

definition debit :: "blockchain \<Rightarrow> string \<Rightarrow> transaction \<Rightarrow> int" where
  "debit c addr tx =
     (if debited c addr tx then \<Sum>txin \<leftarrow> txIns tx. dbl_int (amount (output_at c (txOutPt txin))) else 0)"

definition turnover :: "blockchain \<Rightarrow> string \<Rightarrow> transaction \<Rightarrow> int" where
  "turnover c addr tx = \<bar>credit addr tx\<bar>
     + (if debited c addr tx then \<Sum>txin \<leftarrow> txIns tx. \<bar>dbl_int (amount (output_at c (txOutPt txin)))\<bar> else 0)"

text \<open>All amounts whole, all inputs inside the chain.\<close>

definition sound_tx :: "blockchain \<Rightarrow> transaction \<Rightarrow> bool" where
  "sound_tx c tx \<longleftrightarrow> wf_transaction tx
     \<and> (\<forall>txout \<in> set (txOuts tx). integral (amount txout))
     \<and> (\<forall>txin \<in> set (txIns tx). in_range c (txOutPt txin) \<and> integral (amount (output_at c (txOutPt txin))))"

lemma input_total_eq:
  assumes "\<forall>txin \<in> set ins. integral (amount (output_at c (txOutPt txin)))"
    and "\<bar>a\<bar> + (\<Sum>txin \<leftarrow> ins. \<bar>dbl_int (amount (output_at c (txOutPt txin)))\<bar>) < 2 ^ 53"
  shows "foldE (\<lambda>accum txin. case ptAmount (txOutPt txin) of
               None \<Rightarrow> Inl UndefinedBehaviour | Some x \<Rightarrow> Inr (dbl_add accum x)) (dbl_of_int a) (map (filled_input c) ins)
    = Inr (dbl_of_int (a + (\<Sum>txin \<leftarrow> ins. dbl_int (amount (output_at c (txOutPt txin))))))"
  using assms
proof (induction ins arbitrary: a)
  case Nil
  then show ?case by simp
next
  case (Cons txin ins)
  let ?v = "\<lambda>txin. dbl_int (amount (output_at c (txOutPt txin)))"
  have nn: "0 \<le> (\<Sum>txin \<leftarrow> ins. \<bar>?v txin\<bar>)" by (intro sum_list_nonneg) auto
  have tri: "\<bar>a + ?v txin\<bar> \<le> \<bar>a\<bar> + \<bar>?v txin\<bar>" by (rule abs_triangle_ineq)
  have bound: "\<bar>a\<bar> + (\<bar>?v txin\<bar> + (\<Sum>txin \<leftarrow> ins. \<bar>?v txin\<bar>)) < 2 ^ 53"
    using Cons.prems(2) by simp
  have "dbl_add (dbl_of_int a) (amount (output_at c (txOutPt txin))) = dbl_of_int (a + ?v txin)"
    by (rule dbl_add_of_int) (use Cons.prems(1) bound nn tri in \<open>auto simp: integral_def\<close>)
  moreover have "foldE (\<lambda>accum txin. case ptAmount (txOutPt txin) of
               None \<Rightarrow> Inl UndefinedBehaviour | Some x \<Rightarrow> Inr (dbl_add accum x)) (dbl_of_int (a + ?v txin)) (map (filled_input c) ins)
    = Inr (dbl_of_int (a + ?v txin + (\<Sum>txin \<leftarrow> ins. ?v txin)))"
    by (rule Cons.IH) (use Cons.prems(1) bound tri in auto)
  ultimately show ?case by (simp add: add.assoc)
qed

lemma credit_entry_eq:
  "credit_entry addr b tx ledger =
     ledger @ (case find (\<lambda>txout. address txout = addr) (txOuts tx) of None \<Rightarrow> []
       | Some txout \<Rightarrow> [\<lparr>blockIdx = index b, txid = txId tx, ledgerTime = blockTime b, ledgerAmount = amount txout\<rparr>])"
  by (simp add: credit_entry_def split: option.splits)

text \<open>The ledger holds the integers \<open>xs\<close>.\<close>

definition ledger_holds :: "ledger_info list \<Rightarrow> int list \<Rightarrow> bool" where
  "ledger_holds ledger xs \<longleftrightarrow> list_all2 (\<lambda>e x. holds_int (ledgerAmount e) x) ledger xs"

lemma find_SomeD: "find P xs = Some x \<Longrightarrow> x \<in> set xs \<and> P x"
  by (auto simp: find_Some_iff)

lemma credit_entry_holds:
  assumes "ledger_holds ledger xs" and "sound_tx c tx"
  shows "\<exists>ys. ledger_holds (credit_entry addr b tx ledger) (xs @ ys) \<and> sum_list ys = credit addr tx
    \<and> (\<Sum>y \<leftarrow> ys. \<bar>y\<bar>) = \<bar>credit addr tx\<bar> \<and> (credited addr tx \<longrightarrow> ys \<noteq> [])"
proof (cases "find (\<lambda>txout. address txout = addr) (txOuts tx)")
  case None
  then have "\<not> credited addr tx" by (auto simp: credited_def find_None_iff)
  with None assms show ?thesis
    by (intro exI [of _ "[]"]) (simp add: credit_entry_eq credit_def)
next
  case (Some txout)
  then have "integral (amount txout)" using assms(2) find_SomeD [OF Some] by (auto simp: sound_tx_def)
  with assms(1) Some show ?thesis
    by (intro exI [of _ "[dbl_int (amount txout)]"])
      (simp add: credit_entry_eq credit_def ledger_holds_def list_all2_appendI integral_def)
qed

lemma ledger_holds_Nil [simp]: "ledger_holds [] []"
  by (simp add: ledger_holds_def)

lemma ledger_holds_snoc:
  "ledger_holds (ledger @ [e]) (xs @ [x]) \<longleftrightarrow> ledger_holds ledger xs \<and> holds_int (ledgerAmount e) x"
  by (cases "length ledger = length xs") (auto simp: ledger_holds_def list_all2_append dest: list_all2_lengthD)

text \<open>One transaction changes the sum of the ledger by its net effect on the address.\<close>

lemma ledger_step_holds:
  assumes holds: "ledger_holds ledger xs" and sound: "sound_tx c tx"
    and bound: "(\<Sum>x \<leftarrow> xs. \<bar>x\<bar>) + turnover c addr tx < 2 ^ 53"
    and funded: "debited c addr tx \<longrightarrow> ledger \<noteq> [] \<or> credited addr tx"
  shows "\<exists>ledger' xs'. ledger_step addr b ledger (filled c tx) = Inr ledger' \<and> ledger_holds ledger' xs'
    \<and> sum_list xs' = sum_list xs + credit addr tx - debit c addr tx
    \<and> (\<Sum>x \<leftarrow> xs'. \<bar>x\<bar>) \<le> (\<Sum>x \<leftarrow> xs. \<bar>x\<bar>) + turnover c addr tx
    \<and> (ledger \<noteq> [] \<or> credited addr tx \<longrightarrow> ledger' \<noteq> [])"
proof -
  let ?v = "\<lambda>txin. dbl_int (amount (output_at c (txOutPt txin)))"
  obtain ys where ys: "ledger_holds (credit_entry addr b tx ledger) (xs @ ys)"
      "sum_list ys = credit addr tx" "(\<Sum>y \<leftarrow> ys. \<bar>y\<bar>) = \<bar>credit addr tx\<bar>" "credited addr tx \<longrightarrow> ys \<noteq> []"
    using credit_entry_holds [OF holds sound] by blast
  have wf: "wf_transaction tx" "txIns tx \<noteq> []" "txOuts tx \<noteq> []"
    using sound by (auto simp: sound_tx_def wf_transaction_def)
  have credit_filled: "credit_entry addr b (filled c tx) = credit_entry addr b tx"
    by (simp add: credit_entry_def fun_eq_iff split: option.splits)
  have step: "ledger_step addr b ledger (filled c tx) =
      (if debited c addr tx then debit_entry b (filled c tx) (credit_entry addr b tx ledger)
       else Inr (credit_entry addr b tx ledger))"
    using wf by (simp add: ledger_step_def credit_filled debited_def filled_def hd_map
        flip: filled_def) (simp add: filled_def nth_map hd_conv_nth)
  have len: "ledger = [] \<longleftrightarrow> xs = []" "credit_entry addr b tx ledger = [] \<longleftrightarrow> xs @ ys = []"
    using holds ys(1) by (auto simp: ledger_holds_def)
  show ?thesis
  proof (cases "debited c addr tx")
    case False
    with ys len show ?thesis
      by (intro exI [of _ "credit_entry addr b tx ledger"] exI [of _ "xs @ ys"])
        (auto simp: step debit_def turnover_def)
  next
    case True
    define T where "T = (\<Sum>txin \<leftarrow> txIns tx. ?v txin)"
    define A where "A = (\<Sum>txin \<leftarrow> txIns tx. \<bar>?v txin\<bar>)"
    have TA: "\<bar>T\<bar> \<le> A"
      using sum_list_abs [of "map ?v (txIns tx)"] by (simp add: T_def A_def o_def)
    have turn: "turnover c addr tx = \<bar>credit addr tx\<bar> + A" using True by (simp add: turnover_def A_def)
    have "xs @ ys \<noteq> []" using True funded len ys(4) by auto
    then obtain zs z where zs: "xs @ ys = zs @ [z]" by (metis rev_exhaust)
    have "credit_entry addr b tx ledger \<noteq> []" using len \<open>xs @ ys \<noteq> []\<close> by simp
    then obtain l0 e where l0: "credit_entry addr b tx ledger = l0 @ [e]" by (metis rev_exhaust)
    have he: "ledger_holds l0 zs" "holds_int (ledgerAmount e) z"
      using ys(1) by (simp_all add: zs l0 ledger_holds_snoc)
    have sums: "sum_list zs + z = sum_list xs + credit addr tx"
      "(\<Sum>x \<leftarrow> zs. \<bar>x\<bar>) + \<bar>z\<bar> = (\<Sum>x \<leftarrow> xs. \<bar>x\<bar>) + \<bar>credit addr tx\<bar>"
      using arg_cong [OF zs, of sum_list] arg_cong [OF zs, of "\<lambda>l. \<Sum>x \<leftarrow> l. \<bar>x\<bar>"] ys by simp_all
    have nn: "0 \<le> (\<Sum>x \<leftarrow> xs. \<bar>x\<bar>)" "0 \<le> (\<Sum>x \<leftarrow> zs. \<bar>x\<bar>)" by (auto intro!: sum_list_nonneg)
    have "input_total (txIns (filled c tx)) = Inr (dbl_of_int T)"
      using input_total_eq [of "txIns tx" c 0] sound bound nn
      by (simp add: input_total_def filled_def T_def dbl_zero_def sound_tx_def turn flip: A_def)
    then have deb: "debit_entry b (filled c tx) (credit_entry addr b tx ledger) =
        Inr (l0 @ [\<lparr>blockIdx = index b, txid = txId tx, ledgerTime = blockTime b,
                   ledgerAmount = dbl_neg (dbl_sub (dbl_of_int T) (ledgerAmount e))\<rparr>])"
      by (simp add: debit_entry_def l0 backE_def Let_def)
    have "\<bar>T - z\<bar> \<le> A + \<bar>z\<bar>" "\<bar>T - z\<bar> < 2 ^ 53" "\<bar>T\<bar> < 2 ^ 53"
      using TA bound sums(2) nn unfolding turn by linarith+
    then have "holds_int (dbl_neg (dbl_sub (dbl_of_int T) (ledgerAmount e))) (- (T - z))"
      using he(2) by (intro holds_int_neg holds_int_sub holds_int_of_int) simp_all
    with he(1) have "ledger_holds (l0 @ [\<lparr>blockIdx = index b, txid = txId tx, ledgerTime = blockTime b,
                   ledgerAmount = dbl_neg (dbl_sub (dbl_of_int T) (ledgerAmount e))\<rparr>]) (zs @ [z - T])"
      by (simp add: ledger_holds_snoc)
    moreover have "debit c addr tx = T" using True by (simp add: debit_def T_def)
    moreover have "(\<Sum>x \<leftarrow> zs @ [z - T]. \<bar>x\<bar>) \<le> (\<Sum>x \<leftarrow> xs. \<bar>x\<bar>) + turnover c addr tx"
      using \<open>\<bar>T - z\<bar> \<le> A + \<bar>z\<bar>\<close> sums(2) by (simp add: turn abs_minus_commute)
    ultimately show ?thesis
      using True sums(1) by (simp add: step deb) (intro exI [of _ "zs @ [z - T]"], simp)
  qed
qed

lemma ledger_loop_holds:
  assumes "ledger_holds ledger xs" and "\<forall>p \<in> set ps. sound_tx c (snd p)"
    and "(\<Sum>x \<leftarrow> xs. \<bar>x\<bar>) + (\<Sum>p \<leftarrow> ps. turnover c addr (snd p)) < 2 ^ 53"
    and "\<forall>k < length ps. debited c addr (snd (ps ! k)) \<longrightarrow>
           ledger \<noteq> [] \<or> (\<exists>j \<le> k. credited addr (snd (ps ! j)))"
  shows "\<exists>ledger' xs'. foldE (\<lambda>ledger (b, tx). ledger_step addr b ledger (filled c tx)) ledger ps = Inr ledger'
    \<and> ledger_holds ledger' xs'
    \<and> sum_list xs' = sum_list xs + (\<Sum>p \<leftarrow> ps. credit addr (snd p) - debit c addr (snd p))
    \<and> (\<Sum>x \<leftarrow> xs'. \<bar>x\<bar>) < 2 ^ 53"
  using assms
proof (induction ps arbitrary: ledger xs)
  case Nil
  then show ?case by auto
next
  case (Cons p ps)
  obtain b tx where p: "p = (b, tx)" by (cases p)
  have "0 \<le> turnover c addr t" for t by (auto simp: turnover_def intro!: sum_list_nonneg add_nonneg_nonneg)
  then have nn: "0 \<le> (\<Sum>p \<leftarrow> ps. turnover c addr (snd p))" by (auto intro!: sum_list_nonneg)
  have funded: "debited c addr tx \<longrightarrow> ledger \<noteq> [] \<or> credited addr tx"
    using Cons.prems(4) [rule_format, of 0] by (simp add: p)
  have "\<exists>ledger' xs'. ledger_step addr b ledger (filled c tx) = Inr ledger' \<and> ledger_holds ledger' xs'
    \<and> sum_list xs' = sum_list xs + credit addr tx - debit c addr tx
    \<and> (\<Sum>x \<leftarrow> xs'. \<bar>x\<bar>) \<le> (\<Sum>x \<leftarrow> xs. \<bar>x\<bar>) + turnover c addr tx
    \<and> (ledger \<noteq> [] \<or> credited addr tx \<longrightarrow> ledger' \<noteq> [])"
    by (rule ledger_step_holds [OF Cons.prems(1) _ _ funded]) (use Cons.prems(2,3) nn in \<open>simp_all add: p\<close>)
  then obtain l1 x1 where l1: "ledger_step addr b ledger (filled c tx) = Inr l1" "ledger_holds l1 x1"
      "sum_list x1 = sum_list xs + credit addr tx - debit c addr tx"
      "(\<Sum>x \<leftarrow> x1. \<bar>x\<bar>) \<le> (\<Sum>x \<leftarrow> xs. \<bar>x\<bar>) + turnover c addr tx"
      "ledger \<noteq> [] \<or> credited addr tx \<longrightarrow> l1 \<noteq> []" by blast
  have funded1: "\<forall>k < length ps. debited c addr (snd (ps ! k)) \<longrightarrow>
      l1 \<noteq> [] \<or> (\<exists>j \<le> k. credited addr (snd (ps ! j)))"
  proof (intro allI impI)
    fix k assume k: "k < length ps" "debited c addr (snd (ps ! k))"
    with Cons.prems(4) [rule_format, of "Suc k"]
    have "ledger \<noteq> [] \<or> (\<exists>j \<le> Suc k. credited addr (snd ((p # ps) ! j)))" by simp
    then show "l1 \<noteq> [] \<or> (\<exists>j \<le> k. credited addr (snd (ps ! j)))"
    proof
      assume "\<exists>j \<le> Suc k. credited addr (snd ((p # ps) ! j))"
      then obtain j where j: "j \<le> Suc k" "credited addr (snd ((p # ps) ! j))" by blast
      then show ?thesis using l1(5) by (cases j) (auto simp: p)
    qed (use l1(5) in simp)
  qed
  have "\<exists>ledger' xs'. foldE (\<lambda>ledger (b, tx). ledger_step addr b ledger (filled c tx)) l1 ps = Inr ledger'
    \<and> ledger_holds ledger' xs'
    \<and> sum_list xs' = sum_list x1 + (\<Sum>p \<leftarrow> ps. credit addr (snd p) - debit c addr (snd p))
    \<and> (\<Sum>x \<leftarrow> xs'. \<bar>x\<bar>) < 2 ^ 53"
    by (rule Cons.IH [OF l1(2) _ _ funded1]) (use Cons.prems(2,3) l1(4) in \<open>simp_all add: p\<close>)
  then show ?case by (auto simp: p l1(1,3) algebra_simps)
qed

lemma balance_fold:
  assumes "ledger_holds ledger xs" and "\<bar>a\<bar> + (\<Sum>x \<leftarrow> xs. \<bar>x\<bar>) < 2 ^ 53"
  shows "foldl (\<lambda>accum entry. dbl_add accum (ledgerAmount entry)) (dbl_of_int a) ledger
    = dbl_of_int (a + sum_list xs)"
  using assms unfolding ledger_holds_def
proof (induction ledger xs arbitrary: a rule: list_all2_induct)
  case Nil
  then show ?case by simp
next
  case (Cons e ledger x xs)
  have nn: "0 \<le> (\<Sum>x \<leftarrow> xs. \<bar>x\<bar>)" by (auto intro!: sum_list_nonneg)
  have tri: "\<bar>a + x\<bar> \<le> \<bar>a\<bar> + \<bar>x\<bar>" by (rule abs_triangle_ineq)
  have bound: "\<bar>a\<bar> + (\<bar>x\<bar> + (\<Sum>x \<leftarrow> xs. \<bar>x\<bar>)) < 2 ^ 53" using Cons.prems by simp
  have "dbl_add (dbl_of_int a) (ledgerAmount e) = dbl_of_int (a + x)"
    by (rule dbl_add_of_int) (use Cons.hyps nn tri bound in auto)
  with Cons.IH [of "a + x"] tri bound show ?case by (simp add: add.assoc)
qed

definition block_txs :: "blockchain \<Rightarrow> (block \<times> transaction) list" where
  "block_txs c = concat (map (\<lambda>b. map (Pair b) (transactions b)) (blocks c))"

lemma snd_block_txs: "map snd (block_txs c) = concat (map transactions (blocks c))"
  by (simp add: block_txs_def map_concat o_def)

lemma GetAddressLedger_eq:
  assumes "indexed_blocks (blocks c)" and "length (blocks c) < 2 ^ 64"
    and "\<forall>tx \<in> set (concat (map transactions (blocks c))). sound_tx c tx"
  shows "GetAddressLedger c addr =
     foldE (\<lambda>ledger (b, tx). ledger_step addr b ledger (filled c tx)) [] (block_txs c)"
proof -
  have "bindE (GetBlockDetails c (unat (index b)))
          (\<lambda>fullblock. foldE (ledger_step addr b) ledger (transactions fullblock))
      = foldE (\<lambda>ledger (b, tx). ledger_step addr b ledger (filled c tx)) ledger (map (Pair b) (transactions b))"
    if "b \<in> set (blocks c)" for b ledger
  proof -
    from that obtain i where i: "i < length (blocks c)" "blocks c ! i = b" by (auto simp: in_set_conv_nth)
    with assms(1,2) have "unat (index b) = i"
      by (auto simp: indexed_blocks_def unat_of_nat)
    moreover have "\<forall>tx \<in> set (transactions b). \<forall>txin \<in> set (txIns tx). in_range c (txOutPt txin)"
      using assms(3) that by (auto simp: sound_tx_def)
    ultimately show ?thesis
      using i by (simp add: GetBlockDetails_eq foldE_map)
  qed
  then have "GetAddressLedger c addr = foldE (\<lambda>ledger b. foldE (\<lambda>ledger (b, tx). ledger_step addr b ledger (filled c tx))
      ledger (map (Pair b) (transactions b))) [] (blocks c)"
    unfolding GetAddressLedger_def by (intro foldE_cong) simp
  then show ?thesis by (simp only: foldE_concat block_txs_def)
qed

lemma GetAddressBalance_whole:
  assumes "indexed_blocks (blocks c)" and "length (blocks c) < 2 ^ 64"
    and "txs = concat (map transactions (blocks c))"
    and "\<forall>tx \<in> set txs. sound_tx c tx"
    and "(\<Sum>tx \<leftarrow> txs. turnover c addr tx) < 2 ^ 53"
    and "\<forall>k < length txs. debited c addr (txs ! k) \<longrightarrow> (\<exists>j \<le> k. credited addr (txs ! j))"
  shows "GetAddressBalance c addr =
     Inr (dbl_of_int ((\<Sum>tx \<leftarrow> txs. credit addr tx) - (\<Sum>tx \<leftarrow> txs. debit c addr tx)))"
proof -
  have txs: "txs = map snd (block_txs c)" by (simp add: snd_block_txs assms(3))
  have len: "length txs = length (block_txs c)" by (simp add: txs)
  have nth: "txs ! k = snd (block_txs c ! k)" if "k < length (block_txs c)" for k using that by (simp add: txs)
  have funded: "\<forall>k < length (block_txs c). debited c addr (snd (block_txs c ! k)) \<longrightarrow>
           [] \<noteq> ([] :: ledger_info list) \<or> (\<exists>j \<le> k. credited addr (snd (block_txs c ! j)))"
    using assms(6) nth len by (metis order_le_less_trans)
  have sums: "(\<Sum>p \<leftarrow> block_txs c. f (snd p)) = (\<Sum>tx \<leftarrow> txs. f tx)" for f :: "transaction \<Rightarrow> int"
    by (simp add: txs o_def)
  have snd_in: "\<forall>p \<in> set (block_txs c). sound_tx c (snd p)" using assms(4) by (auto simp: txs)
  obtain ledger xs where l: "GetAddressLedger c addr = Inr ledger" "ledger_holds ledger xs"
      "sum_list xs = (\<Sum>tx \<leftarrow> txs. credit addr tx - debit c addr tx)" "(\<Sum>x \<leftarrow> xs. \<bar>x\<bar>) < 2 ^ 53"
    using ledger_loop_holds [OF ledger_holds_Nil snd_in _ funded] assms(1-5)
      sums [of "turnover c addr"] sums [of "\<lambda>tx. credit addr tx - debit c addr tx"]
    by (auto simp: GetAddressLedger_eq)
  have "sum_list xs = (\<Sum>tx \<leftarrow> txs. credit addr tx) - (\<Sum>tx \<leftarrow> txs. debit c addr tx)"
    unfolding l(3) by (induction txs) simp_all
  with balance_fold [OF l(2), of 0] l(1,4) show ?thesis
    by (simp add: GetAddressBalance_def dbl_zero_def)
qed

text \<open>
  What an address receives and spends, without regard to how the ledger is kept: all outputs to it, and
  all outputs of it that inputs name. A plain transaction pays no address twice and spends the
  outputs of one owner, as those of \<open>CreateTransaction\<close> do; on these the ledger looks at all there is.
\<close>

definition received :: "string \<Rightarrow> transaction \<Rightarrow> int" where
  "received addr tx = (\<Sum>txout \<leftarrow> filter (\<lambda>txout. address txout = addr) (txOuts tx). dbl_int (amount txout))"

definition own_inputs :: "blockchain \<Rightarrow> string \<Rightarrow> transaction \<Rightarrow> tx_in list" where
  "own_inputs c addr tx =
     (if coinbase_tx tx then [] else filter (\<lambda>txin. address (output_at c (txOutPt txin)) = addr) (txIns tx))"

definition spent :: "blockchain \<Rightarrow> string \<Rightarrow> transaction \<Rightarrow> int" where
  "spent c addr tx = (\<Sum>txin \<leftarrow> own_inputs c addr tx. dbl_int (amount (output_at c (txOutPt txin))))"

definition moved :: "blockchain \<Rightarrow> string \<Rightarrow> transaction \<Rightarrow> int" where
  "moved c addr tx =
     (\<Sum>txout \<leftarrow> filter (\<lambda>txout. address txout = addr) (txOuts tx). \<bar>dbl_int (amount txout)\<bar>)
     + (\<Sum>txin \<leftarrow> own_inputs c addr tx. \<bar>dbl_int (amount (output_at c (txOutPt txin)))\<bar>)"

definition plain_tx :: "blockchain \<Rightarrow> transaction \<Rightarrow> bool" where
  "plain_tx c tx \<longleftrightarrow> distinct (map address (txOuts tx))
     \<and> (\<forall>i \<in> set (txIns tx). \<forall>j \<in> set (txIns tx). address (output_at c (txOutPt i)) = address (output_at c (txOutPt j)))"

lemma plain_outputs:
  assumes "distinct (map address outs)"
  shows "filter (\<lambda>txout. address txout = addr) outs =
    (case find (\<lambda>txout. address txout = addr) outs of Some txout \<Rightarrow> [txout] | None \<Rightarrow> [])"
  using assms
proof (induction outs)
  case (Cons x outs)
  have "filter (\<lambda>txout. address txout = address x) outs = []"
    using Cons.prems by (auto simp: filter_empty_conv image_iff)
  with Cons show ?case by auto
qed simp

lemma plain_inputs:
  assumes "plain_tx c tx" and "txIns tx \<noteq> []"
  shows "own_inputs c addr tx = (if debited c addr tx then txIns tx else [])"
proof -
  have "address (output_at c (txOutPt i)) = address (output_at c (txOutPt (hd (txIns tx))))" if "i \<in> set (txIns tx)" for i
    using assms that hd_in_set [OF assms(2)] unfolding plain_tx_def by blast
  then show ?thesis by (auto simp: own_inputs_def debited_def filter_empty_conv filter_id_conv)
qed

lemma plain_effect:
  assumes "plain_tx c tx" and "txIns tx \<noteq> []"
  shows "credit addr tx = received addr tx" and "debit c addr tx = spent c addr tx" and "turnover c addr tx = moved c addr tx"
    and "debited c addr tx \<longleftrightarrow> own_inputs c addr tx \<noteq> []"
  using plain_inputs [OF assms] plain_outputs [of "txOuts tx" addr] assms
  by (simp_all add: credit_def received_def debit_def spent_def turnover_def moved_def plain_tx_def split: option.splits)

text \<open>\<open>C18\<close>: with whole amounts of which less than \<open>2^53\<close> are moved to and from the address, in a chain whose
  blocks sit at their indices, whose inputs name outputs of the chain, whose transactions pay no address
  twice and spend the outputs of one owner, and in which the address receives something before it spends,
  the balance is returned and is exactly what the address received, by all outputs to it, minus what it
  spent, by all inputs of it, even though the ledger is a list of rounded doubles.\<close>

theorem GetAddressBalance_exact:
  assumes "isValidChain L c = Inr True" and "index (hd (blocks c)) = 0" and "chain_size c < 2 ^ 64"
    and "txs = concat (map transactions (blocks c))"
    and "\<forall>tx \<in> set txs. sound_tx c tx \<and> plain_tx c tx"
    and "(\<Sum>tx \<leftarrow> txs. moved c addr tx) < 2 ^ 53"
    and "\<forall>k < length txs. own_inputs c addr (txs ! k) \<noteq> [] \<longrightarrow> (\<exists>j \<le> k. credited addr (txs ! j))"
  shows "GetAddressBalance c addr =
     Inr (dbl_of_int ((\<Sum>tx \<leftarrow> txs. received addr tx) - (\<Sum>tx \<leftarrow> txs. spent c addr tx)))"
proof -
  have indexed: "indexed_blocks (blocks c)" "length (blocks c) < 2 ^ 64"
    using assms(1-3) by (simp_all add: isValidChain_eq valid_blocks_indexed chain_size_def)
  have plain: "plain_tx c tx \<and> txIns tx \<noteq> []" if "tx \<in> set txs" for tx
    using assms(5) that by (auto simp: sound_tx_def wf_transaction_def)
  then have same: "map (turnover c addr) txs = map (moved c addr) txs" "map (credit addr) txs = map (received addr) txs"
      "map (debit c addr) txs = map (spent c addr) txs"
    by (intro map_cong refl; use plain plain_effect in blast)+
  have "\<forall>k < length txs. debited c addr (txs ! k) \<longrightarrow> (\<exists>j \<le> k. credited addr (txs ! j))"
    using assms(7) plain plain_effect(4) nth_mem by blast
  moreover have "\<forall>tx \<in> set txs. sound_tx c tx" using assms(5) by blast
  moreover have "(\<Sum>tx \<leftarrow> txs. turnover c addr tx) < 2 ^ 53" unfolding same by (rule assms(6))
  ultimately have "GetAddressBalance c addr =
      Inr (dbl_of_int ((\<Sum>tx \<leftarrow> txs. credit addr tx) - (\<Sum>tx \<leftarrow> txs. debit c addr tx)))"
    by (intro GetAddressBalance_whole [OF indexed assms(4)])
  then show ?thesis by (simp only: same)
qed

section \<open>Transactions made for a sender\<close>

text \<open>The integer amounts of unspent outputs.\<close>

definition coins :: "tx_out_point \<Rightarrow> int" where
  "coins u = (case ptAmount u of Some d \<Rightarrow> dbl_int d | None \<Rightarrow> 0)"

definition whole_coins :: "tx_out_point \<Rightarrow> bool" where
  "whole_coins u \<longleftrightarrow> (\<exists>d. ptAmount u = Some d \<and> integral d)"

lemma select_outs_whole:
  assumes "\<forall>u \<in> set us. whole_coins u" and "integral amt" and "\<bar>dbl_int amt\<bar> + \<bar>cur\<bar> + (\<Sum>u \<leftarrow> us. \<bar>coins u\<bar>) < 2 ^ 53"
  shows "(\<exists>n. 0 < n \<and> n \<le> length us \<and> dbl_int amt \<le> cur + (\<Sum>u \<leftarrow> take n us. coins u)
           \<and> (\<forall>m. 0 < m \<and> m < n \<longrightarrow> cur + (\<Sum>u \<leftarrow> take m us. coins u) < dbl_int amt)
           \<and> (\<exists>left. select_outs amt us (dbl_of_int cur) left0 inc
                = Inr (dbl_of_int (cur + (\<Sum>u \<leftarrow> take n us. coins u)), left, inc @ take n us)
              \<and> holds_int left (cur + (\<Sum>u \<leftarrow> take n us. coins u) - dbl_int amt)
              \<and> (0 < cur + (\<Sum>u \<leftarrow> take n us. coins u) - dbl_int amt \<longrightarrow>
                   left = dbl_of_int (cur + (\<Sum>u \<leftarrow> take n us. coins u) - dbl_int amt))))
    \<or> ((\<forall>m. 0 < m \<and> m \<le> length us \<longrightarrow> cur + (\<Sum>u \<leftarrow> take m us. coins u) < dbl_int amt)
        \<and> select_outs amt us (dbl_of_int cur) left0 inc
            = Inr (dbl_of_int (cur + (\<Sum>u \<leftarrow> us. coins u)), left0, inc @ us))"
  using assms
proof (induction us arbitrary: cur inc)
  case Nil
  then show ?case by simp
next
  case (Cons u us)
  let ?a = "dbl_int amt"
  obtain d where d: "ptAmount u = Some d" "integral d" using Cons.prems(1) by (auto simp: whole_coins_def)
  then have cu: "coins u = dbl_int d" "holds_int d (coins u)" by (simp_all add: coins_def integral_def)
  have nn: "0 \<le> (\<Sum>u \<leftarrow> us. \<bar>coins u\<bar>)" by (auto intro!: sum_list_nonneg)
  have tri: "\<bar>cur + coins u\<bar> \<le> \<bar>cur\<bar> + \<bar>coins u\<bar>" by (rule abs_triangle_ineq)
  have bound: "\<bar>?a\<bar> + \<bar>cur\<bar> + (\<bar>coins u\<bar> + (\<Sum>u \<leftarrow> us. \<bar>coins u\<bar>)) < 2 ^ 53" using Cons.prems(3) by simp
  have add: "dbl_add (dbl_of_int cur) d = dbl_of_int (cur + coins u)"
    by (rule dbl_add_of_int [OF cu(2)]) (use bound tri nn in linarith)+
  have hc: "holds_int (dbl_of_int (cur + coins u)) (cur + coins u)"
    by (rule holds_int_of_int) (use bound tri nn in linarith)
  have ha: "holds_int amt ?a" using Cons.prems(2) by (simp add: integral_def)
  have le: "dbl_le amt (dbl_of_int (cur + coins u)) \<longleftrightarrow> ?a \<le> cur + coins u" by (rule dbl_le_holds [OF ha hc])
  show ?case
  proof (cases "?a \<le> cur + coins u")
    case True
    have dif: "\<bar>cur + coins u - ?a\<bar> < 2 ^ 53" using bound tri nn by linarith
    have left: "holds_int (dbl_sub (dbl_of_int (cur + coins u)) amt) (cur + coins u - ?a)"
      by (rule holds_int_sub [OF hc ha dif])
    have exact: "dbl_sub (dbl_of_int (cur + coins u)) amt = dbl_of_int (cur + coins u - ?a)"
      if "0 < cur + coins u - ?a"
      using holds_int_add(2) [OF hc holds_int_neg [OF ha]] dif that by (simp add: dbl_sub_def)
    have sel: "select_outs amt (u # us) (dbl_of_int cur) left0 inc =
        Inr (dbl_of_int (cur + coins u), dbl_sub (dbl_of_int (cur + coins u)) amt, inc @ [u])"
      using True by (simp add: d add le Let_def)
    show ?thesis
      by (rule disjI1, rule exI [of _ 1]) (use True left exact sel in auto)
  next
    case False
    have sel: "select_outs amt (u # us) (dbl_of_int cur) left0 inc =
        select_outs amt us (dbl_of_int (cur + coins u)) left0 (inc @ [u])"
      using False by (simp add: d add le Let_def)
    have prem: "\<bar>?a\<bar> + \<bar>cur + coins u\<bar> + (\<Sum>u \<leftarrow> us. \<bar>coins u\<bar>) < 2 ^ 53" using bound tri by linarith
    from Cons.IH [OF _ Cons.prems(2) prem, of "inc @ [u]"] Cons.prems(1)
    consider n left where "0 < n" "n \<le> length us" "?a \<le> cur + coins u + (\<Sum>u \<leftarrow> take n us. coins u)"
        "\<forall>m. 0 < m \<and> m < n \<longrightarrow> cur + coins u + (\<Sum>u \<leftarrow> take m us. coins u) < ?a"
        "select_outs amt us (dbl_of_int (cur + coins u)) left0 (inc @ [u])
                = Inr (dbl_of_int (cur + coins u + (\<Sum>u \<leftarrow> take n us. coins u)), left, (inc @ [u]) @ take n us)"
        "holds_int left (cur + coins u + (\<Sum>u \<leftarrow> take n us. coins u) - ?a)"
        "0 < cur + coins u + (\<Sum>u \<leftarrow> take n us. coins u) - ?a \<longrightarrow>
           left = dbl_of_int (cur + coins u + (\<Sum>u \<leftarrow> take n us. coins u) - ?a)"
      | "\<forall>m. 0 < m \<and> m \<le> length us \<longrightarrow> cur + coins u + (\<Sum>u \<leftarrow> take m us. coins u) < ?a"
        "select_outs amt us (dbl_of_int (cur + coins u)) left0 (inc @ [u])
            = Inr (dbl_of_int (cur + coins u + (\<Sum>u \<leftarrow> us. coins u)), left0, (inc @ [u]) @ us)"
      by auto
    then show ?thesis
    proof cases
      case 1
      have "cur + (\<Sum>u \<leftarrow> take m (u # us). coins u) < ?a" if "0 < m" "m < Suc n" for m
        using that False 1(4) by (cases "m = 1"; cases m) (auto simp: add.assoc [symmetric])
      with 1 sel show ?thesis
        by (intro disjI1 exI [of _ "Suc n"]) (auto simp: add.assoc [symmetric])
    next
      case 2
      have "cur + (\<Sum>u \<leftarrow> take m (u # us). coins u) < ?a" if "0 < m" "m \<le> Suc (length us)" for m
        using that False 2(1) by (cases "m = 1"; cases m) (auto simp: add.assoc [symmetric])
      with 2 sel show ?thesis
        by (intro disjI2) (auto simp: add.assoc [symmetric])
    qed
  qed
qed

text \<open>The first outputs that together reach the amount, and no fewer.\<close>

definition just_enough :: "int \<Rightarrow> tx_out_point list \<Rightarrow> nat \<Rightarrow> bool" where
  "just_enough a us n \<longleftrightarrow> 0 < n \<and> n \<le> length us \<and> a \<le> (\<Sum>u \<leftarrow> take n us. coins u)
     \<and> (\<forall>m. 0 < m \<and> m < n \<longrightarrow> (\<Sum>u \<leftarrow> take m us. coins u) < a)"

definition spend_tx :: "tx_out_point list \<Rightarrow> string \<Rightarrow> double \<Rightarrow> string \<Rightarrow> int \<Rightarrow> transaction" where
  "spend_tx used receiver amt sender change =
     \<lparr>txId = [],
      txIns = map (\<lambda>u. make_tx_in (blockIndex u) (txIndex u) (txOutIndex u) ''signature'') used,
      txOuts = \<lparr>address = receiver, amount = amt\<rparr>
        # (if 0 < change then [\<lparr>address = sender, amount = dbl_of_int change\<rparr>] else [])\<rparr>"

lemma CreateTransaction_success:
  assumes "\<not> iequals L receiver (GetAddressFromPrivateKey L pk)"
    and us: "GetUnspentTxOuts L c (GetAddressFromPrivateKey L pk) = Inr us" "us \<noteq> []"
    and whole: "\<forall>u \<in> set us. whole_coins u" "integral amt"
    and bound: "\<bar>dbl_int amt\<bar> + (\<Sum>u \<leftarrow> us. \<bar>coins u\<bar>) < 2 ^ 53"
    and reach: "\<exists>m. 0 < m \<and> m \<le> length us \<and> dbl_int amt \<le> (\<Sum>u \<leftarrow> take m us. coins u)"
  shows "\<exists>n. just_enough (dbl_int amt) us n \<and> CreateTransaction L c pk receiver amt =
     Inr (SUCCESS, spend_tx (take n us) receiver amt (GetAddressFromPrivateKey L pk)
            ((\<Sum>u \<leftarrow> take n us. coins u) - dbl_int amt))"
proof -
  let ?a = "dbl_int amt"
  have "\<exists>m. 0 < m \<and> m \<le> length us \<and> \<not> (\<Sum>u \<leftarrow> take m us. coins u) < ?a"
    using reach by (meson not_less)
  with select_outs_whole [OF whole, of 0 dbl_zero "[]"] bound
  obtain n left where n: "just_enough ?a us n"
      "select_outs amt us dbl_zero dbl_zero [] = Inr (dbl_of_int (\<Sum>u \<leftarrow> take n us. coins u), left, take n us)"
      "holds_int left ((\<Sum>u \<leftarrow> take n us. coins u) - ?a)"
      "0 < (\<Sum>u \<leftarrow> take n us. coins u) - ?a \<longrightarrow> left = dbl_of_int ((\<Sum>u \<leftarrow> take n us. coins u) - ?a)"
    by (auto simp: just_enough_def dbl_zero_def)
  define T where "T = (\<Sum>u \<leftarrow> take n us. coins u)"
  have "\<bar>T\<bar> \<le> (\<Sum>u \<leftarrow> take n us. \<bar>coins u\<bar>)"
    using sum_list_abs [of "map coins (take n us)"] by (simp add: T_def o_def)
  moreover have "(\<Sum>u \<leftarrow> us. \<bar>coins u\<bar>) = (\<Sum>u \<leftarrow> take n us. \<bar>coins u\<bar>) + (\<Sum>u \<leftarrow> drop n us. \<bar>coins u\<bar>)"
    by (metis append_take_drop_id map_append sum_list_append)
  moreover have "0 \<le> (\<Sum>u \<leftarrow> drop n us. \<bar>coins u\<bar>)" by (auto intro!: sum_list_nonneg)
  ultimately have "\<bar>T\<bar> < 2 ^ 53" using bound by linarith
  then have "holds_int (dbl_of_int T) T" by (rule holds_int_of_int)
  with whole(2) have "\<not> dbl_less (dbl_of_int T) amt"
    using n(1) by (simp add: integral_def dbl_less_holds just_enough_def T_def)
  moreover have "dbl_less dbl_zero left \<longleftrightarrow> 0 < T - ?a"
    using dbl_less_holds [OF holds_int_zero n(3)] by (simp add: dbl_zero_def T_def)
  ultimately have "CreateTransaction L c pk receiver amt =
     Inr (SUCCESS, spend_tx (take n us) receiver amt (GetAddressFromPrivateKey L pk) (T - ?a))"
    using assms(1,2,3) n(2,4) by (auto simp: CreateTransaction_def spend_tx_def Let_def simp flip: T_def)
  with n(1) show ?thesis unfolding T_def by blast
qed

lemma CreateTransaction_insufficient:
  assumes "\<not> iequals L receiver (GetAddressFromPrivateKey L pk)"
    and us: "GetUnspentTxOuts L c (GetAddressFromPrivateKey L pk) = Inr us" "us \<noteq> []"
    and whole: "\<forall>u \<in> set us. whole_coins u" "integral amt"
    and bound: "\<bar>dbl_int amt\<bar> + (\<Sum>u \<leftarrow> us. \<bar>coins u\<bar>) < 2 ^ 53"
    and less: "\<forall>m. 0 < m \<and> m \<le> length us \<longrightarrow> (\<Sum>u \<leftarrow> take m us. coins u) < dbl_int amt"
  shows "CreateTransaction L c pk receiver amt = Inr (INSUFFICIENT_FUNDS, empty_transaction)"
proof -
  let ?T = "\<Sum>u \<leftarrow> us. coins u"
  have sel: "select_outs amt us dbl_zero dbl_zero [] = Inr (dbl_of_int ?T, dbl_zero, us)"
    using select_outs_whole [OF whole, of 0 dbl_zero "[]"] bound less
    by (auto simp: dbl_zero_def)
  have "\<bar>?T\<bar> \<le> (\<Sum>u \<leftarrow> us. \<bar>coins u\<bar>)" using sum_list_abs [of "map coins us"] by (simp add: o_def)
  then have "\<bar>?T\<bar> < 2 ^ 53" using bound by linarith
  moreover have "?T < dbl_int amt" using less [rule_format, of "length us"] us(2) by simp
  ultimately have "dbl_less (dbl_of_int ?T) amt"
    using whole(2) by (simp add: integral_def dbl_less_holds [OF holds_int_of_int])
  with assms(1,2,3) sel show ?thesis by (simp add: CreateTransaction_def)
qed

lemma sum_take_le:
  assumes "\<forall>u \<in> set us. 0 \<le> coins u"
  shows "(\<Sum>u \<leftarrow> take m us. coins u) \<le> (\<Sum>u \<leftarrow> us. coins u)"
proof -
  have "(\<Sum>u \<leftarrow> us. coins u) = (\<Sum>u \<leftarrow> take m us. coins u) + (\<Sum>u \<leftarrow> drop m us. coins u)"
    by (metis append_take_drop_id map_append sum_list_append)
  moreover have "0 \<le> (\<Sum>u \<leftarrow> drop m us. coins u)"
    using assms by (auto intro!: sum_list_nonneg) (meson in_set_dropD)
  ultimately show ?thesis by simp
qed

text \<open>\<open>C19\<close>: the four outcomes of \<open>CreateTransaction\<close> on whole amounts below \<open>2^53\<close>: paying oneself
  does nothing, a sender without outputs has none to spend, a sender whose outputs do not reach the
  amount has insufficient funds, and otherwise the shortest list of first outputs that reaches it is
  spent, the receiver gets the amount and the sender exactly the rest, if there is one.\<close>

theorem CreateTransaction_spec:
  assumes "sender = GetAddressFromPrivateKey L pk" and "GetUnspentTxOuts L c sender = Inr us"
    and "\<forall>u \<in> set us. whole_coins u \<and> 0 \<le> coins u" and "integral amt"
    and "\<bar>dbl_int amt\<bar> + (\<Sum>u \<leftarrow> us. coins u) < 2 ^ 53"
  shows "if iequals L receiver sender
    then CreateTransaction L c pk receiver amt = Inr (NOOP_TRANSACTION, empty_transaction)
    else if us = [] then CreateTransaction L c pk receiver amt = Inr (TXOUTS_EMPTY, empty_transaction)
    else if (\<Sum>u \<leftarrow> us. coins u) < dbl_int amt
    then CreateTransaction L c pk receiver amt = Inr (INSUFFICIENT_FUNDS, empty_transaction)
    else \<exists>n. just_enough (dbl_int amt) us n \<and> CreateTransaction L c pk receiver amt =
           Inr (SUCCESS, spend_tx (take n us) receiver amt sender
                           ((\<Sum>u \<leftarrow> take n us. coins u) - dbl_int amt))"
proof -
  have abs: "(\<Sum>u \<leftarrow> us. \<bar>coins u\<bar>) = (\<Sum>u \<leftarrow> us. coins u)"
    using assms(3) by (simp cong: map_cong)
  have noop: "CreateTransaction L c pk receiver amt = Inr (NOOP_TRANSACTION, empty_transaction)"
    if "iequals L receiver sender" using that assms(1) by (simp add: CreateTransaction_def)
  have none: "CreateTransaction L c pk receiver amt = Inr (TXOUTS_EMPTY, empty_transaction)"
    if "\<not> iequals L receiver sender" "us = []" using that assms(1,2) by (simp add: CreateTransaction_def)
  have insuf: "CreateTransaction L c pk receiver amt = Inr (INSUFFICIENT_FUNDS, empty_transaction)"
    if "\<not> iequals L receiver sender" "us \<noteq> []" "(\<Sum>u \<leftarrow> us. coins u) < dbl_int amt"
  proof (rule CreateTransaction_insufficient [of L receiver pk c us])
    show "\<forall>m. 0 < m \<and> m \<le> length us \<longrightarrow> (\<Sum>u \<leftarrow> take m us. coins u) < dbl_int amt"
      using that(3) sum_take_le [of us] assms(3) by (meson order_le_less_trans)
  qed (use that assms abs in auto)
  have succ: "\<exists>n. just_enough (dbl_int amt) us n \<and> CreateTransaction L c pk receiver amt =
           Inr (SUCCESS, spend_tx (take n us) receiver amt (GetAddressFromPrivateKey L pk)
                           ((\<Sum>u \<leftarrow> take n us. coins u) - dbl_int amt))"
    if "\<not> iequals L receiver sender" "us \<noteq> []" "\<not> (\<Sum>u \<leftarrow> us. coins u) < dbl_int amt"
  proof (rule CreateTransaction_success)
    show "\<exists>m. 0 < m \<and> m \<le> length us \<and> dbl_int amt \<le> (\<Sum>u \<leftarrow> take m us. coins u)"
      using that by (intro exI [of _ "length us"]) simp
  qed (use that assms abs in auto)
  from noop none insuf succ show ?thesis by (simp add: assms(1))
qed

text \<open>A created transaction spends a first part of the unspent outputs and returns the exact change.\<close>

lemma CreateTransaction_spends:
  assumes "GetUnspentTxOuts L c (GetAddressFromPrivateKey L pk) = Inr us"
    and "\<forall>u \<in> set us. whole_coins u" and "integral amt"
    and "\<bar>dbl_int amt\<bar> + (\<Sum>u \<leftarrow> us. \<bar>coins u\<bar>) < 2 ^ 53"
    and "CreateTransaction L c pk receiver amt = Inr (SUCCESS, tx)"
  obtains n change where "n \<le> length us" and "change = (\<Sum>u \<leftarrow> take n us. coins u) - dbl_int amt"
    and "0 \<le> change" and "change < 2 ^ 53"
    and "tx = spend_tx (take n us) receiver amt (GetAddressFromPrivateKey L pk) change"
proof -
  have ne: "\<not> iequals L receiver (GetAddressFromPrivateKey L pk)" "us \<noteq> []"
    using assms(1,5) by (auto simp: CreateTransaction_def Let_def split: if_splits)
  have "\<exists>m. 0 < m \<and> m \<le> length us \<and> dbl_int amt \<le> (\<Sum>u \<leftarrow> take m us. coins u)"
  proof (rule ccontr)
    assume "\<not> ?thesis"
    then have "\<forall>m. 0 < m \<and> m \<le> length us \<longrightarrow> (\<Sum>u \<leftarrow> take m us. coins u) < dbl_int amt"
      by (meson not_le)
    then have "CreateTransaction L c pk receiver amt = Inr (INSUFFICIENT_FUNDS, empty_transaction)"
      by (rule CreateTransaction_insufficient [OF ne(1) assms(1) ne(2) assms(2-4)])
    with assms(5) show False by simp
  qed
  then obtain n where n: "just_enough (dbl_int amt) us n" "CreateTransaction L c pk receiver amt =
       Inr (SUCCESS, spend_tx (take n us) receiver amt (GetAddressFromPrivateKey L pk)
                           ((\<Sum>u \<leftarrow> take n us. coins u) - dbl_int amt))"
    using CreateTransaction_success [of L receiver pk c us amt] assms(1-4) ne by blast
  define T where "T = (\<Sum>u \<leftarrow> take n us. coins u)"
  have "\<bar>T\<bar> \<le> (\<Sum>u \<leftarrow> take n us. \<bar>coins u\<bar>)"
    using sum_list_abs [of "map coins (take n us)"] by (simp add: T_def o_def)
  moreover have "(\<Sum>u \<leftarrow> us. \<bar>coins u\<bar>) = (\<Sum>u \<leftarrow> take n us. \<bar>coins u\<bar>) + (\<Sum>u \<leftarrow> drop n us. \<bar>coins u\<bar>)"
    by (metis append_take_drop_id map_append sum_list_append)
  moreover have "0 \<le> (\<Sum>u \<leftarrow> drop n us. \<bar>coins u\<bar>)" by (auto intro!: sum_list_nonneg)
  ultimately have "T - dbl_int amt < 2 ^ 53" using assms(4) by linarith
  moreover have "dbl_int amt \<le> T" "n \<le> length us" using n(1) by (simp_all add: just_enough_def T_def)
  ultimately show ?thesis using that [of n "T - dbl_int amt"] n(2) assms(5) by (simp add: T_def)
qed

lemma spend_tx_sums:
  "0 \<le> change \<Longrightarrow> change < 2 ^ 53 \<Longrightarrow>
   (\<Sum>txout \<leftarrow> txOuts (spend_tx us receiver amt sender change). dbl_int (amount txout)) = dbl_int amt + change"
  by (simp add: spend_tx_def)

text \<open>A negative amount is not refused. The receiver is given the negative amount and the sender
  a change larger than everything spent.\<close>

theorem CreateTransaction_negative:
  assumes "\<not> iequals L receiver (GetAddressFromPrivateKey L pk)"
    and "GetUnspentTxOuts L c (GetAddressFromPrivateKey L pk) = Inr (u # us)"
    and "\<forall>v \<in> set (u # us). whole_coins v \<and> 0 \<le> coins v" and "integral amt" and "dbl_int amt < 0"
    and "\<bar>dbl_int amt\<bar> + (\<Sum>v \<leftarrow> u # us. coins v) < 2 ^ 53"
  shows "\<exists>tx change. CreateTransaction L c pk receiver amt = Inr (SUCCESS, tx)
    \<and> map txOutPt (txIns tx) = [make_point (blockIndex u) (txIndex u) (txOutIndex u)]
    \<and> txOuts tx = [\<lparr>address = receiver, amount = amt\<rparr>,
                   \<lparr>address = GetAddressFromPrivateKey L pk, amount = change\<rparr>]
    \<and> dbl_int change = coins u - dbl_int amt \<and> coins u < dbl_int change"
proof -
  have abs: "(\<Sum>v \<leftarrow> u # us. \<bar>coins v\<bar>) = (\<Sum>v \<leftarrow> u # us. coins v)"
    using assms(3) by (simp cong: map_cong)
  have first: "dbl_int amt \<le> coins u" using assms(3,5) by auto
  have reach: "\<exists>m. 0 < m \<and> m \<le> length (u # us) \<and> dbl_int amt \<le> (\<Sum>v \<leftarrow> take m (u # us). coins v)"
    using first by (intro exI [of _ 1]) simp
  have "\<exists>n. just_enough (dbl_int amt) (u # us) n \<and> CreateTransaction L c pk receiver amt =
       Inr (SUCCESS, spend_tx (take n (u # us)) receiver amt (GetAddressFromPrivateKey L pk)
                           ((\<Sum>v \<leftarrow> take n (u # us). coins v) - dbl_int amt))"
    by (rule CreateTransaction_success [OF assms(1,2) _ _ assms(4) _ reach]) (use assms(3,6) abs in auto)
  then obtain n where n: "just_enough (dbl_int amt) (u # us) n" "CreateTransaction L c pk receiver amt =
       Inr (SUCCESS, spend_tx (take n (u # us)) receiver amt (GetAddressFromPrivateKey L pk)
                           ((\<Sum>v \<leftarrow> take n (u # us). coins v) - dbl_int amt))"
    by blast
  have "n = 1"
    using n(1) first by (cases "n = 1") (auto simp: just_enough_def dest: spec [of _ 1])
  have "0 \<le> coins u" using assms(3) by simp
  moreover have "0 \<le> (\<Sum>v \<leftarrow> us. coins v)" using assms(3) by (auto intro!: sum_list_nonneg)
  ultimately have "\<bar>coins u - dbl_int amt\<bar> < 2 ^ 53" using assms(5,6) by simp
  with n(2) assms(5) \<open>0 \<le> coins u\<close> show ?thesis
    by (simp add: \<open>n = 1\<close> spend_tx_def make_tx_in_def)
qed

section \<open>Witnesses\<close>

lemma demo_payment_fields [simp]:
  "txIns demo_payment = [make_tx_in 0 0 0 ''signature'']"
  "txOuts demo_payment = [\<lparr>address = ''bob'', amount = dbl_of_nat 10\<rparr>, \<lparr>address = ''alice'', amount = dbl_of_nat 47\<rparr>]"
  by (simp_all add: demo_payment_def)

lemma coinbase_fields [simp]:
  "txIns (CreateCoinbaseTransaction L b a) = [make_tx_in b 0 0 []]"
  "txOuts (CreateCoinbaseTransaction L b a) = [\<lparr>address = a, amount = dbl_of_nat 57\<rparr>]"
  by (simp_all add: CreateCoinbaseTransaction_def COINBASE_REWARD_def)

lemma make_tx_in_point [simp]:
  "txOutPt (make_tx_in b t j s) = make_point b t j"
  "blockIndex (make_point b t j) = b" "txIndex (make_point b t j) = t" "txOutIndex (make_point b t j) = j"
  by (simp_all add: make_tx_in_def make_point_def)

lemma demo_located:
  "located demo_chain =
     [(0, 0, CreateCoinbaseTransaction demo_lib 0 ''alice''),
      (1, 0, CreateCoinbaseTransaction demo_lib 1 ''bob''), (1, 1, demo_payment)]"
  by (simp add: located_def)

lemma demo_wf_chain: "wf_chain demo_chain"
  by (simp add: wf_chain_def)

lemma demo_inj_key: "inj_on (point_key demo_lib) (all_outputs demo_chain)"
  by (auto simp: inj_on_def all_outputs_def demo_located outputs_of_def output_point_def point_key_def)

lemma demo_unspent:
  "GetUnspentTxOuts demo_lib demo_chain [] = Inr
     [output_point 1 0 0 \<lparr>address = ''bob'', amount = dbl_of_nat 57\<rparr>,
      output_point 1 1 0 \<lparr>address = ''bob'', amount = dbl_of_nat 10\<rparr>,
      output_point 1 1 1 \<lparr>address = ''alice'', amount = dbl_of_nat 47\<rparr>]"
  by (simp add: GetUnspentTxOuts_located demo_located unspent_step_eq outputs_of_def wanted_def
      output_point_def point_key_def same_point_def word_less_def)

lemma demo_unspent_in:
  "unspent_in (located demo_chain) (output_point 1 0 0 \<lparr>address = ''bob'', amount = dbl_of_nat 57\<rparr>)"
  "unspent_in (located demo_chain) (output_point 1 1 0 \<lparr>address = ''bob'', amount = dbl_of_nat 10\<rparr>)"
proof -
  have "unspent_in txs p \<longleftrightarrow> p \<in> set (outputs_of (txs ! 0)) \<and> \<not> spends (txs ! 0) p \<and> \<not> spends (txs ! 1) p \<and> \<not> spends (txs ! 2) p
      \<or> p \<in> set (outputs_of (txs ! 1)) \<and> \<not> spends (txs ! 1) p \<and> \<not> spends (txs ! 2) p
      \<or> p \<in> set (outputs_of (txs ! 2)) \<and> \<not> spends (txs ! 2) p" if "length txs = 3" for txs p
    using that by (auto simp: unspent_in_def numeral_eq_Suc less_Suc_eq)
  from this [of "located demo_chain"]
  show "unspent_in (located demo_chain) (output_point 1 0 0 \<lparr>address = ''bob'', amount = dbl_of_nat 57\<rparr>)"
    "unspent_in (located demo_chain) (output_point 1 1 0 \<lparr>address = ''bob'', amount = dbl_of_nat 10\<rparr>)"
    by (simp_all add: demo_located outputs_of_def output_point_def spends_def same_point_def)
qed

theorem GetBlockDetails_spec_witness:
  "\<exists>b. GetBlockDetails demo_chain 1 = Inr b \<and> txId (transactions b ! 1) = txId demo_payment
     \<and> ptAddress (txOutPt (txIns (transactions b ! 1) ! 0)) = Some ''alice''
     \<and> ptAmount (txOutPt (txIns (transactions b ! 1) ! 0)) = Some (dbl_of_nat 57)"
  using GetBlockDetails_spec [of demo_chain 1]
  by (simp add: in_range_def output_at_def)

theorem FindTransaction_first_witness:
  "FindTransaction demo_chain (txId demo_payment) = Some (1, 1)"
  using FindTransaction_first [of demo_chain "txId demo_payment"]
  by (simp add: demo_located) (simp add: CreateCoinbaseTransaction_def demo_payment_def demo_eval)

theorem GetUnspentTxOuts_spec_witness:
  "\<exists>outs. GetUnspentTxOuts demo_lib demo_chain ''bob'' = Inr outs
     \<and> output_point 1 1 0 \<lparr>address = ''bob'', amount = dbl_of_nat 10\<rparr> \<in> set outs"
proof -
  have "unspent_in (located demo_chain) (output_point 1 1 0 \<lparr>address = ''bob'', amount = dbl_of_nat 10\<rparr>)"
    by (rule demo_unspent_in(2))
  then show ?thesis
    using GetUnspentTxOuts_spec [OF demo_wf_chain demo_inj_key, of "''bob''"]
    by (auto simp: output_point_def)
qed

theorem GetUnspentTxOuts_address_witness:
  "GetUnspentTxOuts demo_lib demo_chain ''alice'' =
     Inr [output_point 1 1 1 \<lparr>address = ''alice'', amount = dbl_of_nat 47\<rparr>]"
  using GetUnspentTxOuts_address [OF demo_wf_chain demo_inj_key _ demo_unspent, of "''alice''"]
  by (simp add: output_point_def)

text \<open>With a hash that maps everything to zero bob's reward is lost behind alice's change.\<close>

theorem GetUnspentTxOuts_collision_witness:
  "\<exists>outs. GetUnspentTxOuts (demo_lib\<lparr>hash_combine := \<lambda>seed h. 0\<rparr>) demo_chain ''bob'' = Inr outs
     \<and> (output_point 1 0 0 \<lparr>address = ''bob'', amount = dbl_of_nat 57\<rparr> \<notin> set outs
        \<or> output_point 1 1 0 \<lparr>address = ''bob'', amount = dbl_of_nat 10\<rparr> \<notin> set outs)"
proof -
  let ?L = "demo_lib\<lparr>hash_combine := \<lambda>seed h. 0\<rparr>"
  have 3: "output_point 1 0 0 \<lparr>address = ''bob'', amount = dbl_of_nat 57\<rparr>
      \<noteq> output_point 1 1 0 \<lparr>address = ''bob'', amount = dbl_of_nat 10\<rparr>"
    by (simp add: output_point_def)
  have 4: "point_key ?L (output_point 1 0 0 x) = point_key ?L (output_point 1 1 0 y)" for x y
    by (simp add: point_key_def)
  obtain outs where 5: "GetUnspentTxOuts ?L demo_chain ''bob'' = Inr outs"
    using unspent_loop_total [of ?L "[]" "located demo_chain" "''bob''"] demo_wf_chain
    by (auto simp: GetUnspentTxOuts_located wf_chain_located)
  show ?thesis using GetUnspentTxOuts_collision [OF demo_unspent_in 3 4 5] 5 by blast
qed

theorem GetAddressBalance_exact_witness:
  "GetAddressBalance demo_chain ''alice'' = Inr (dbl_of_int 47)"
proof -
  let ?txs = "[CreateCoinbaseTransaction demo_lib 0 ''alice'', CreateCoinbaseTransaction demo_lib 1 ''bob'', demo_payment]"
  have 1: "isValidChain demo_lib demo_chain = Inr True" by (simp add: isValidChain_eq demo_chain_valid)
  have 2: "index (hd (blocks demo_chain)) = 0" "chain_size demo_chain < 2 ^ 64" by simp_all
  have 3: "?txs = concat (map transactions (blocks demo_chain))" by simp
  have 4: "\<forall>tx \<in> set ?txs. sound_tx demo_chain tx \<and> plain_tx demo_chain tx"
    by (simp add: sound_tx_def in_range_def output_at_def plain_tx_def)
  have out: "output_at demo_chain (make_point 0 0 0) = \<lparr>address = ''alice'', amount = dbl_of_nat 57\<rparr>"
    by (simp add: output_at_def)
  have 5: "(\<Sum>tx \<leftarrow> ?txs. moved demo_chain ''alice'' tx) < 2 ^ 53"
    by (simp add: moved_def own_inputs_def out)
  have 6: "\<forall>k < length ?txs. own_inputs demo_chain ''alice'' (?txs ! k) \<noteq> [] \<longrightarrow> (\<exists>j \<le> k. credited ''alice'' (?txs ! j))"
    by (auto simp: credited_def intro!: exI [of _ 0])
  show ?thesis
    using GetAddressBalance_exact [OF 1 2 3 4 5 6] by (simp add: received_def spent_def own_inputs_def out)
qed

text \<open>Two outputs of one transaction to the same address: only the first one enters the ledger.\<close>

definition twice_chain :: blockchain where
  "twice_chain = empty_blockchain\<lparr>blocks := [default_block\<lparr>transactions := [\<lparr>txId = [], txIns = [make_tx_in 0 0 0 []],
     txOuts = [\<lparr>address = ''alice'', amount = dbl_of_nat 10\<rparr>, \<lparr>address = ''alice'', amount = dbl_of_nat 5\<rparr>]\<rparr>]\<rparr>]\<rparr>"

theorem second_output_ignored:
  "isValidChain demo_lib twice_chain = Inr True \<and> GetAddressBalance twice_chain ''alice'' = Inr (dbl_of_int 10)
   \<and> (\<Sum>tx \<leftarrow> concat (map transactions (blocks twice_chain)). received ''alice'' tx) = 15"
proof -
  let ?tx = "\<lparr>txId = [], txIns = [make_tx_in 0 0 0 []],
     txOuts = [\<lparr>address = ''alice'', amount = dbl_of_nat 10\<rparr>, \<lparr>address = ''alice'', amount = dbl_of_nat 5\<rparr>]\<rparr>"
  have bs: "blocks twice_chain = [default_block\<lparr>transactions := [?tx]\<rparr>]" "index (default_block\<lparr>transactions := [?tx]\<rparr>) = 0"
    by (simp_all add: twice_chain_def default_block_def)
  have "GetAddressBalance twice_chain ''alice'' =
      Inr (dbl_of_int ((\<Sum>tx \<leftarrow> [?tx]. credit ''alice'' tx) - (\<Sum>tx \<leftarrow> [?tx]. debit twice_chain ''alice'' tx)))"
    by (rule GetAddressBalance_whole)
      (simp_all add: bs indexed_blocks_def sound_tx_def in_range_def output_at_def turnover_def credit_def debited_def
        wf_transaction_def credited_def)
  then show ?thesis by (simp add: bs isValidChain_eq valid_blocks_def credit_def debit_def debited_def received_def coinbase_tx_def make_tx_in_def)
qed

text \<open>A chain in which the owner of the key \<open>k\<close> has one reward.\<close>

definition demo_sender :: string where
  "demo_sender = GetAddressFromPrivateKey demo_lib ''k''"

definition demo_funds :: blockchain where
  "demo_funds = empty_blockchain\<lparr>blocks :=
     [new_block demo_lib 0 0 [] [CreateCoinbaseTransaction demo_lib 0 demo_sender]]\<rparr>"

lemma demo_sender_not [simp]: "demo_sender \<noteq> []" "''bob'' \<noteq> demo_sender"
proof -
  have eq: "demo_sender = CHR ''1'' # tl demo_sender"
    unfolding demo_sender_def by (rule address_starts_with_1)
  then have "hd demo_sender = CHR ''1''" by (metis list.sel(1))
  moreover have "hd ''bob'' \<noteq> CHR ''1''" by simp
  ultimately show "''bob'' \<noteq> demo_sender" by metis
  show "demo_sender \<noteq> []" using eq by (metis list.discI)
qed

lemma demo_funds_unspent:
  "GetUnspentTxOuts demo_lib demo_funds demo_sender =
     Inr [output_point 0 0 0 \<lparr>address = demo_sender, amount = dbl_of_nat 57\<rparr>]"
  by (simp add: GetUnspentTxOuts_located demo_funds_def located_def empty_blockchain_def unspent_step_eq
      outputs_of_def wanted_def output_point_def)

lemma demo_funds_whole [simp]:
  "whole_coins (output_point b t j \<lparr>address = a, amount = dbl_of_nat 57\<rparr>)"
  "coins (output_point b t j \<lparr>address = a, amount = dbl_of_nat 57\<rparr>) = 57"
  by (simp_all add: whole_coins_def coins_def output_point_def)

theorem CreateTransaction_spec_witness:
  "\<exists>n. just_enough 10 [output_point 0 0 0 \<lparr>address = demo_sender, amount = dbl_of_nat 57\<rparr>] n
     \<and> CreateTransaction demo_lib demo_funds ''k'' ''bob'' (dbl_of_nat 10) =
       Inr (SUCCESS, spend_tx (take n [output_point 0 0 0 \<lparr>address = demo_sender, amount = dbl_of_nat 57\<rparr>])
              ''bob'' (dbl_of_nat 10) demo_sender
              ((\<Sum>u \<leftarrow> take n [output_point 0 0 0 \<lparr>address = demo_sender, amount = dbl_of_nat 57\<rparr>]. coins u) - 10))"
  using CreateTransaction_spec [OF demo_sender_def demo_funds_unspent, of "dbl_of_nat 10" "''bob''"] by simp

lemma demo_spend:
  "CreateTransaction demo_lib demo_funds ''k'' ''bob'' (dbl_of_nat 10) =
     Inr (SUCCESS, spend_tx [output_point 0 0 0 \<lparr>address = demo_sender, amount = dbl_of_nat 57\<rparr>]
            ''bob'' (dbl_of_nat 10) demo_sender 47)"
proof -
  let ?u = "output_point 0 0 0 \<lparr>address = demo_sender, amount = dbl_of_nat 57\<rparr>"
  obtain n where n: "just_enough 10 [?u] n" "CreateTransaction demo_lib demo_funds ''k'' ''bob'' (dbl_of_nat 10) =
       Inr (SUCCESS, spend_tx (take n [?u]) ''bob'' (dbl_of_nat 10) demo_sender ((\<Sum>u \<leftarrow> take n [?u]. coins u) - 10))"
    using CreateTransaction_success [of demo_lib "''bob''" "''k''" demo_funds "[?u]" "dbl_of_nat 10", folded demo_sender_def]
      exI [of "\<lambda>m. 0 < m \<and> m \<le> length [?u] \<and> (10 :: int) \<le> (\<Sum>u \<leftarrow> take m [?u]. coins u)" 1]
    by (auto simp: demo_funds_unspent)
  then have "n = 1" by (auto simp: just_enough_def)
  with n(2) show ?thesis by simp
qed

theorem CreateTransaction_negative_witness:
  "\<exists>tx change. CreateTransaction demo_lib demo_funds ''k'' ''bob'' (dbl_neg (dbl_of_nat 10)) = Inr (SUCCESS, tx)
     \<and> dbl_int change = 67 \<and> \<lparr>address = demo_sender, amount = change\<rparr> \<in> set (txOuts tx)"
proof -
  have amt: "integral (dbl_neg (dbl_of_nat 10))" "dbl_int (dbl_neg (dbl_of_nat 10)) = - 10"
    using holds_int_neg [OF holds_int_of_nat [of 10]] by (auto simp: integral_iff holds_int_unique)
  show ?thesis
    using CreateTransaction_negative [OF _ demo_funds_unspent [unfolded demo_sender_def], of "''bob''" "dbl_neg (dbl_of_nat 10)"]
    by (auto simp: amt simp flip: demo_sender_def)
qed

end
