(* ===== verification/Database.thy ===== *)
theory Database
  imports Chain
begin

text \<open>
  \<open>ChainDatabase.h\<close> and \<open>ChainDatabase.cpp\<close>: the binary form of a block, and the file that holds
  the blocks of the chain one after the other. The contents of the file are a list of 8-bit
  characters; integers are little-endian, as on the machines the program runs on.
\<close>

section \<open>Integers, doubles and strings\<close>

fun le_bytes :: "nat \<Rightarrow> nat \<Rightarrow> string" where
  "le_bytes 0 n = []"
| "le_bytes (Suc k) n = char_of (n mod 256) # le_bytes k (n div 256)"

fun le_value :: "string \<Rightarrow> nat" where
  "le_value [] = 0"
| "le_value (c # cs) = of_char c + 256 * le_value cs"

definition write_u64 :: "u64 \<Rightarrow> string" where
  "write_u64 v = le_bytes 8 (unat v)"

definition write_u32 :: "u32 \<Rightarrow> string" where
  "write_u32 v = le_bytes 4 (unat v)"

text \<open>A double is its bit pattern.\<close>

definition write_double :: "double \<Rightarrow> string" where
  "write_double v = le_bytes 8 (unat v)"

text \<open>The length is cut to 32 bits, and so is what is written.\<close>

definition write_string :: "string \<Rightarrow> string" where
  "write_string s =
     (let size = (word_of_nat (length s) :: u32) in write_u32 size @ take (unat size) s)"

text \<open>
  A reader takes the rest of the stream and returns a value and the new rest. An integer read from
  a stream that is too short stays indeterminate, which is undefined behaviour as soon as it is
  used; a string keeps the size it was given, and the missing part is zero bytes.
\<close>

definition read_u64 :: "string \<Rightarrow> (u64 \<times> string) res" where
  "read_u64 s = (if length s < 8 then Inl UndefinedBehaviour
                 else Inr (word_of_nat (le_value (take 8 s)), drop 8 s))"

definition read_u32 :: "string \<Rightarrow> (u32 \<times> string) res" where
  "read_u32 s = (if length s < 4 then Inl UndefinedBehaviour
                 else Inr (word_of_nat (le_value (take 4 s)), drop 4 s))"

definition read_double :: "string \<Rightarrow> (double \<times> string) res" where
  "read_double s = (if length s < 8 then Inl UndefinedBehaviour
                    else Inr (word_of_nat (le_value (take 8 s)), drop 8 s))"

definition read_string :: "string \<Rightarrow> (string \<times> string) res" where
  "read_string s =
     bindE (read_u32 s) (\<lambda>(len, s1).
     Inr (take (unat len) s1 @ replicate (unat len - length s1) (char_of (0::nat)), drop (unat len) s1))"

text \<open>
  The transaction count of a block is read into a variable that is zero already: what is missing of
  its four bytes stays zero.
\<close>

definition read_u32_or_zero :: "string \<Rightarrow> u32 \<times> string" where
  "read_u32_or_zero s = (word_of_nat (le_value (take 4 s)), drop 4 s)"

section \<open>Records\<close>

definition write_point :: "tx_out_point \<Rightarrow> string" where
  "write_point pt = write_u64 (blockIndex pt) @ write_u64 (txIndex pt) @ write_u64 (txOutIndex pt)"

definition write_tx_in :: "tx_in \<Rightarrow> string" where
  "write_tx_in tx = write_point (txOutPt tx) @ write_string (signature tx)"

definition write_tx_out :: "tx_out \<Rightarrow> string" where
  "write_tx_out tx = write_string (address tx) @ write_double (amount tx)"

definition write_counted :: "('a \<Rightarrow> string) \<Rightarrow> 'a list \<Rightarrow> string" where
  "write_counted wr xs = write_u32 (word_of_nat (length xs)) @ concat (map wr xs)"

definition write_transaction :: "transaction \<Rightarrow> string" where
  "write_transaction tx =
     write_string (txId tx) @ write_counted write_tx_in (txIns tx) @ write_counted write_tx_out (txOuts tx)"

definition write_header :: "block \<Rightarrow> string" where
  "write_header b =
     write_u64 (index b) @ write_u64 (nonce b) @ write_u64 (difficulty b) @ write_string (blockData b)
     @ write_u64 (blockTime b) @ write_string (hash b) @ write_string (previousHash b)
     @ write_string (miner b)"

definition write_block :: "block \<Rightarrow> string" where
  "write_block b = write_header b @ write_counted write_transaction (transactions b)"

definition read_point :: "string \<Rightarrow> (tx_out_point \<times> string) res" where
  "read_point s =
     bindE (read_u64 s) (\<lambda>(b, s).
     bindE (read_u64 s) (\<lambda>(t, s).
     bindE (read_u64 s) (\<lambda>(j, s).
     Inr (make_point b t j, s))))"

definition read_tx_in :: "string \<Rightarrow> (tx_in \<times> string) res" where
  "read_tx_in s =
     bindE (read_point s) (\<lambda>(pt, s).
     bindE (read_string s) (\<lambda>(sig, s).
     Inr (\<lparr>txOutPt = pt, signature = sig\<rparr>, s)))"

definition read_tx_out :: "string \<Rightarrow> (tx_out \<times> string) res" where
  "read_tx_out s =
     bindE (read_string s) (\<lambda>(a, s).
     bindE (read_double s) (\<lambda>(x, s).
     Inr (\<lparr>address = a, amount = x\<rparr>, s)))"

fun read_n :: "(string \<Rightarrow> ('a \<times> string) res) \<Rightarrow> nat \<Rightarrow> string \<Rightarrow> ('a list \<times> string) res" where
  "read_n rd 0 s = Inr ([], s)"
| "read_n rd (Suc n) s =
     bindE (rd s) (\<lambda>(x, s). bindE (read_n rd n s) (\<lambda>(xs, s). Inr (x # xs, s)))"

definition read_counted :: "(string \<Rightarrow> ('a \<times> string) res) \<Rightarrow> string \<Rightarrow> ('a list \<times> string) res" where
  "read_counted rd s = bindE (read_u32 s) (\<lambda>(count, s). read_n rd (unat count) s)"

definition read_transaction :: "string \<Rightarrow> (transaction \<times> string) res" where
  "read_transaction s =
     bindE (read_string s) (\<lambda>(i, s).
     bindE (read_counted read_tx_in s) (\<lambda>(ins, s).
     bindE (read_counted read_tx_out s) (\<lambda>(outs, s).
     Inr (\<lparr>txId = i, txIns = ins, txOuts = outs\<rparr>, s))))"

definition read_header :: "string \<Rightarrow> (block \<times> string) res" where
  "read_header s =
     bindE (read_u64 s) (\<lambda>(i, s).
     bindE (read_u64 s) (\<lambda>(n, s).
     bindE (read_u64 s) (\<lambda>(d, s).
     bindE (read_string s) (\<lambda>(dat, s).
     bindE (read_u64 s) (\<lambda>(t, s).
     bindE (read_string s) (\<lambda>(h, s).
     bindE (read_string s) (\<lambda>(p, s).
     bindE (read_string s) (\<lambda>(m, s).
     Inr (\<lparr>index = i, nonce = n, difficulty = d, blockData = dat, blockTime = t, previousHash = p,
           transactions = [], hash = h, miner = m\<rparr>, s)))))))))"

definition read_block :: "string \<Rightarrow> (block \<times> string) res" where
  "read_block s =
     bindE (read_header s) (\<lambda>(b, s).
     let (txcount, s) = read_u32_or_zero s
     in bindE (read_n read_transaction (unat txcount) s) (\<lambda>(txs, s).
        Inr (b\<lparr>transactions := txs\<rparr>, s)))"

section \<open>Readers consume what they return\<close>

definition consumes :: "(string \<Rightarrow> ('a \<times> string) res) \<Rightarrow> bool" where
  "consumes rd \<longleftrightarrow> (\<forall>s x r. rd s = Inr (x, r) \<longrightarrow> length r \<le> length s)"

named_theorems consume_rules "readers never lengthen the stream"

lemma consumesD: "consumes rd \<Longrightarrow> rd s = Inr (x, r) \<Longrightarrow> length r \<le> length s"
  by (auto simp: consumes_def)

lemma consumes_prim [consume_rules]:
  "consumes read_u64" "consumes read_u32" "consumes read_double" "consumes read_string"
  by (auto simp: consumes_def read_u64_def read_u32_def read_double_def read_string_def res_simps split: if_splits)

lemma consumes_n [consume_rules]: "consumes rd \<Longrightarrow> consumes (read_n rd n)"
proof (induction n)
  case (Suc n)
  then show ?case
    by (auto simp: consumes_def res_simps) (meson order_trans)
qed (simp add: consumes_def)

lemma consumes_counted [consume_rules]: "consumes rd \<Longrightarrow> consumes (read_counted rd)"
  using consumes_n [of rd] consumes_prim(2)
  by (auto simp: consumes_def read_counted_def res_simps) (meson order_trans)

lemma consumes_records [consume_rules]:
  "consumes read_point" "consumes read_tx_in" "consumes read_tx_out" "consumes read_transaction"
proof -
  show point: "consumes read_point"
    using consumes_prim(1) by (auto simp: consumes_def read_point_def res_simps) (meson order_trans)
  show ins: "consumes read_tx_in"
    using point consumes_prim(4) by (auto simp: consumes_def read_tx_in_def res_simps) (meson order_trans)
  show outs: "consumes read_tx_out"
    using consumes_prim(3,4) by (auto simp: consumes_def read_tx_out_def res_simps) (meson order_trans)
  show "consumes read_transaction"
    using consumes_prim(4) consumes_counted [OF ins] consumes_counted [OF outs]
    by (auto simp: consumes_def read_transaction_def res_simps) (meson order_trans)
qed

lemma read_u64_shrinks: "read_u64 s = Inr (x, r) \<Longrightarrow> length r < length s"
  by (auto simp: read_u64_def split: if_splits)

lemma read_header_shrinks: "read_header s = Inr (b, r) \<Longrightarrow> length r < length s"
  unfolding read_header_def
  by (auto simp: res_simps dest!: read_u64_shrinks consumesD [OF consumes_prim(4)])

lemma read_block_shrinks: "read_block s = Inr (b, r) \<Longrightarrow> length r < length s"
proof -
  assume "read_block s = Inr (b, r)"
  then obtain b' s' txs where "read_header s = Inr (b', s')"
      "read_n read_transaction (unat (fst (read_u32_or_zero s'))) (drop 4 s') = Inr (txs, r)"
    by (auto simp: read_block_def res_simps read_u32_or_zero_def)
  with read_header_shrinks consumesD [OF consumes_n [OF consumes_records(4)]] show ?thesis
    by (metis length_drop diff_le_self order_le_less_trans order_trans)
qed

text \<open>\<open>while (ifs.peek() != EOF)\<close>: blocks are read until the stream is at its end.\<close>

function read_blocks :: "string \<Rightarrow> block list res" where
  "read_blocks s =
     (if s = [] then Inr []
      else bindE (read_block s) (\<lambda>p. bindE (read_blocks (snd p)) (\<lambda>bs. Inr (fst p # bs))))"
  by pat_completeness auto

termination read_blocks
  by (relation "measure length") (auto dest: read_block_shrinks)

declare read_blocks.simps [simp del]

section \<open>The database\<close>

text \<open>The folder, the file \<open>chain.ashdb\<close> in it, and the open transaction index (LevelDB).\<close>

record chain_db =
  dbFolderExists :: bool
  dbFile :: "string option"
  dbIndexOpen :: bool

text \<open>Opening the file for appending creates it, but not its folder; a failed open writes nothing.\<close>

definition append_bytes :: "string \<Rightarrow> chain_db \<Rightarrow> chain_db" where
  "append_bytes bytes db =
     (if dbFolderExists db
      then db\<lparr>dbFile := Some ((case dbFile db of None \<Rightarrow> [] | Some old \<Rightarrow> old) @ bytes)\<rparr>
      else db)"

definition db_write :: "block \<Rightarrow> chain_db \<Rightarrow> chain_db" where
  "db_write b db = append_bytes (write_block b) db"

definition db_writeChain :: "blockchain \<Rightarrow> chain_db \<Rightarrow> chain_db" where
  "db_writeChain c db = append_bytes (concat (map write_block (blocks c))) db"

definition db_reset :: "chain_db \<Rightarrow> chain_db" where
  "db_reset db = db\<lparr>dbFile := None\<rparr>"

text \<open>
  \<open>gcb\<close> is the genesis callback (\<open>None\<close> when it is empty) and \<open>indexOk\<close> the status of
  \<open>leveldb::DB::Open\<close>. The database is returned with the outcome because its changes stay when
  loading throws.
\<close>

definition db_initialize ::
  "'j lib \<Rightarrow> block option \<Rightarrow> bool \<Rightarrow> blockchain \<Rightarrow> chain_db \<Rightarrow> chain_db \<times> blockchain res" where
  "db_initialize L gcb indexOk c db =
     (let db1 = db\<lparr>dbFolderExists := True\<rparr>
      in if dbFile db1 = None \<and> gcb = None then (db1, Inl AssertFailed)
         else let db2 = (case (dbFile db1, gcb) of (None, Some g) \<Rightarrow> db_write g db1 | _ \<Rightarrow> db1)
              in case bindE (read_blocks (case dbFile db2 of None \<Rightarrow> [] | Some s \<Rightarrow> s))
                        (\<lambda>bs. let c' = c\<lparr>blocks := blocks c @ bs\<rparr>
                              in bindE (isValidChain L c') (\<lambda>ok.
                                 if ok then Inr c' else Inl (LogicError ''invalid chain''))) of
                   Inl e \<Rightarrow> (db2, Inl e)
                 | Inr c' \<Rightarrow>
                     (if indexOk then (db2\<lparr>dbIndexOpen := True\<rparr>, Inr c')
                      else (db2, Inl (LogicError ''could not open txin index''))))"

section \<open>What is written reads back\<close>

text \<open>
  The contract of a writer and its reader: behind whatever was written the rest of the stream is
  left, and the value comes back as it is stored (the optional address and amount of an output
  point are not). Counted vectors and the absence of ambiguity follow.
\<close>

locale byte_codec =
  fixes wr :: "'a \<Rightarrow> string"
    and rd :: "string \<Rightarrow> ('a \<times> string) res"
    and ok :: "'a \<Rightarrow> bool"
    and stored :: "'a \<Rightarrow> 'a"
  assumes rd_wr: "ok x \<Longrightarrow> rd (wr x @ s) = Inr (stored x, s)"
begin

lemma n_values:
  "\<forall>x \<in> set xs. ok x \<Longrightarrow> read_n rd (length xs) (concat (map wr xs) @ s) = Inr (map stored xs, s)"
  by (induction xs) (simp_all add: rd_wr)

lemma unambiguous: "ok x \<Longrightarrow> ok y \<Longrightarrow> wr x @ s = wr y @ t \<Longrightarrow> stored x = stored y \<and> s = t"
  by (metis Pair_inject rd_wr sum.inject(2))

end

lemma length_le_bytes [simp]: "length (le_bytes k n) = k"
  by (induction k n rule: le_bytes.induct) simp_all

lemma le_value_bytes: "le_value (le_bytes k n) = n mod 256 ^ k"
proof (induction k n rule: le_bytes.induct)
  case (2 k n)
  have "of_char (char_of (n mod 256) :: char) = n mod 256" by simp
  with 2 show ?case by (simp add: mod_mult2_eq)
qed simp

lemma le_value_u64: "(word_of_nat (le_value (le_bytes 8 (unat (v :: u64)))) :: u64) = v"
  using unsigned_less [of v, where 'a = nat] by (simp add: le_value_bytes)

lemma le_value_u32: "(word_of_nat (le_value (le_bytes 4 (unat (v :: u32)))) :: u32) = v"
  using unsigned_less [of v, where 'a = nat] by (simp add: le_value_bytes)

definition short :: "'a list \<Rightarrow> bool" where
  "short xs \<longleftrightarrow> length xs < 2 ^ 32"

lemma unat_short: "short xs \<Longrightarrow> unat (word_of_nat (length xs) :: u32) = length xs"
  by (simp add: short_def unat_of_nat)

interpretation u64_codec: byte_codec write_u64 read_u64 "\<lambda>v. True" "\<lambda>v. v"
  by unfold_locales (simp add: write_u64_def read_u64_def le_value_u64)

interpretation u32_codec: byte_codec write_u32 read_u32 "\<lambda>v. True" "\<lambda>v. v"
  by unfold_locales (simp add: write_u32_def read_u32_def le_value_u32)

interpretation double_codec: byte_codec write_double read_double "\<lambda>v. True" "\<lambda>v. v"
  by unfold_locales (simp add: write_double_def read_double_def le_value_u64)

interpretation string_codec: byte_codec write_string read_string short "\<lambda>s. s"
  by unfold_locales (simp add: write_string_def read_string_def Let_def unat_short u32_codec.rd_wr)

context byte_codec
begin

lemma counted:
  "short xs \<Longrightarrow> \<forall>x \<in> set xs. ok x \<Longrightarrow>
   read_counted rd (write_counted wr xs @ s) = Inr (map stored xs, s)"
  by (simp add: read_counted_def write_counted_def u32_codec.rd_wr unat_short n_values)

end

definition stored_point :: "tx_out_point \<Rightarrow> tx_out_point" where
  "stored_point pt = make_point (blockIndex pt) (txIndex pt) (txOutIndex pt)"

definition stored_tx_in :: "tx_in \<Rightarrow> tx_in" where
  "stored_tx_in tx = tx\<lparr>txOutPt := stored_point (txOutPt tx)\<rparr>"

definition stored_tx :: "transaction \<Rightarrow> transaction" where
  "stored_tx tx = tx\<lparr>txIns := map stored_tx_in (txIns tx)\<rparr>"

definition stored_block :: "block \<Rightarrow> block" where
  "stored_block b = b\<lparr>transactions := map stored_tx (transactions b)\<rparr>"

definition ok_tx_in :: "tx_in \<Rightarrow> bool" where
  "ok_tx_in tx \<longleftrightarrow> short (signature tx)"

definition ok_tx_out :: "tx_out \<Rightarrow> bool" where
  "ok_tx_out tx \<longleftrightarrow> short (address tx)"

definition ok_tx :: "transaction \<Rightarrow> bool" where
  "ok_tx tx \<longleftrightarrow> short (txId tx) \<and> short (txIns tx) \<and> short (txOuts tx)
     \<and> (\<forall>txin \<in> set (txIns tx). ok_tx_in txin) \<and> (\<forall>txout \<in> set (txOuts tx). ok_tx_out txout)"

definition ok_header :: "block \<Rightarrow> bool" where
  "ok_header b \<longleftrightarrow> short (blockData b) \<and> short (hash b) \<and> short (previousHash b) \<and> short (miner b)"

text \<open>All strings and vectors have fewer than \<open>2^32\<close> elements.\<close>

definition ok_block :: "block \<Rightarrow> bool" where
  "ok_block b \<longleftrightarrow> ok_header b \<and> short (transactions b) \<and> (\<forall>tx \<in> set (transactions b). ok_tx tx)"

interpretation point_codec: byte_codec write_point read_point "\<lambda>pt. True" stored_point
  by unfold_locales (simp add: write_point_def read_point_def stored_point_def u64_codec.rd_wr)

interpretation tx_in_codec: byte_codec write_tx_in read_tx_in ok_tx_in stored_tx_in
  by unfold_locales
    (simp add: write_tx_in_def read_tx_in_def stored_tx_in_def ok_tx_in_def point_codec.rd_wr string_codec.rd_wr)

interpretation tx_out_codec: byte_codec write_tx_out read_tx_out ok_tx_out "\<lambda>tx. tx"
  by unfold_locales
    (simp add: write_tx_out_def read_tx_out_def ok_tx_out_def double_codec.rd_wr string_codec.rd_wr)

interpretation tx_codec: byte_codec write_transaction read_transaction ok_tx stored_tx
  by unfold_locales
    (simp add: write_transaction_def read_transaction_def ok_tx_def stored_tx_def
      string_codec.rd_wr tx_in_codec.counted tx_out_codec.counted)

interpretation header_codec: byte_codec write_header read_header ok_header "\<lambda>b. b\<lparr>transactions := []\<rparr>"
  by unfold_locales
    (simp add: write_header_def read_header_def ok_header_def u64_codec.rd_wr string_codec.rd_wr)

interpretation block_codec: byte_codec write_block read_block ok_block stored_block
proof
  fix b s
  assume ok: "ok_block b"
  have "read_u32_or_zero (write_u32 n @ s) = (n, s)" for n s
    by (simp add: read_u32_or_zero_def write_u32_def le_value_u32)
  with ok show "read_block (write_block b @ s) = Inr (stored_block b, s)"
    by (simp add: read_block_def write_block_def write_counted_def ok_block_def stored_block_def
        header_codec.rd_wr unat_short tx_codec.n_values)
qed

lemma write_header_nonempty [simp]: "write_header b \<noteq> []"
  by (simp add: write_header_def write_u64_def flip: length_0_conv)

lemma write_block_nonempty [simp]: "write_block b \<noteq> []"
  by (simp add: write_block_def)

lemma read_blocks_append:
  "\<forall>b \<in> set bs. ok_block b \<Longrightarrow>
   read_blocks (concat (map write_block bs) @ s) = bindE (read_blocks s) (\<lambda>cs. Inr (map stored_block bs @ cs))"
proof (induction bs)
  case (Cons b bs)
  have "read_blocks (write_block b @ concat (map write_block bs) @ s) =
      bindE (read_blocks (concat (map write_block bs) @ s)) (\<lambda>cs. Inr (stored_block b # cs))"
    using Cons.prems by (subst read_blocks.simps) (simp add: block_codec.rd_wr)
  with Cons show ?case by (simp add: bindE_assoc)
qed simp

lemma read_blocks_Nil [simp]: "read_blocks [] = Inr []"
  by (subst read_blocks.simps) simp

lemma read_blocks_written:
  "\<forall>b \<in> set bs. ok_block b \<Longrightarrow> read_blocks (concat (map write_block bs)) = Inr (map stored_block bs)"
  using read_blocks_append [of bs "[]"] by simp

text \<open>\<open>C25\<close>: a block whose strings and vectors are shorter than \<open>2^32\<close> reads back as it was
  written, field by field, but for the address and amount cached in its inputs, and the rest of
  the file is untouched.\<close>

theorem block_roundtrip:
  assumes "ok_block b"
  shows "read_block (write_block b @ rest) =
    Inr (b\<lparr>transactions := map (\<lambda>tx. tx\<lparr>txIns := map (\<lambda>txin. txin\<lparr>txOutPt := (txOutPt txin)
           \<lparr>ptAddress := None, ptAmount := None\<rparr>\<rparr>) (txIns tx)\<rparr>) (transactions b)\<rparr>, rest)"
proof -
  have "stored_tx_in = (\<lambda>txin. txin\<lparr>txOutPt := (txOutPt txin)\<lparr>ptAddress := None, ptAmount := None\<rparr>\<rparr>)"
    by (simp add: fun_eq_iff stored_tx_in_def stored_point_def make_point_def)
  then show ?thesis
    by (simp add: block_codec.rd_wr [OF assms] stored_block_def stored_tx_def [abs_def])
qed

section \<open>The store of a chain\<close>

text \<open>
  What the node relies on: a store that holds a list of blocks holds one more after \<open>write\<close>, holds
  exactly the chain after \<open>reset\<close> and \<open>writeChain\<close>, and gives its blocks back when it is loaded, as
  long as they form a valid chain.
\<close>

definition storable :: "block \<Rightarrow> bool" where
  "storable b \<longleftrightarrow> ok_block b \<and> stored_block b = b"

definition db_holds :: "chain_db \<Rightarrow> block list \<Rightarrow> bool" where
  "db_holds db bs \<longleftrightarrow> dbFolderExists db \<and> dbFile db = Some (concat (map write_block bs)) \<and> (\<forall>b \<in> set bs. storable b)"

locale chain_store =
  fixes holds :: "'d \<Rightarrow> block list \<Rightarrow> bool"
    and write_one :: "block \<Rightarrow> 'd \<Rightarrow> 'd"
    and writeChain :: "blockchain \<Rightarrow> 'd \<Rightarrow> 'd"
    and reset :: "'d \<Rightarrow> 'd"
    and load :: "'j lib \<Rightarrow> blockchain \<Rightarrow> 'd \<Rightarrow> 'd \<times> blockchain res"
    and good :: "block \<Rightarrow> bool"
  assumes holds_write: "holds d bs \<Longrightarrow> good b \<Longrightarrow> holds (write_one b d) (bs @ [b])"
    and holds_rewrite: "holds d bs \<Longrightarrow> \<forall>b \<in> set (blocks c). good b \<Longrightarrow> holds (writeChain c (reset d)) (blocks c)"
    and holds_load: "holds d bs \<Longrightarrow> valid_blocks L bs \<Longrightarrow> blocks c = [] \<Longrightarrow>
      \<exists>d'. load L c d = (d', Inr (c\<lparr>blocks := bs\<rparr>)) \<and> holds d' bs"
begin

lemma holds_writes: "holds d bs \<Longrightarrow> \<forall>b \<in> set new. good b \<Longrightarrow> holds (fold write_one new d) (bs @ new)"
proof (induction new arbitrary: d bs)
  case (Cons b new)
  then show ?case using holds_write [of d bs b] Cons.IH [of "write_one b d" "bs @ [b]"] by simp
qed simp

lemma load_after_writes:
  assumes "holds d bs" and "\<forall>b \<in> set new. good b" and "valid_blocks L (bs @ new)" and "blocks c = []"
  shows "\<exists>d'. load L c (fold write_one new d) = (d', Inr (c\<lparr>blocks := bs @ new\<rparr>))"
  using holds_load [OF holds_writes [OF assms(1,2)] assms(3,4)] by blast

lemma load_after_rewrite:
  assumes "holds d bs" and "\<forall>b \<in> set (blocks c'). good b" and "valid_blocks L (blocks c')" and "blocks c = []"
  shows "\<exists>d'. load L c (writeChain c' (reset d)) = (d', Inr (c\<lparr>blocks := blocks c'\<rparr>))"
  using holds_load [OF holds_rewrite [OF assms(1,2)] assms(3,4)] by blast

end

lemma db_initialize_file:
  "dbFile db = Some s \<Longrightarrow> read_blocks s = Inr bs \<Longrightarrow>
   db_initialize L gcb indexOk c db =
     (let db1 = db\<lparr>dbFolderExists := True\<rparr>
      in if \<not> valid_blocks L (blocks c @ bs) then (db1, Inl (LogicError ''invalid chain''))
         else if indexOk then (db1\<lparr>dbIndexOpen := True\<rparr>, Inr (c\<lparr>blocks := blocks c @ bs\<rparr>))
         else (db1, Inl (LogicError ''could not open txin index'')))"
  by (simp add: db_initialize_def Let_def isValidChain_eq)

lemma db_initialize_fresh:
  "dbFile db = None \<Longrightarrow> ok_block g \<Longrightarrow>
   db_initialize L (Some g) True empty_blockchain db =
     (db\<lparr>dbFolderExists := True, dbFile := Some (write_block g), dbIndexOpen := True\<rparr>,
      Inr (empty_blockchain\<lparr>blocks := [stored_block g]\<rparr>))"
  using read_blocks_written [of "[g]"]
  by (simp add: db_initialize_def Let_def db_write_def append_bytes_def isValidChain_eq empty_blockchain_def)

lemma storable_blocks: "\<forall>b \<in> set bs. storable b \<Longrightarrow> (\<forall>b \<in> set bs. ok_block b) \<and> map stored_block bs = bs"
  by (simp add: storable_def map_idI)

interpretation db: chain_store db_holds db_write db_writeChain db_reset
  "\<lambda>L. db_initialize L gcb True" storable for gcb
proof
  fix d bs and L :: "'j lib" and c :: blockchain
  assume "db_holds d bs" "valid_blocks L bs" "blocks c = []"
  moreover from this have "read_blocks (concat (map write_block bs)) = Inr bs"
    using storable_blocks [of bs] read_blocks_written [of bs] by (simp add: db_holds_def)
  ultimately show "\<exists>d'. db_initialize L gcb True c d = (d', Inr (c\<lparr>blocks := bs\<rparr>)) \<and> db_holds d' bs"
    by (simp add: db_holds_def db_initialize_file Let_def)
qed (auto simp: db_holds_def db_write_def db_writeChain_def db_reset_def append_bytes_def)

text \<open>Whatever blocks a file holds, a start on it loads just these or refuses them as a chain.\<close>

lemma db_initialize_any:
  assumes "db_holds db fs"
  shows "\<exists>db'. db_initialize L gcb True empty_blockchain db = (db',
    if isValidChain L (empty_blockchain\<lparr>blocks := fs\<rparr>) = Inr True then Inr (empty_blockchain\<lparr>blocks := fs\<rparr>)
    else Inl (LogicError ''invalid chain''))"
  using assms storable_blocks [of fs] read_blocks_written [of fs]
  by (auto simp: db_holds_def db_initialize_file Let_def isValidChain_eq empty_blockchain_def)

text \<open>The first start of a node makes the folder and a file with the genesis block alone, and
  loads that block as the chain.\<close>

theorem db_initialize_genesis:
  assumes "dbFile db = None" and "storable g"
  shows "\<exists>db'. db_initialize L (Some g) True empty_blockchain db = (db', Inr (empty_blockchain\<lparr>blocks := [g]\<rparr>))
    \<and> dbFolderExists db' \<and> dbFile db' = Some (write_block g)"
  using assms by (simp add: db_initialize_fresh storable_def)

text \<open>\<open>C24\<close>: after a chain has been written out in place of an old one and more blocks have been
  appended, a restart loads exactly these blocks, provided they link up.\<close>

theorem db_reload:
  assumes "db_holds db old" and "\<forall>b \<in> set (blocks c). storable b" and "\<forall>b \<in> set new. storable b"
    and "isValidChain L (c\<lparr>blocks := blocks c @ new\<rparr>) = Inr True"
  shows "\<exists>db'. db_initialize L gcb True empty_blockchain (fold db_write new (db_writeChain c (db_reset db)))
           = (db', Inr (empty_blockchain\<lparr>blocks := blocks c @ new\<rparr>))"
proof (rule db.load_after_writes [OF db.holds_rewrite [OF assms(1,2)] assms(3)])
  show "valid_blocks L (blocks c @ new)" using assms(4) by (simp add: isValidChain_eq)
qed (simp add: empty_blockchain_def)

text \<open>The file is unambiguous: two chains of storable blocks with the same file are the same
  list of blocks.\<close>

theorem chain_file_unambiguous:
  assumes "\<forall>b \<in> set (blocks c). storable b" and "\<forall>b \<in> set (blocks c'). storable b"
    and "dbFile (db_writeChain c db) = dbFile (db_writeChain c' db)" and "dbFolderExists db" and "dbFile db = None"
  shows "blocks c = blocks c'"
proof -
  have "concat (map write_block (blocks c)) = concat (map write_block (blocks c'))"
    using assms(3-5) by (simp add: db_writeChain_def append_bytes_def)
  then have "Inr (map stored_block (blocks c)) = (Inr (map stored_block (blocks c')) :: block list res)"
    using read_blocks_written storable_blocks assms(1,2) by metis
  with storable_blocks assms(1,2) show ?thesis by (metis sum.inject(2))
qed

text \<open>A file cut off in front of the transaction count of its last block is read as if that
  block had no transactions. When it is the first block nothing else notices: the chain is valid.\<close>

theorem truncated_genesis_accepted:
  assumes "ok_header g" and "dbFile db = Some (take (length (write_header g)) (write_block g))"
  shows "\<exists>db'. db_initialize L gcb True empty_blockchain db =
    (db', Inr (empty_blockchain\<lparr>blocks := [g\<lparr>transactions := []\<rparr>]\<rparr>))"
proof -
  have "read_header (write_header g) = Inr (g\<lparr>transactions := []\<rparr>, [])"
    using header_codec.rd_wr [OF assms(1), of "[]"] by simp
  then have "read_blocks (write_header g) = Inr [g\<lparr>transactions := []\<rparr>]"
    by (subst read_blocks.simps) (simp add: read_block_def read_u32_or_zero_def)
  moreover have "dbFile db = Some (write_header g)"
    using assms(2) by (simp add: write_block_def)
  ultimately show ?thesis
    by (simp add: db_initialize_file Let_def empty_blockchain_def)
qed

section \<open>Witnesses\<close>

lemma demo_digest_length [simp]: "length (demo_digest s) = Suc (length s)"
  by (simp add: demo_digest_def)

definition tiny_block :: "u64 \<Rightarrow> string \<Rightarrow> block" where
  "tiny_block i prev = \<lparr>index = i, nonce = 0, difficulty = 0, blockData = [], blockTime = 0,
     previousHash = prev, transactions = [\<lparr>txId = [], txIns = [make_tx_in i 0 0 []],
       txOuts = [\<lparr>address = ''alice'', amount = dbl_of_nat 57\<rparr>]\<rparr>], hash = ''h'', miner = []\<rparr>"

lemma tiny_block_ok: "length prev < 10 \<Longrightarrow> ok_block (tiny_block i prev)" "length prev < 10 \<Longrightarrow> ok_header (tiny_block i prev)"
  by (simp_all add: tiny_block_def ok_block_def ok_header_def short_def ok_tx_def ok_tx_in_def ok_tx_out_def make_tx_in_def)

lemma tiny_block_storable: "length prev < 10 \<Longrightarrow> storable (tiny_block i prev)"
  using tiny_block_ok by (simp add: storable_def)
    (simp add: tiny_block_def stored_block_def stored_tx_def stored_tx_in_def stored_point_def make_tx_in_def make_point_def)

definition tiny_db :: chain_db where
  "tiny_db = \<lparr>dbFolderExists = True, dbFile = None, dbIndexOpen = False\<rparr>"

theorem block_roundtrip_witness:
  "read_block (write_block (tiny_block 0 []) @ ''rest'') = Inr (tiny_block 0 [], ''rest'')"
  using block_roundtrip [OF tiny_block_ok(1) [of "[]" 0], of "''rest''"]
  by (simp add: tiny_block_def make_tx_in_def make_point_def)

theorem db_initialize_genesis_witness:
  "\<exists>db'. db_initialize demo_lib (Some (tiny_block 0 [])) True empty_blockchain tiny_db =
     (db', Inr (empty_blockchain\<lparr>blocks := [tiny_block 0 []]\<rparr>))"
  using db_initialize_genesis [of tiny_db "tiny_block 0 []" demo_lib] tiny_block_storable [of "[]" 0]
  by (auto simp: tiny_db_def)

text \<open>A library whose digest is always \<open>h\<close>, so that the small blocks are their own hashes.\<close>

definition tiny_lib :: "json lib" where
  "tiny_lib = demo_lib\<lparr>sha256_digest := \<lambda>s. ''h''\<rparr>"

lemma tiny_valid: "valid_blocks tiny_lib [tiny_block 0 [], tiny_block 1 ''h'']"
  by (simp add: valid_blocks_def valid_pair_def tiny_block_def tiny_lib_def CalculateBlockHash_def CalculateHash_def)

theorem db_reload_witness:
  "\<exists>db'. db_initialize tiny_lib None True empty_blockchain
       (fold db_write [tiny_block 1 ''h''] (db_writeChain (empty_blockchain\<lparr>blocks := [tiny_block 0 []]\<rparr>)
          (db_reset (tiny_db\<lparr>dbFile := Some []\<rparr>))))
     = (db', Inr (empty_blockchain\<lparr>blocks := [tiny_block 0 [], tiny_block 1 ''h'']\<rparr>))"
proof -
  have 1: "db_holds (tiny_db\<lparr>dbFile := Some []\<rparr>) []" by (simp add: db_holds_def tiny_db_def)
  show ?thesis
    using db_reload [OF 1, of "empty_blockchain\<lparr>blocks := [tiny_block 0 []]\<rparr>" "[tiny_block 1 ''h'']" tiny_lib None]
    by (simp add: tiny_block_storable isValidChain_eq tiny_valid)
qed

theorem chain_file_unambiguous_witness:
  "blocks (empty_blockchain\<lparr>blocks := [tiny_block 0 []]\<rparr>) = [tiny_block 0 []]"
  using chain_file_unambiguous [of "empty_blockchain\<lparr>blocks := [tiny_block 0 []]\<rparr>"
      "empty_blockchain\<lparr>blocks := [tiny_block 0 []]\<rparr>" tiny_db]
  by (simp add: tiny_block_storable tiny_db_def)

theorem truncated_genesis_accepted_witness:
  "\<exists>db'. db_initialize demo_lib None True empty_blockchain
      (tiny_db\<lparr>dbFile := Some (take (length (write_header (tiny_block 0 []))) (write_block (tiny_block 0 [])))\<rparr>)
    = (db', Inr (empty_blockchain\<lparr>blocks := [(tiny_block 0 [])\<lparr>transactions := []\<rparr>]\<rparr>))"
  by (rule truncated_genesis_accepted [OF tiny_block_ok(2)]) simp_all

end
