(* ===== verification/Mining.thy ===== *)
theory Mining
  imports Chain
begin

text \<open>
  \<open>Miner.h\<close>: the search for a nonce. What the other threads and the clock do during a run is an
  environment; the loop runs on fuel, and with as much fuel as the first good nonce it ends.
\<close>

unbundle bit_operations_syntax

section \<open>State, environment and the loop\<close>

datatype mine_result = MINED | TIMEOUT | ABORT

text \<open>The fields of \<open>Miner\<close>; \<open>keepTrying\<close> is set to true when a run starts.\<close>

record miner_state =
  minerDifficulty :: u64
  keepTrying :: bool

definition new_miner :: "u32 \<Rightarrow> miner_state" where
  "new_miner d = \<lparr>minerDifficulty = ucast d, keepTrying = True\<rparr>"

definition setDifficulty :: "u64 \<Rightarrow> miner_state \<Rightarrow> miner_state" where
  "setDifficulty d m = m\<lparr>minerDifficulty := d\<rparr>"

definition miner_abort :: "miner_state \<Rightarrow> miner_state" where
  "miner_abort m = m\<lparr>keepTrying := False\<rparr>"

text \<open>
  \<open>stopped k\<close>: another thread has called \<open>abort()\<close> by the time the loop condition is tested after
  \<open>k\<close> nonces; \<open>stoppedEnd k\<close>: the same for the test behind the loop. \<open>clock k\<close> is the reading
  before the loop (\<open>0\<close>) or in round \<open>k - 1\<close>, \<open>keepGoing\<close> the callback if there is one.
\<close>

record mine_env =
  stopped :: "nat \<Rightarrow> bool"
  stoppedEnd :: "nat \<Rightarrow> bool"
  clock :: "nat \<Rightarrow> block_time"
  keepGoing :: "(nat \<Rightarrow> u64 \<Rightarrow> bool) option"

definition every_few :: "u64 \<Rightarrow> bool" where
  "every_few n \<longleftrightarrow> n AND 0x3ffff = 0"

definition callback_stops :: "mine_env \<Rightarrow> nat \<Rightarrow> u64 \<Rightarrow> bool" where
  "callback_stops env k idx = (case keepGoing env of Some f \<Rightarrow> \<not> f k idx | None \<Rightarrow> False)"

definition mine_hash :: "'j lib \<Rightarrow> u64 \<Rightarrow> block \<Rightarrow> string \<Rightarrow> u64 \<Rightarrow> block_time \<Rightarrow> string" where
  "mine_hash L diff b extra n time =
     CalculateHash L (index b) n diff time (blockData b) (previousHash b) extra"

fun mine_loop ::
  "'j lib \<Rightarrow> mine_env \<Rightarrow> u64 \<Rightarrow> block \<Rightarrow> string \<Rightarrow> nat \<Rightarrow> nat \<Rightarrow> u64 \<Rightarrow> block_time \<Rightarrow> string
   \<Rightarrow> (mine_result \<times> block) option" where
  "mine_loop L env diff b extra 0 k n time h = None"
| "mine_loop L env diff b extra (Suc fuel) k n time h =
     (if \<not> stopped env k \<and> \<not> hash_has_zeros diff h
      then if every_few n \<and> callback_stops env k (index b) then Some (ABORT, b)
           else let time' = (if every_few n then clock env (Suc k) else time)
                in mine_loop L env diff b extra fuel (Suc k) (n + 1) time'
                     (mine_hash L diff b extra (n + 1) time')
      else if stoppedEnd env k then Some (ABORT, b)
      else Some (MINED, setMinedData n diff time h b))"

definition mineBlock ::
  "'j lib \<Rightarrow> mine_env \<Rightarrow> nat \<Rightarrow> miner_state \<Rightarrow> block \<Rightarrow> (mine_result \<times> block) option res" where
  "mineBlock L env fuel m b =
     bindE (assertE (index b > 0)) (\<lambda>_.
     bindE (assertE (length (previousHash b) > 0 \<or> index b - 1 = 0)) (\<lambda>_.
     let extra = transactions_digest L (transactions b);
         time = clock env 0;
         h = mine_hash L (minerDifficulty m) b extra 0 time
     in Inr (mine_loop L env (minerDifficulty m) b extra fuel 0 0 time h)))"

section \<open>What a run returns\<close>

lemma every_few_iff: "every_few w \<longleftrightarrow> unat w mod 2 ^ 18 = 0"
proof -
  have "w AND 0x3ffff = take_bit 18 w"
    by (simp add: take_bit_eq_mask mask_eq_exp_minus_1)
  then have "every_few w \<longleftrightarrow> unat (take_bit 18 w) = 0"
    by (simp add: every_few_def unat_eq_0)
  also have "unat (take_bit 18 w) = unat w mod 2 ^ 18"
    by (simp only: unsigned_take_bit_eq) (simp only: take_bit_eq_mod)
  finally show ?thesis .
qed

lemma setMinedData_valid:
  assumes "hash_has_zeros diff h" and "h = mine_hash L diff b (transactions_digest L (transactions b)) n t"
  shows "ValidHash L (setMinedData n diff t h b)"
  using assms by (simp add: ValidHash_iff CalculateBlockHash_def mine_hash_def setMinedData_def)

lemma mine_loop_result:
  assumes "mine_loop L env diff b (transactions_digest L (transactions b)) fuel k n t h = Some (r, b')"
    and "h = mine_hash L diff b (transactions_digest L (transactions b)) n t"
    and "\<forall>k. stopped env k \<longrightarrow> stoppedEnd env k"
  shows "(r = MINED \<and> (\<exists>n t h. b' = setMinedData n diff t h b) \<and> ValidHash L b') \<or> (r = ABORT \<and> b' = b)"
  using assms(1,2)
proof (induction fuel arbitrary: k n t h)
  case 0
  then show ?case by simp
next
  case (Suc fuel)
  consider (go) "\<not> stopped env k" "\<not> hash_has_zeros diff h"
    | (stop) "stopped env k" | (found) "\<not> stopped env k" "hash_has_zeros diff h" by blast
  then show ?case
  proof cases
    case go
    with Suc show ?thesis by (auto simp: Let_def split: if_splits)
  next
    case stop
    with Suc.prems assms(3) show ?thesis by (auto split: if_splits)
  next
    case found
    show ?thesis
    proof (cases "stoppedEnd env k")
      case True
      with found Suc.prems show ?thesis by auto
    next
      case False
      with found Suc.prems(1) have "r = MINED" "b' = setMinedData n diff t h b" by auto
      moreover have "ValidHash L (setMinedData n diff t h b)"
        using found Suc.prems(2) by (intro setMinedData_valid) simp_all
      ultimately show ?thesis by auto
    qed
  qed
qed

text \<open>A successful run returns a block with a valid proof of work at the miner's difficulty,
  which differs from the given one in nonce, difficulty, time and hash only; an aborted run leaves
  the block as it was. No run reports a timeout.\<close>

theorem mineBlock_result:
  assumes "mineBlock L env fuel m b = Inr (Some (r, b'))" and "\<forall>k. stopped env k \<longrightarrow> stoppedEnd env k"
  shows "(r = MINED \<and> ValidHash L b' \<and> difficulty b' = minerDifficulty m
            \<and> b' = b\<lparr>nonce := nonce b', difficulty := difficulty b', blockTime := blockTime b', hash := hash b'\<rparr>)
         \<or> (r = ABORT \<and> b' = b)"
proof -
  have loop: "mine_loop L env (minerDifficulty m) b (transactions_digest L (transactions b)) fuel 0 0 (clock env 0)
        (mine_hash L (minerDifficulty m) b (transactions_digest L (transactions b)) 0 (clock env 0)) = Some (r, b')"
    using assms(1) by (auto simp: mineBlock_def res_simps Let_def)
  show ?thesis
    using mine_loop_result [OF loop refl assms(2)] by (auto simp: setMinedData_def)
qed

section \<open>When a run ends\<close>

text \<open>The time in force when nonce \<open>n\<close> is tried: it is read again after every 262144th nonce.\<close>

definition time_at :: "mine_env \<Rightarrow> nat \<Rightarrow> block_time" where
  "time_at env n = (if n = 0 then clock env 0 else clock env (Suc ((n - 1) div 2 ^ 18 * 2 ^ 18)))"

definition good_nonce :: "'j lib \<Rightarrow> mine_env \<Rightarrow> u64 \<Rightarrow> block \<Rightarrow> nat \<Rightarrow> bool" where
  "good_nonce L env diff b n =
     hash_has_zeros diff (mine_hash L diff b (transactions_digest L (transactions b)) (word_of_nat n) (time_at env n))"

lemma time_at_Suc:
  "time_at env (Suc n) = (if n mod 2 ^ 18 = 0 then clock env (Suc n) else time_at env n)"
proof (cases "n mod 2 ^ 18 = 0")
  case True
  then have "n div 2 ^ 18 * 2 ^ 18 = n" by (metis add_0_right div_mult_mod_eq)
  with True show ?thesis by (simp add: time_at_def)
next
  case False
  then obtain m where m: "n = Suc m" by (cases n) auto
  have "Suc m div 2 ^ 18 = m div 2 ^ 18"
    using False unfolding m by (simp add: div_Suc)
  with False show ?thesis by (simp add: time_at_def m)
qed

text \<open>While nothing stops it the loop goes on from nonce to nonce.\<close>

lemma mine_loop_go:
  assumes "k < 2 ^ 64" and "\<not> stopped env k" and "\<not> good_nonce L env diff b k"
    and "\<not> callback_stops env k (index b)"
  shows "mine_loop L env diff b (transactions_digest L (transactions b)) (Suc fuel) k (word_of_nat k) (time_at env k)
           (mine_hash L diff b (transactions_digest L (transactions b)) (word_of_nat k) (time_at env k))
    = mine_loop L env diff b (transactions_digest L (transactions b)) fuel (Suc k) (word_of_nat (Suc k)) (time_at env (Suc k))
           (mine_hash L diff b (transactions_digest L (transactions b)) (word_of_nat (Suc k)) (time_at env (Suc k)))"
proof -
  have few: "every_few (word_of_nat k) \<longleftrightarrow> k mod 2 ^ 18 = 0"
    using assms(1) by (simp add: every_few_iff unat_of_nat)
  have "(word_of_nat k + 1 :: u64) = word_of_nat (Suc k)" by simp
  moreover have "time_at env (Suc k) = (if every_few (word_of_nat k) then clock env (Suc k) else time_at env k)"
    by (simp only: few time_at_Suc)
  ultimately show ?thesis
    using assms(2-4) by (simp add: good_nonce_def Let_def del: of_nat_Suc)
qed

lemma mine_loop_reaches:
  assumes "n < 2 ^ 64" and "\<forall>k < n. \<not> stopped env k \<and> \<not> good_nonce L env diff b k \<and> \<not> callback_stops env k (index b)"
    and "d \<le> n"
  shows "mine_loop L env diff b (transactions_digest L (transactions b)) (fuel + d) (n - d) (word_of_nat (n - d)) (time_at env (n - d))
           (mine_hash L diff b (transactions_digest L (transactions b)) (word_of_nat (n - d)) (time_at env (n - d)))
    = mine_loop L env diff b (transactions_digest L (transactions b)) fuel n (word_of_nat n) (time_at env n)
           (mine_hash L diff b (transactions_digest L (transactions b)) (word_of_nat n) (time_at env n))"
  using assms(3)
proof (induction d)
  case 0
  then show ?case by simp
next
  case (Suc d)
  then have eq: "Suc (n - Suc d) = n - d" and less: "n - Suc d < n" by simp_all
  from less assms(1,2) have "n - Suc d < 2 ^ 64" "\<not> stopped env (n - Suc d)"
      "\<not> good_nonce L env diff b (n - Suc d)" "\<not> callback_stops env (n - Suc d) (index b)"
    by simp_all
  from mine_loop_go [OF this, of "fuel + d"] Suc show ?case
    by (simp only: eq add_Suc_right)
qed

lemma mineBlock_runs:
  assumes "index b > 0" and "previousHash b \<noteq> [] \<or> index b = 1"
    and "n < 2 ^ 64"
    and "\<forall>k < n. \<not> stopped env k \<and> \<not> good_nonce L env (minerDifficulty m) b k \<and> \<not> callback_stops env k (index b)"
    and "n < fuel"
  shows "mineBlock L env fuel m b =
    Inr (mine_loop L env (minerDifficulty m) b (transactions_digest L (transactions b)) (Suc (fuel - n - 1)) n (word_of_nat n) (time_at env n)
      (mine_hash L (minerDifficulty m) b (transactions_digest L (transactions b)) (word_of_nat n) (time_at env n)))"
proof -
  have "fuel = Suc (fuel - n - 1) + n" using assms(5) by simp
  with mine_loop_reaches [OF assms(3,4), of n "Suc (fuel - n - 1)"] assms(1,2) show ?thesis
    by (auto simp: mineBlock_def time_at_def Let_def)
qed

text \<open>\<open>C21\<close>: the search finds the first good nonce. If nobody stops it before nonce \<open>n\<close>, no smaller
  nonce is good and \<open>n\<close> is, then any fuel above \<open>n\<close> is enough and the block comes back mined with
  exactly this nonce.\<close>

theorem mineBlock_finds:
  assumes "index b > 0" and "previousHash b \<noteq> [] \<or> index b = 1"
    and "n < 2 ^ 64" and "good_nonce L env (minerDifficulty m) b n" and "\<not> stoppedEnd env n"
    and "\<forall>k < n. \<not> stopped env k \<and> \<not> good_nonce L env (minerDifficulty m) b k \<and> \<not> callback_stops env k (index b)"
    and "n < fuel"
  shows "\<exists>b'. mineBlock L env fuel m b = Inr (Some (MINED, b')) \<and> nonce b' = word_of_nat n
    \<and> blockTime b' = time_at env n \<and> transactions b' = transactions b"
  using assms(4,5) mineBlock_runs [OF assms(1,2,3,6,7)]
  by (simp add: good_nonce_def setMinedData_def)

text \<open>\<open>C35\<close>: a run ends with \<open>ABORT\<close>, the block unchanged, at the first load of the flag after \<open>abort()\<close>
  or at the first callback that says no, if no nonce up to there was good.\<close>

theorem mineBlock_aborts:
  assumes "index b > 0" and "previousHash b \<noteq> [] \<or> index b = 1" and "n < 2 ^ 64"
    and "\<forall>k < n. \<not> stopped env k \<and> \<not> good_nonce L env (minerDifficulty m) b k \<and> \<not> callback_stops env k (index b)"
    and "stopped env n \<and> stoppedEnd env n
         \<or> \<not> good_nonce L env (minerDifficulty m) b n \<and> n mod 2 ^ 18 = 0 \<and> callback_stops env n (index b)"
    and "\<not> stopped env n \<or> stoppedEnd env n" and "n < fuel"
  shows "mineBlock L env fuel m b = Inr (Some (ABORT, b))"
  using assms(3,5,6) mineBlock_runs [OF assms(1,2,3,4,7)]
  by (auto simp: good_nonce_def every_few_iff unat_of_nat)

lemma mined_block_extends:
  assumes "isValidChain L c = Inr True" and "blocks c \<noteq> []" and "index (hd (blocks c)) = 0"
    and "createUnminedBlock L now w c = Inr (b, c1)"
    and "mineBlock L env fuel m b = Inr (Some (MINED, b'))" and "\<forall>k. stopped env k \<longrightarrow> stoppedEnd env k"
  shows "addNewBlock L b' c1 = Inr (True, c1\<lparr>blocks := blocks c @ [b']\<rparr>)
    \<and> isValidChain L (c1\<lparr>blocks := blocks c @ [b']\<rparr>) = Inr True
    \<and> index b' = index b \<and> transactions b' = transactions b"
proof -
  have b: "index b = word_of_nat (chain_size c)" "previousHash b = hash (last (blocks c))" "blocks c1 = blocks c"
    using assms(2,4) by (auto simp: createUnminedBlock_eq)
  have loop: "mine_loop L env (minerDifficulty m) b (transactions_digest L (transactions b)) fuel 0 0 (clock env 0)
        (mine_hash L (minerDifficulty m) b (transactions_digest L (transactions b)) 0 (clock env 0)) = Some (MINED, b')"
    using assms(5) by (auto simp: mineBlock_def res_simps Let_def)
  obtain n t h where b': "b' = setMinedData n (minerDifficulty m) t h b" "ValidHash L b'"
    using mine_loop_result [OF loop refl assms(6)] by auto
  have prev: "index b' = index b" "previousHash b' = previousHash b" "transactions b' = transactions b"
    by (simp_all add: b'(1) block_frame)
  have valid: "valid_blocks L (blocks c)" using assms(1) by (simp add: isValidChain_eq)
  then have "index (last (blocks c)) = word_of_nat (chain_size c - 1)"
    using indexed_blocks_last [OF valid_blocks_indexed] assms(2,3) by (simp add: chain_size_def)
  moreover have "0 < chain_size c" using assms(2) by (simp add: chain_size_def)
  ultimately have "index b' = index (last (blocks c)) + 1"
    by (simp add: prev b of_nat_diff)
  with valid b' prev b assms(2) show ?thesis
    by (simp add: addNewBlock_eq isValidChain_eq valid_blocks_snoc valid_pair_def ValidHash_iff)
qed

text \<open>Making a block, mining it and adding it fit together: whatever nonce the miner found, the
  chain accepts the block and grows by it, and a valid chain that starts at index 0 stays valid.\<close>

theorem mined_block_accepted:
  assumes "isValidChain L c = Inr True" and "blocks c \<noteq> []" and "index (hd (blocks c)) = 0"
    and "createUnminedBlock L now w c = Inr (b, c1)"
    and "mineBlock L env fuel m b = Inr (Some (MINED, b'))" and "\<forall>k. stopped env k \<longrightarrow> stoppedEnd env k"
  shows "addNewBlock L b' c1 = Inr (True, c1\<lparr>blocks := blocks c @ [b']\<rparr>)
    \<and> isValidChain L (c1\<lparr>blocks := blocks c @ [b']\<rparr>) = Inr True"
  using mined_block_extends [OF assms] by simp

section \<open>Witnesses\<close>

text \<open>A digest that starts with a zero for texts of even length, and an undisturbed run.\<close>

definition mine_lib :: "json lib" where
  "mine_lib = demo_lib\<lparr>sha256_digest := \<lambda>s. if even (length s) then ''0'' else ''1''\<rparr>"

definition quiet_env :: mine_env where
  "quiet_env = \<lparr>stopped = \<lambda>k. False, stoppedEnd = \<lambda>k. False, clock = \<lambda>k. 0, keepGoing = None\<rparr>"

definition mine_block :: block where
  "mine_block = default_block\<lparr>index := 1\<rparr>"

lemma mine_lib_good:
  "good_nonce mine_lib quiet_env 1 mine_block n \<longleftrightarrow> even (length (u64_dec (word_of_nat n)))"
  by (simp add: good_nonce_def mine_hash_def CalculateHash_def block_hash_text_def mine_lib_def mine_block_def
      default_block_def transactions_digest_def quiet_env_def time_at_def hash_has_zeros_def u64_dec_def i64_dec_def)

lemma mine_lib_first: "good_nonce mine_lib quiet_env 1 mine_block 10"
  "k < 10 \<Longrightarrow> \<not> good_nonce mine_lib quiet_env 1 mine_block k"
proof -
  show "good_nonce mine_lib quiet_env 1 mine_block 10" by (simp add: mine_lib_good u64_dec_def)
  assume "k < 10"
  then have "unat (word_of_nat k :: u64) = k" by (simp add: unat_of_nat)
  then have "u64_dec (word_of_nat k) = nat_dec k" by (simp add: u64_dec_def)
  moreover have "nat_dec k = [dec_digit k]" using \<open>k < 10\<close> by (subst nat_dec.simps) simp
  ultimately show "\<not> good_nonce mine_lib quiet_env 1 mine_block k" by (simp add: mine_lib_good)
qed

lemma quiet_env_simps [simp]:
  "stopped quiet_env k = False" "stoppedEnd quiet_env k = False" "callback_stops quiet_env k i = False"
  "time_at quiet_env k = 0"
  by (simp_all add: quiet_env_def callback_stops_def time_at_def)

lemma mine_block_simps [simp]: "index mine_block = 1" "previousHash mine_block = []" "transactions mine_block = []"
  by (simp_all add: mine_block_def default_block_def)

theorem mineBlock_finds_witness:
  "\<exists>b'. mineBlock mine_lib quiet_env 20 (new_miner 1) mine_block = Inr (Some (MINED, b')) \<and> nonce b' = 10"
proof -
  have d: "minerDifficulty (new_miner 1) = 1" by (simp add: new_miner_def)
  show ?thesis
    using mineBlock_finds [of mine_block 10 mine_lib quiet_env "new_miner 1" 20] mine_lib_first
    by (auto simp: d)
qed

lemma mine_block_mined:
  "\<exists>b'. mineBlock mine_lib quiet_env 11 (new_miner 1) mine_block = Inr (Some (MINED, b'))"
proof -
  have d: "minerDifficulty (new_miner 1) = 1" by (simp add: new_miner_def)
  have "mineBlock mine_lib quiet_env 11 (new_miner 1) mine_block =
    Inr (mine_loop mine_lib quiet_env 1 mine_block (transactions_digest mine_lib []) (Suc (11 - 10 - 1)) 10 (word_of_nat 10) 0
      (mine_hash mine_lib 1 mine_block (transactions_digest mine_lib []) (word_of_nat 10) 0))"
    using mineBlock_runs [of mine_block 10 quiet_env mine_lib "new_miner 1" 11] mine_lib_first by (simp add: d)
  with mine_lib_first(1) show ?thesis by (simp add: good_nonce_def)
qed

theorem mineBlock_result_witness:
  "\<exists>b'. mineBlock mine_lib quiet_env 11 (new_miner 1) mine_block = Inr (Some (MINED, b')) \<and> ValidHash mine_lib b'"
proof -
  obtain b' where b': "mineBlock mine_lib quiet_env 11 (new_miner 1) mine_block = Inr (Some (MINED, b'))"
    using mine_block_mined by blast
  show ?thesis using mineBlock_result [OF b'] b' by auto
qed

theorem mineBlock_aborts_witness:
  "mineBlock mine_lib (quiet_env\<lparr>keepGoing := Some (\<lambda>k idx. False)\<rparr>) 1 (new_miner 1) mine_block = Inr (Some (ABORT, mine_block))"
proof -
  let ?env = "quiet_env\<lparr>keepGoing := Some (\<lambda>k idx. False)\<rparr>"
  have d: "minerDifficulty (new_miner 1) = 1" by (simp add: new_miner_def)
  have "good_nonce mine_lib ?env 1 mine_block 0 = good_nonce mine_lib quiet_env 1 mine_block 0"
    by (simp add: good_nonce_def time_at_def)
  then show ?thesis
    using mineBlock_aborts [of mine_block 0 ?env mine_lib "new_miner 1" 1] mine_lib_first(2) [of 0]
    by (simp add: d callback_stops_def quiet_env_def)
qed

text \<open>A genesis block at the digest \<open>0\<close>, and the block mined behind it.\<close>

theorem mined_block_accepted_witness:
  "\<exists>b'. addNewBlock (demo_lib\<lparr>sha256_digest := \<lambda>s. ''0''\<rparr>) b' (empty_blockchain\<lparr>blocks := [default_block]\<rparr>)
     = Inr (True, empty_blockchain\<lparr>blocks := [default_block, b']\<rparr>)"
proof -
  let ?c = "empty_blockchain\<lparr>blocks := [default_block]\<rparr>"
  let ?L = "demo_lib\<lparr>sha256_digest := \<lambda>s. ''0''\<rparr>"
  let ?m = "new_miner 0"
  have d: "minerDifficulty ?m = 0" by (simp add: new_miner_def)
  have q: "?c\<lparr>txQueue := []\<rparr> = ?c" by (simp add: empty_blockchain_def)
  obtain b where b: "createUnminedBlock ?L 0 ''bob'' ?c = Inr (b, ?c)" "index b = 1"
    using createUnminedBlock_eq [of ?c ?L 0 "''bob''"] by (simp add: q chain_size_def)
  obtain b' where b': "mineBlock ?L quiet_env 1 ?m b = Inr (Some (MINED, b'))"
    using mineBlock_runs [of b 0 quiet_env ?L ?m 1] b(2) by (simp add: d)
  have v: "isValidChain ?L ?c = Inr True" by (simp add: isValidChain_eq)
  show ?thesis
    using mined_block_accepted [OF v _ _ b(1) b'] by (auto simp: default_block_def)
qed

end
