(* ===== verification/Coins.thy ===== *)
theory Coins
  imports Accounts
begin

text \<open>
  What the chain promises its users, without its data structures: a set of coins, each made by one
  transaction and spent by at most one. The unspent outputs (\<open>GetUnspentTxOuts\<close>, what a wallet may
  spend) and the balance (\<open>GetAddressBalance\<close>, what a wallet shows) are computed by unrelated code;
  both refine the set of coins, so they agree.
\<close>

section \<open>The abstract ledger\<close>

text \<open>A transaction makes its outputs and takes away the coins it spends.\<close>

definition coin_step :: "tx_out_point set \<Rightarrow> u64 \<times> u64 \<times> transaction \<Rightarrow> tx_out_point set" where
  "coin_step S it = {p \<in> S \<union> set (outputs_of it). \<not> spends it p}"

definition coin_set :: "(u64 \<times> u64 \<times> transaction) list \<Rightarrow> tx_out_point set" where
  "coin_set txs = foldl coin_step {} txs"

definition wealth :: "string \<Rightarrow> tx_out_point set \<Rightarrow> int" where
  "wealth addr S = (\<Sum>p \<in> {p \<in> S. ptAddress p = Some addr}. coins p)"

text \<open>
  A proper transaction spends coins that are there, no coin twice and all of one owner, and makes at
  most one output for each address. This is how \<open>CreateTransaction\<close> makes them.
\<close>

definition point_id :: "tx_out_point \<Rightarrow> u64 \<times> u64 \<times> u64" where
  "point_id p = (blockIndex p, txIndex p, txOutIndex p)"

definition proper_tx :: "tx_out_point set \<Rightarrow> transaction \<Rightarrow> bool" where
  "proper_tx S tx \<longleftrightarrow> distinct (map address (txOuts tx)) \<and>
     (coinbase_tx tx \<or> distinct (map (point_id \<circ> txOutPt) (txIns tx)) \<and>
        (\<exists>owner. \<forall>txin \<in> set (txIns tx). \<exists>p \<in> S. same_point (txOutPt txin) p \<and> ptAddress p = Some owner))"

definition proper_txs :: "(u64 \<times> u64 \<times> transaction) list \<Rightarrow> bool" where
  "proper_txs txs \<longleftrightarrow> (\<forall>k < length txs. proper_tx (coin_set (take k txs)) (snd (snd (txs ! k))))"

lemma coin_set_snoc: "coin_set (txs @ [it]) = coin_step (coin_set txs) it"
  by (simp add: coin_set_def)

lemma coin_set_eq: "coin_set txs = {p. unspent_in txs p}"
proof (induction txs rule: rev_induct)
  case Nil
  then show ?case by (simp add: coin_set_def unspent_in_def)
next
  case (snoc it txs)
  then show ?case by (auto simp: coin_set_snoc coin_step_def unspent_in_snoc)
qed

lemma same_point_id: "same_point p q \<longleftrightarrow> point_id p = point_id q"
  by (auto simp: same_point_def point_id_def)

section \<open>Outputs and their places\<close>

text \<open>Blocks at their indices, and nothing so long that a 64-bit number could not count it.\<close>

definition countable_chain :: "blockchain \<Rightarrow> bool" where
  "countable_chain c \<longleftrightarrow> indexed_blocks (blocks c) \<and> length (blocks c) < 2 ^ 64
     \<and> (\<forall>b \<in> set (blocks c). length (transactions b) < 2 ^ 64
          \<and> (\<forall>tx \<in> set (transactions b). length (txOuts tx) < 2 ^ 64))"

lemma unat_of_nat_u64: "n < 2 ^ 64 \<Longrightarrow> unat (word_of_nat n :: u64) = n"
  by (simp add: unat_of_nat)

lemma word_of_nat_u64_inject:
  "m < 2 ^ 64 \<Longrightarrow> n < 2 ^ 64 \<Longrightarrow> (word_of_nat m :: u64) = word_of_nat n \<longleftrightarrow> m = n"
  by (metis unat_of_nat_u64)

lemma located_nth:
  assumes "(bi, ti, tx) \<in> set (located c)" and "countable_chain c"
  shows "unat bi < length (blocks c) \<and> unat ti < length (transactions (blocks c ! unat bi))
    \<and> tx = transactions (blocks c ! unat bi) ! unat ti"
proof -
  from assms(1) obtain b j where b: "b \<in> set (blocks c)" "bi = index b" "(j, tx) \<in> set (enumerate 0 (transactions b))"
      "ti = word_of_nat j" by (auto simp: located_def)
  then obtain i where i: "i < length (blocks c)" "blocks c ! i = b" by (auto simp: in_set_conv_nth)
  with assms(2) b have "unat bi = i" by (auto simp: countable_chain_def indexed_blocks_def unat_of_nat)
  moreover have "j < length (transactions b)" "tx = transactions b ! j"
    using b(3) by (auto simp: in_set_enumerate_eq)
  moreover from this b assms(2) have "unat ti = j" by (auto simp: countable_chain_def unat_of_nat)
  ultimately show ?thesis using i by simp
qed

lemma located_short:
  assumes "(bi, ti, tx) \<in> set (located c)" and "countable_chain c"
  shows "length (txOuts tx) < 2 ^ 64"
proof -
  have "tx \<in> set (transactions (blocks c ! unat bi))" "blocks c ! unat bi \<in> set (blocks c)"
    using located_nth [OF assms] by auto
  with assms(2) show ?thesis by (auto simp: countable_chain_def)
qed

lemma output_point_at:
  assumes "it \<in> set (located c)" and "p \<in> set (outputs_of it)" and "countable_chain c"
  shows "ptAddress p = Some (address (output_at c p)) \<and> ptAmount p = Some (amount (output_at c p))"
proof -
  obtain bi ti tx where it: "it = (bi, ti, tx)" by (cases it)
  note loc = located_nth [OF assms(1) [unfolded it] assms(3)]
  from assms(2) obtain j where j: "j < length (txOuts tx)" "p = output_point bi ti j (txOuts tx ! j)"
    by (auto simp: it outputs_of_def in_set_enumerate_eq)
  have "length (txOuts tx) < 2 ^ 64" using assms(1,3) unfolding it by (rule located_short)
  with j have "unat (word_of_nat j :: u64) = j" by (simp add: unat_of_nat_u64)
  with loc j show ?thesis by (auto simp: output_point_def output_at_def)
qed

lemma output_at_id: "point_id p = point_id q \<Longrightarrow> output_at c p = output_at c q"
  by (simp add: point_id_def output_at_def)

lemma point_id_inj:
  assumes "countable_chain c"
  shows "inj_on point_id (all_outputs c)"
proof (rule inj_onI)
  fix p q assume pq: "p \<in> all_outputs c" "q \<in> all_outputs c" and eq: "point_id p = point_id q"
  from pq have "ptAddress p = ptAddress q" "ptAmount p = ptAmount q"
    using output_point_at [OF _ _ assms] output_at_id [OF eq, of c] by (auto simp: all_outputs_def)
  with eq show "p = q" by (cases p, cases q) (simp add: point_id_def)
qed

lemma located_places_distinct:
  assumes "\<forall>i < length bs. index (bs ! i) = word_of_nat (n + i)" and "n + length bs < 2 ^ 64"
    and "\<forall>b \<in> set bs. length (transactions b) < 2 ^ 64"
  shows "distinct (map (\<lambda>(bi, ti, tx). (bi, ti))
           (concat (map (\<lambda>b. map (\<lambda>(ti, tx). (index b, word_of_nat ti :: u64, tx)) (enumerate 0 (transactions b))) bs)))"
  using assms
proof (induction bs arbitrary: n)
  case Nil
  then show ?case by simp
next
  case (Cons b bs)
  have here: "distinct (map (\<lambda>(ti, tx). (i :: u64, word_of_nat ti :: u64)) (enumerate 0 (transactions b)))" for i
  proof -
    have "inj_on (\<lambda>(ti, tx). (i, word_of_nat ti :: u64)) (set (enumerate 0 (transactions b)))"
    proof (rule inj_onI, clarify)
      fix j t j' t' assume a: "(j, t) \<in> set (enumerate 0 (transactions b))" "(j', t') \<in> set (enumerate 0 (transactions b))"
        "(word_of_nat j :: u64) = word_of_nat j'"
      then have "j < 2 ^ 64" "j' < 2 ^ 64" using Cons.prems(3) by (auto simp: in_set_enumerate_eq)
      with a(3) have "j = j'" by (simp only: word_of_nat_u64_inject)
      with a show "j = j' \<and> t = t'" by (auto simp: in_set_enumerate_eq)
    qed
    then show ?thesis by (simp add: distinct_map distinct_enumerate)
  qed
  have later: "index b' \<noteq> index b" if "b' \<in> set bs" for b'
  proof -
    from that obtain i where i: "i < length bs" "bs ! i = b'" by (auto simp: in_set_conv_nth)
    with Cons.prems(1) have "index b' = word_of_nat (n + Suc i)" by fastforce
    moreover have "index b = word_of_nat n" using Cons.prems(1) by fastforce
    moreover have "unat (word_of_nat (n + Suc i) :: u64) = n + Suc i" "unat (word_of_nat n :: u64) = n"
      using unat_of_nat_u64 [of "n + Suc i"] unat_of_nat_u64 [of n] i Cons.prems(2) by simp_all
    ultimately show ?thesis by (metis add_cancel_left_right nat.distinct(1))
  qed
  have "\<forall>i < length bs. index (bs ! i) = word_of_nat (Suc n + i)"
    using Cons.prems(1) by (metis Suc_less_eq add_Suc add_Suc_right length_Cons nth_Cons_Suc)
  then have "distinct (map (\<lambda>(bi, ti, tx). (bi, ti))
      (concat (map (\<lambda>b. map (\<lambda>(ti, tx). (index b, word_of_nat ti :: u64, tx)) (enumerate 0 (transactions b))) bs)))"
    using Cons.prems by (intro Cons.IH [of "Suc n"]) auto
  with here [of "index b"] later show ?case by (auto simp: o_def split_def) (metis later)
qed

lemma places_distinct:
  "countable_chain c \<Longrightarrow> distinct (map (\<lambda>(bi, ti, tx). (bi, ti)) (located c))"
  unfolding located_def by (rule located_places_distinct [of _ 0]) (auto simp: countable_chain_def indexed_blocks_def)

text \<open>The outputs a transaction makes are new.\<close>

lemma fresh_outputs:
  assumes "countable_chain c" and "k < length (located c)"
  shows "coin_set (take k (located c)) \<inter> set (outputs_of (located c ! k)) = {}"
proof (rule ccontr)
  assume "\<not> ?thesis"
  then obtain p where p: "p \<in> coin_set (take k (located c))" "p \<in> set (outputs_of (located c ! k))" by auto
  then obtain i where i: "i < k" "p \<in> set (outputs_of (located c ! i))"
    using assms(2) by (force simp: coin_set_eq unspent_in_def)
  have "(blockIndex p, txIndex p) = (fst it, fst (snd it))" if "p \<in> set (outputs_of it)" for it
    using that by (auto simp: outputs_of_def output_point_def)
  from this [OF p(2)] this [OF i(2)]
  have "map (\<lambda>(bi, ti, tx). (bi, ti)) (located c) ! i = map (\<lambda>(bi, ti, tx). (bi, ti)) (located c) ! k"
    using i(1) assms(2) by (simp add: split_def)
  with nth_eq_iff_index_eq [OF places_distinct [OF assms(1)], of i k] i(1) assms(2) show False by simp
qed

lemma coin_set_outputs: "coin_set (take k (located c)) \<subseteq> all_outputs c"
proof -
  have "\<exists>it \<in> set txs. p \<in> set (outputs_of it)" if "unspent_in txs p" for txs p
    using that unfolding unspent_in_def by (metis nth_mem)
  then show ?thesis
    using set_take_subset [of k "located c"] unfolding coin_set_eq all_outputs_def by blast
qed

lemma finite_outputs: "finite (all_outputs c)"
  by (simp add: all_outputs_def)

section \<open>What a transaction does to the wealth of an address\<close>

lemma sum_over_list:
  assumes "distinct (map f xs)" and "\<And>x. x \<in> set xs \<Longrightarrow> h (g x) = f x"
  shows "(\<Sum>y \<in> g ` set xs. v y) = (\<Sum>x \<leftarrow> xs. v (g x))"
proof -
  have inj: "inj_on g (set xs)"
    by (rule inj_onI) (metis assms distinct_map inj_onD)
  have "distinct xs" using assms(1) by (simp add: distinct_map)
  then show ?thesis by (simp add: sum.reindex [OF inj] sum_list_distinct_conv_sum_set)
qed

lemma made_wealth:
  assumes "distinct (map address (txOuts tx))" and "length (txOuts tx) < 2 ^ 64"
  shows "wealth addr (set (outputs_of (bi, ti, tx))) = credit addr tx"
proof -
  have step: "(\<Sum>p \<leftarrow> filter (\<lambda>p. ptAddress p = Some addr) (map (\<lambda>(j, txout). output_point bi ti j txout) (enumerate n outs)). coins p)
      = (case find (\<lambda>txout. address txout = addr) outs of Some txout \<Rightarrow> dbl_int (amount txout) | None \<Rightarrow> 0)"
    if "distinct (map address outs)" for n outs
    using that
  proof (induction outs arbitrary: n)
    case Nil
    then show ?case by simp
  next
    case (Cons x outs)
    have "addr \<notin> address ` set outs" if "address x = addr"
      using Cons.prems that by auto
    then have "find (\<lambda>txout. address txout = addr) outs = None" if "address x = addr"
      using that unfolding find_None_iff by blast
    with Cons.IH [of "Suc n"] Cons.prems show ?case by (cases "address x = addr") (simp_all add: output_point_def coins_def)
  qed
  have "distinct (outputs_of (bi, ti, tx))"
  proof -
    have "inj_on (\<lambda>(j, txout). output_point bi ti j txout) (set (enumerate 0 (txOuts tx)))"
      using assms(2) by (intro inj_onI) (auto simp: output_point_def in_set_enumerate_eq word_of_nat_u64_inject)
    then show ?thesis by (simp add: outputs_of_def distinct_map distinct_enumerate)
  qed
  then have "wealth addr (set (outputs_of (bi, ti, tx)))
      = (\<Sum>p \<leftarrow> filter (\<lambda>p. ptAddress p = Some addr) (outputs_of (bi, ti, tx)). coins p)"
    by (simp add: wealth_def sum_list_distinct_conv_sum_set)
  then show ?thesis using step [OF assms(1), of 0] by (simp add: outputs_of_def credit_def)
qed

lemma wealth_Un: "finite S \<Longrightarrow> finite T \<Longrightarrow> S \<inter> T = {} \<Longrightarrow> wealth addr (S \<union> T) = wealth addr S + wealth addr T"
  unfolding wealth_def by (subst sum.union_disjoint [symmetric]) (auto intro!: sum.cong)

lemma wealth_Diff: "finite S \<Longrightarrow> T \<subseteq> S \<Longrightarrow> wealth addr (S - T) = wealth addr S - wealth addr T"
  using wealth_Un [of "S - T" T addr] by (simp add: finite_subset Un_absorb2 Diff_disjoint inf_commute)

text \<open>The coins a proper transaction takes away are worth what the ledger debits.\<close>

lemma spent_wealth:
  assumes "countable_chain c" and "S \<subseteq> all_outputs c" and "T \<subseteq> all_outputs c" and "S \<inter> T = {}"
    and "proper_tx S tx" and "txIns tx \<noteq> []"
  shows "wealth addr {p \<in> S \<union> T. spends (bi, ti, tx) p} = debit c addr tx
    \<and> (debited c addr tx \<longrightarrow> (\<exists>p \<in> S. ptAddress p = Some addr))"
proof (cases "coinbase_tx tx")
  case True
  then show ?thesis by (simp add: spends_def wealth_def debit_def debited_def)
next
  case False
  with assms(5) obtain owner where dist: "distinct (map (point_id \<circ> txOutPt) (txIns tx))"
      and spent: "\<forall>txin \<in> set (txIns tx). \<exists>p \<in> S. same_point (txOutPt txin) p \<and> ptAddress p = Some owner"
    by (auto simp: proper_tx_def)
  then obtain g where g: "\<And>txin. txin \<in> set (txIns tx) \<Longrightarrow>
      g txin \<in> S \<and> point_id (g txin) = point_id (txOutPt txin) \<and> ptAddress (g txin) = Some owner"
    by (metis same_point_id)
  have inj: "inj_on point_id (S \<union> T)"
    using point_id_inj [OF assms(1)] assms(2,3) by (metis Un_least inj_on_subset)
  have set: "{p \<in> S \<union> T. spends (bi, ti, tx) p} = g ` set (txIns tx)"
    using False g inj by (fastforce simp: spends_def same_point_id dest: inj_onD)
  have amounts: "coins (g txin) = dbl_int (amount (output_at c (txOutPt txin)))
      \<and> address (output_at c (txOutPt txin)) = owner" if "txin \<in> set (txIns tx)" for txin
  proof -
    have "g txin \<in> all_outputs c" using g [OF that] assms(2) by blast
    then obtain it where "it \<in> set (located c)" "g txin \<in> set (outputs_of it)" by (auto simp: all_outputs_def)
    from output_point_at [OF this assms(1)] show ?thesis
      using g [OF that] output_at_id [of "g txin" "txOutPt txin" c] by (simp add: coins_def)
  qed
  have deb: "debited c addr tx \<longleftrightarrow> owner = addr"
    using False amounts [of "hd (txIns tx)"] assms(6) by (simp add: debited_def)
  have "wealth addr (g ` set (txIns tx)) = (if owner = addr then \<Sum>p \<in> g ` set (txIns tx). coins p else 0)"
    unfolding wealth_def using g by (auto intro!: sum.cong sum.neutral)
  also have "(\<Sum>p \<in> g ` set (txIns tx). coins p) = (\<Sum>txin \<leftarrow> txIns tx. coins (g txin))"
    by (rule sum_over_list [of "point_id \<circ> txOutPt" _ point_id]) (use dist g in auto)
  also have "\<dots> = (\<Sum>txin \<leftarrow> txIns tx. dbl_int (amount (output_at c (txOutPt txin))))"
    using amounts by (intro arg_cong [of _ _ sum_list] map_cong) auto
  finally show ?thesis
    using set deb g [of "hd (txIns tx)"] assms(6) by (auto simp: debit_def)
qed

lemma wealth_step:
  assumes "countable_chain c" and "(bi, ti, tx) \<in> set (located c)" and "S \<subseteq> all_outputs c"
    and "S \<inter> set (outputs_of (bi, ti, tx)) = {}" and "proper_tx S tx" and "wf_transaction tx"
  shows "wealth addr (coin_step S (bi, ti, tx)) = wealth addr S + credit addr tx - debit c addr tx"
proof -
  let ?T = "set (outputs_of (bi, ti, tx))" and ?D = "{p \<in> S \<union> set (outputs_of (bi, ti, tx)). spends (bi, ti, tx) p}"
  have fin: "finite S" using assms(3) finite_outputs by (rule finite_subset)
  have T: "?T \<subseteq> all_outputs c" using assms(2) by (auto simp: all_outputs_def)
  have "length (txOuts tx) < 2 ^ 64" using assms(2,1) by (rule located_short)
  then have made: "wealth addr ?T = credit addr tx"
    using assms(5) by (simp add: made_wealth proper_tx_def)
  have D: "?D \<subseteq> S \<union> ?T" by auto
  have "coin_step S (bi, ti, tx) = (S \<union> ?T) - ?D" by (auto simp: coin_step_def)
  then have "wealth addr (coin_step S (bi, ti, tx)) = wealth addr S + wealth addr ?T - wealth addr ?D"
    using wealth_Diff [OF _ D, of addr] wealth_Un [OF fin _ assms(4), of addr] fin by simp
  moreover have "txIns tx \<noteq> []" using assms(6) by (simp add: wf_transaction_def)
  ultimately show ?thesis
    using spent_wealth [OF assms(1,3) T assms(4,5)] by (simp add: made)
qed

lemma snd_located: "map (snd \<circ> snd) (located c) = concat (map transactions (blocks c))"
proof -
  have "map (\<lambda>p. snd (snd (case p of (ti, tx) \<Rightarrow> (i, word_of_nat ti :: u64, tx)))) (enumerate n xs) = xs"
    for i :: u64 and n and xs :: "transaction list"
    by (induction xs arbitrary: n) simp_all
  then show ?thesis by (simp add: located_def map_concat o_def)
qed

lemma wealth_of_prefix:
  assumes "countable_chain c" and "proper_txs (located c)" and "wf_chain c" and "k \<le> length (located c)"
  shows "wealth addr (coin_set (take k (located c)))
    = (\<Sum>it \<leftarrow> take k (located c). credit addr (snd (snd it)) - debit c addr (snd (snd it)))"
  using assms(4)
proof (induction k)
  case 0
  then show ?case by (simp add: coin_set_def wealth_def)
next
  case (Suc k)
  obtain bi ti tx where it: "located c ! k = (bi, ti, tx)" by (cases "located c ! k")
  then have in_c: "(bi, ti, tx) \<in> set (located c)" using Suc.prems by (metis Suc_le_lessD nth_mem)
  then have "wf_transaction tx" using assms(3) by (auto simp: wf_chain_located)
  moreover have "proper_tx (coin_set (take k (located c))) tx"
    using assms(2) [unfolded proper_txs_def, rule_format, of k] Suc.prems it by simp
  ultimately have "wealth addr (coin_step (coin_set (take k (located c))) (bi, ti, tx))
      = wealth addr (coin_set (take k (located c))) + credit addr tx - debit c addr tx"
    using wealth_step [OF assms(1) in_c coin_set_outputs] fresh_outputs [OF assms(1), of k] Suc.prems it by simp
  with Suc it show ?case by (simp add: take_Suc_conv_app_nth coin_set_snoc)
qed

lemma debited_after_credited:
  assumes "countable_chain c" and "proper_txs (located c)" and "wf_chain c" and "k < length (located c)"
    and "debited c addr (snd (snd (located c ! k)))"
  shows "\<exists>j < k. credited addr (snd (snd (located c ! j)))"
proof -
  obtain bi ti tx where it: "located c ! k = (bi, ti, tx)" by (cases "located c ! k")
  have in_c: "(bi, ti, tx) \<in> set (located c)" using assms(4) it by (metis nth_mem)
  then have "wf_transaction tx" using assms(3) by (auto simp: wf_chain_located)
  then have "txIns tx \<noteq> []" by (simp add: wf_transaction_def)
  moreover have "proper_tx (coin_set (take k (located c))) tx"
    using assms(2) [unfolded proper_txs_def, rule_format, of k] assms(4) it by simp
  moreover have "set (outputs_of (bi, ti, tx)) \<subseteq> all_outputs c" using in_c by (auto simp: all_outputs_def)
  ultimately obtain p where p: "p \<in> coin_set (take k (located c))" "ptAddress p = Some addr"
    using spent_wealth [OF assms(1) coin_set_outputs [of k], where tx = tx and bi = bi and ti = ti and addr = addr
        and T = "set (outputs_of (bi, ti, tx))"] fresh_outputs [OF assms(1,4)] assms(5) it by auto
  then obtain j where j: "j < k" "p \<in> set (outputs_of (located c ! j))"
    using assms(4) by (force simp: coin_set_eq unspent_in_def)
  with p(2) have "credited addr (snd (snd (located c ! j)))"
    by (auto simp: credited_def outputs_of_def output_point_def in_set_enumerate_eq split_def)
  with j(1) show ?thesis by blast
qed

section \<open>The code refines the ledger\<close>

text \<open>\<open>C11\<close>: appending a block acts on the unspent outputs as the abstract ledger does: the set computed
  for the longer chain is the set for the shorter one with each transaction's outputs added and the
  coins it spends removed, in order.\<close>

theorem unspent_refines_coins:
  assumes "wf_chain (c\<lparr>blocks := blocks c @ [b]\<rparr>)"
    and "inj_on (point_key L) (all_outputs (c\<lparr>blocks := blocks c @ [b]\<rparr>))"
  shows "\<exists>outs outs'. GetUnspentTxOuts L c [] = Inr outs
    \<and> GetUnspentTxOuts L (c\<lparr>blocks := blocks c @ [b]\<rparr>) [] = Inr outs'
    \<and> set outs' = foldl coin_step (set outs)
        (map (\<lambda>(ti, tx). (index b, word_of_nat ti, tx)) (enumerate 0 (transactions b)))"
proof -
  let ?c = "c\<lparr>blocks := blocks c @ [b]\<rparr>"
  let ?new = "map (\<lambda>(ti, tx). (index b, word_of_nat ti, tx)) (enumerate 0 (transactions b))"
  have loc: "located ?c = located c @ ?new" by (simp add: located_def)
  have unspent: "\<exists>outs. GetUnspentTxOuts L d [] = Inr outs \<and> set outs = coin_set (located d)"
    if "wf_chain d" "inj_on (point_key L) (all_outputs d)" for d
    using unspent_loop [of L "located d" "[]"] that
    by (auto simp: GetUnspentTxOuts_located all_outputs_def wf_chain_located wanted_def coin_set_eq)
  have "wf_chain c" using assms(1) by (simp add: wf_chain_def)
  moreover have "inj_on (point_key L) (all_outputs c)"
    using assms(2) by (rule inj_on_subset) (auto simp: all_outputs_def loc)
  ultimately obtain outs outs' where "GetUnspentTxOuts L c [] = Inr outs" "set outs = coin_set (located c)"
      "GetUnspentTxOuts L ?c [] = Inr outs'" "set outs' = coin_set (located ?c)"
    using unspent [of c] unspent [OF assms] by auto
  then show ?thesis by (simp add: loc coin_set_def)
qed

text \<open>\<open>C10\<close>: the balance that is shown and the outputs that can be spent agree on whole amounts. Take a chain in
  which every transaction spends coins that are there, none twice and all of one owner, and pays no address
  twice (\<open>proper_txs\<close>); in which all amounts are whole numbers (\<open>sound_tx\<close>); and in which less than \<open>2 ^ 53\<close> coins
  are moved to and from an address, which is not the empty one. If the hashes of outputs do not collide,
  \<open>GetAddressBalance\<close>, which adds up a ledger of doubles, returns for it exactly the sum of the outputs that
  \<open>GetUnspentTxOuts\<close> finds in its ordered set. (Amounts with a fraction are rounded at every addition: for
  them the two may differ.)\<close>

theorem balance_is_unspent_total:
  assumes "countable_chain c" and "\<forall>tx \<in> set (concat (map transactions (blocks c))). sound_tx c tx"
    and "proper_txs (located c)" and "inj_on (point_key L) (all_outputs c)" and "addr \<noteq> []"
    and "(\<Sum>tx \<leftarrow> concat (map transactions (blocks c)). turnover c addr tx) < 2 ^ 53"
  shows "\<exists>outs. GetUnspentTxOuts L c addr = Inr outs
    \<and> GetAddressBalance c addr = Inr (dbl_of_int (\<Sum>u \<leftarrow> outs. coins u))"
proof -
  let ?txs = "concat (map transactions (blocks c))"
  have wf: "wf_chain c" using assms(2) by (auto simp: wf_chain_def sound_tx_def)
  have nth: "?txs ! k = snd (snd (located c ! k))"
    if "k < length (located c)" for k
    using that arg_cong [OF snd_located [of c], of "\<lambda>xs. xs ! k"] by simp
  have len: "length ?txs = length (located c)"
    using arg_cong [OF snd_located [of c], of length] by simp
  obtain outs where outs: "GetUnspentTxOuts L c addr = Inr outs" "key_sorted L outs"
      "set outs = {p \<in> coin_set (located c). ptAddress p = Some addr}"
    using unspent_loop [of L "located c" addr] assms(4,5) wf
    by (auto simp: GetUnspentTxOuts_located all_outputs_def wf_chain_located wanted_def coin_set_eq)
  have "distinct us" if "key_sorted L us" for us
    using that by (induction us) fastforce+
  then have "distinct outs" using outs(2) by blast
  then have "(\<Sum>u \<leftarrow> outs. coins u) = wealth addr (coin_set (located c))"
    by (simp add: sum_list_distinct_conv_sum_set wealth_def outs(3))
  also have "\<dots> = (\<Sum>it \<leftarrow> located c. credit addr (snd (snd it)) - debit c addr (snd (snd it)))"
    using wealth_of_prefix [OF assms(1,3) wf order_refl] by simp
  also have "\<dots> = (\<Sum>tx \<leftarrow> map (snd \<circ> snd) (located c). credit addr tx) - (\<Sum>tx \<leftarrow> map (snd \<circ> snd) (located c). debit c addr tx)"
    by (simp add: sum_list_subtractf o_def)
  finally have total: "(\<Sum>u \<leftarrow> outs. coins u) = (\<Sum>tx \<leftarrow> ?txs. credit addr tx) - (\<Sum>tx \<leftarrow> ?txs. debit c addr tx)"
    by (simp add: snd_located)
  have "\<exists>j \<le> k. credited addr (?txs ! j)" if inside: "k < length ?txs" and deb: "debited c addr (?txs ! k)" for k
  proof -
    have k: "k < length (located c)" using inside by (simp only: len)
    then obtain j where "j < k" "credited addr (snd (snd (located c ! j)))"
      using debited_after_credited [OF assms(1,3) wf k] deb by (auto simp: nth)
    with k show ?thesis by (intro exI [of _ j]) (simp add: nth)
  qed
  with assms(1,2,6) have "GetAddressBalance c addr = Inr (dbl_of_int (\<Sum>u \<leftarrow> outs. coins u))"
    unfolding total by (intro GetAddressBalance_whole) (simp_all add: countable_chain_def)
  with outs(1) show ?thesis by blast
qed

section \<open>Witnesses\<close>

lemma demo_countable: "countable_chain demo_chain"
  by (simp add: countable_chain_def indexed_blocks_def less_Suc_eq)

lemma demo_proper: "proper_txs (located demo_chain)"
proof -
  have alice: "output_point 0 0 0 \<lparr>address = ''alice'', amount = dbl_of_nat 57\<rparr> \<in> coin_set (take 2 (located demo_chain))"
    by (simp add: demo_located coin_set_def coin_step_def outputs_of_def spends_def)
  have "proper_tx S (CreateCoinbaseTransaction demo_lib b a)" for S b a
    by (simp add: proper_tx_def)
  moreover have "proper_tx (coin_set (take 2 (located demo_chain))) demo_payment"
    using alice by (auto simp: proper_tx_def same_point_def output_point_def intro!: exI [of _ "''alice''"] bexI [OF _ alice])
  ultimately show ?thesis
    by (simp add: proper_txs_def demo_located less_Suc_eq all_conj_distrib numeral_eq_Suc)
qed

lemma demo_sound: "\<forall>tx \<in> set (concat (map transactions (blocks demo_chain))). sound_tx demo_chain tx"
  by (simp add: sound_tx_def in_range_def output_at_def)

theorem unspent_refines_coins_witness:
  "\<exists>outs outs'. GetUnspentTxOuts demo_lib (demo_chain\<lparr>blocks := [demo_genesis]\<rparr>) [] = Inr outs
     \<and> GetUnspentTxOuts demo_lib demo_chain [] = Inr outs'
     \<and> set outs' = foldl coin_step (set outs)
         (map (\<lambda>(ti, tx). (index demo_block, word_of_nat ti, tx)) (enumerate 0 (transactions demo_block)))"
  using unspent_refines_coins [of "demo_chain\<lparr>blocks := [demo_genesis]\<rparr>" demo_block demo_lib]
    demo_wf_chain demo_inj_key by (simp add: demo_chain_def)

theorem balance_is_unspent_total_witness:
  "GetAddressBalance demo_chain ''alice'' = Inr (dbl_of_int 47)"
proof -
  have out: "output_at demo_chain (make_point 0 0 0) = \<lparr>address = ''alice'', amount = dbl_of_nat 57\<rparr>"
    by (simp add: output_at_def)
  have "(\<Sum>tx \<leftarrow> concat (map transactions (blocks demo_chain)). turnover demo_chain ''alice'' tx) < 2 ^ 53"
    by (simp add: turnover_def credit_def debited_def out)
  then obtain outs where "GetUnspentTxOuts demo_lib demo_chain ''alice'' = Inr outs"
      "GetAddressBalance demo_chain ''alice'' = Inr (dbl_of_int (\<Sum>u \<leftarrow> outs. coins u))"
    using balance_is_unspent_total [OF demo_countable demo_sound demo_proper demo_inj_key, of "''alice''"] by auto
  moreover have "GetUnspentTxOuts demo_lib demo_chain ''alice'' = Inr
      [output_point 1 1 1 \<lparr>address = ''alice'', amount = dbl_of_nat 47\<rparr>]"
    by (simp add: GetUnspentTxOuts_located demo_located unspent_step_eq outputs_of_def wanted_def
        output_point_def point_key_def same_point_def word_less_def)
  ultimately show ?thesis by (auto simp: output_point_def coins_def)
qed

end
