(* ===== verification/Wallet.thy ===== *)
theory Wallet
  imports Coins Mining
begin

text \<open>
  A wallet at work: \<open>CreateTransaction\<close>, the queue, \<open>createUnminedBlock\<close> and the miner together. One
  payment per block keeps the chain proper in the sense of \<open>Coins\<close>; two payments between two blocks
  do not, because \<open>CreateTransaction\<close> does not look at the queue.
\<close>

section \<open>What \<open>CreateTransaction\<close> reads and makes\<close>

lemma GetUnspentTxOuts_queue: "GetUnspentTxOuts L (c\<lparr>txQueue := q\<rparr>) addr = GetUnspentTxOuts L c addr"
  by (simp add: GetUnspentTxOuts_def)

lemma CreateTransaction_queue:
  "CreateTransaction L (c\<lparr>txQueue := q\<rparr>) key receiver amt = CreateTransaction L c key receiver amt"
  by (simp only: CreateTransaction_def GetUnspentTxOuts_queue)

lemma select_outs_prefix:
  assumes "select_outs amt us cur left inc = Inr (cur', left', inc')"
  shows "\<exists>n. inc' = inc @ take n us \<and> (us \<noteq> [] \<longrightarrow> 0 < n)"
  using assms
proof (induction us arbitrary: cur inc)
  case Nil
  then show ?case by simp
next
  case (Cons u us)
  obtain x where x: "ptAmount u = Some x" using Cons.prems by (auto split: option.splits)
  show ?case
  proof (cases "dbl_le amt (dbl_add cur x)")
    case True
    with Cons.prems x have "inc' = inc @ take 1 (u # us)" by (simp add: Let_def)
    then show ?thesis by blast
  next
    case False
    with Cons.prems x have "select_outs amt us (dbl_add cur x) left (inc @ [u]) = Inr (cur', left', inc')"
      by (simp add: Let_def)
    from Cons.IH [OF this] obtain n where "inc' = (inc @ [u]) @ take n us" by blast
    then have "inc' = inc @ take (Suc n) (u # us)" by simp
    then show ?thesis by blast
  qed
qed

lemma CreateTransaction_shape:
  assumes "CreateTransaction L c key receiver amt = Inr (SUCCESS, tx)"
  shows "\<exists>outs n rest. GetUnspentTxOuts L c (GetAddressFromPrivateKey L key) = Inr outs \<and> outs \<noteq> [] \<and> 0 < n
    \<and> txIns tx = map (\<lambda>u. make_tx_in (blockIndex u) (txIndex u) (txOutIndex u) ''signature'') (take n outs)
    \<and> txOuts tx = \<lparr>address = receiver, amount = amt\<rparr> # rest
    \<and> (rest = [] \<or> (\<exists>x. rest = [\<lparr>address = GetAddressFromPrivateKey L key, amount = x\<rparr>]))
    \<and> \<not> iequals L receiver (GetAddressFromPrivateKey L key)"
proof -
  let ?s = "GetAddressFromPrivateKey L key"
  have ne: "\<not> iequals L receiver ?s" using assms by (auto simp: CreateTransaction_def Let_def)
  then obtain outs where outs: "GetUnspentTxOuts L c ?s = Inr outs" "outs \<noteq> []"
    using assms by (auto simp: CreateTransaction_def Let_def bindE_eq_Inr split: if_splits)
  then obtain cur left inc where sel: "select_outs amt outs dbl_zero dbl_zero [] = Inr (cur, left, inc)"
    using assms ne by (auto simp: CreateTransaction_def Let_def bindE_eq_Inr)
  then obtain n where n: "inc = take n outs" "0 < n" using select_outs_prefix [OF sel] outs(2) by auto
  have "tx = \<lparr>txId = [], txIns = map (\<lambda>u. make_tx_in (blockIndex u) (txIndex u) (txOutIndex u) ''signature'') inc,
      txOuts = \<lparr>address = receiver, amount = amt\<rparr>
        # (if dbl_less dbl_zero left then [\<lparr>address = ?s, amount = left\<rparr>] else [])\<rparr>"
    using assms ne outs sel by (simp add: CreateTransaction_def Let_def split: if_splits)
  with outs n ne show ?thesis by auto
qed

lemma first_input:
  assumes "CreateTransaction L c key receiver amt = Inr (SUCCESS, tx)"
  shows "\<exists>u outs. GetUnspentTxOuts L c (GetAddressFromPrivateKey L key) = Inr (u # outs) \<and> txIns tx \<noteq> []
    \<and> hd (txIns tx) = make_tx_in (blockIndex u) (txIndex u) (txOutIndex u) ''signature''"
proof -
  obtain outs n where o: "GetUnspentTxOuts L c (GetAddressFromPrivateKey L key) = Inr outs" "outs \<noteq> []" "0 < n"
      "txIns tx = map (\<lambda>u. make_tx_in (blockIndex u) (txIndex u) (txOutIndex u) ''signature'') (take n outs)"
    using CreateTransaction_shape [OF assms] by blast
  obtain u us where "outs = u # us" using o(2) by (cases outs) auto
  with o show ?thesis by (cases n) auto
qed

section \<open>One payment per block\<close>

lemma unspent_listed:
  assumes "wf_chain c" and "inj_on (point_key L) (all_outputs c)"
  shows "\<exists>outs. GetUnspentTxOuts L c addr = Inr outs \<and> distinct outs
    \<and> set outs = {p \<in> coin_set (located c). wanted addr p}"
proof -
  have "\<exists>outs. GetUnspentTxOuts L c addr = Inr outs \<and> key_sorted L outs
      \<and> set outs = {p. wanted addr p \<and> unspent_in (located c) p}"
    using unspent_loop [of L "located c" addr] assms
    by (auto simp: GetUnspentTxOuts_located all_outputs_def wf_chain_located)
  moreover have "distinct us" if "key_sorted L us" for us
    using that by (induction us) fastforce+
  ultimately show ?thesis by (auto simp: coin_set_eq)
qed

lemma GetUnspentTxOuts_coins:
  assumes "wf_chain c" and "inj_on (point_key L) (all_outputs c)" and "addr \<noteq> []"
    and "GetUnspentTxOuts L c addr = Inr outs"
  shows "distinct outs \<and> set outs = {p \<in> coin_set (located c). ptAddress p = Some addr}"
  using unspent_listed [OF assms(1,2), of addr] assms(3,4) by (auto simp: wanted_def)

lemma created_proper:
  assumes "wf_chain c" and "inj_on (point_key L) (all_outputs c)" and "\<forall>s. iequals L s s"
    and "CreateTransaction L c key receiver amt = Inr (SUCCESS, tx)"
  shows "proper_tx (coin_set (located c)) tx"
proof -
  let ?s = "GetAddressFromPrivateKey L key"
  have "?s \<noteq> []" by (subst address_starts_with_1) simp
  obtain outs n rest where o: "GetUnspentTxOuts L c ?s = Inr outs"
      "txIns tx = map (\<lambda>u. make_tx_in (blockIndex u) (txIndex u) (txOutIndex u) ''signature'') (take n outs)"
      "txOuts tx = \<lparr>address = receiver, amount = amt\<rparr> # rest"
      "rest = [] \<or> (\<exists>x. rest = [\<lparr>address = ?s, amount = x\<rparr>])" "\<not> iequals L receiver ?s"
    using CreateTransaction_shape [OF assms(4)] by blast
  have outs: "distinct outs" "set outs = {p \<in> coin_set (located c). ptAddress p = Some ?s}"
    using GetUnspentTxOuts_coins [OF assms(1,2) \<open>?s \<noteq> []\<close> o(1)] by auto
  have same: "point_id (make_point (blockIndex u) (txIndex u) (txOutIndex u)) = point_id u" for u
    by (simp add: point_id_def)
  have "set outs \<subseteq> all_outputs c" using outs(2) coin_set_outputs [of "length (located c)" c] by auto
  then have "inj_on (point_key L) (set (take n outs))"
    using assms(2) set_take_subset [of n outs] by (meson inj_on_subset)
  then have "inj_on point_id (set (take n outs))"
    by (auto simp: inj_on_def point_id_def point_key_def)
  then have "distinct (map (point_id \<circ> txOutPt) (txIns tx))"
    using outs(1) by (simp add: o(2) o_def same distinct_map)
  moreover have "\<forall>txin \<in> set (txIns tx). \<exists>p \<in> coin_set (located c). same_point (txOutPt txin) p \<and> ptAddress p = Some ?s"
    using outs(2) set_take_subset [of n outs] by (auto simp: o(2) same_point_def)
  moreover have "distinct (map address (txOuts tx))" using o(3-5) assms(3) by auto
  ultimately show ?thesis by (auto simp: proper_tx_def)
qed

text \<open>Each unspent output that is listed is one of the chain, and an input made for it names it.\<close>

lemma listed_output:
  assumes "countable_chain c" and "u \<in> coin_set (located c)"
  shows "output_at c (make_point (blockIndex u) (txIndex u) (txOutIndex u)) = output_at c u"
    and "coins u = dbl_int (amount (output_at c u))"
proof -
  show "output_at c (make_point (blockIndex u) (txIndex u) (txOutIndex u)) = output_at c u"
    by (rule output_at_id) (simp add: point_id_def)
  have "u \<in> all_outputs c" using assms(2) coin_set_outputs [of "length (located c)" c] by auto
  then obtain it where "it \<in> set (located c)" "u \<in> set (outputs_of it)" by (auto simp: all_outputs_def)
  from output_point_at [OF this assms(1)] show "coins u = dbl_int (amount (output_at c u))" by (simp add: coins_def)
qed

text \<open>\<open>C20\<close>: a payment neither makes nor loses coins. With whole amounts below \<open>2^53\<close>, in a chain whose blocks
  sit at their indices and without collisions of the hashes of outputs, every input of the new transaction
  names an output of the chain that is unspent and the sender's, no two name the same one, and the outputs
  of the transaction sum to the amounts, looked up in the chain, of the outputs that the inputs name.\<close>

theorem CreateTransaction_conserves:
  assumes "countable_chain c" and "wf_chain c" and "inj_on (point_key L) (all_outputs c)"
    and "sender = GetAddressFromPrivateKey L key" and "GetUnspentTxOuts L c sender = Inr us"
    and "\<forall>u \<in> set us. whole_coins u" and "integral amt" and "\<bar>dbl_int amt\<bar> + (\<Sum>u \<leftarrow> us. \<bar>coins u\<bar>) < 2 ^ 53"
    and "CreateTransaction L c key receiver amt = Inr (SUCCESS, tx)"
  shows "(\<Sum>txout \<leftarrow> txOuts tx. dbl_int (amount txout)) = (\<Sum>txin \<leftarrow> txIns tx. dbl_int (amount (output_at c (txOutPt txin))))
    \<and> distinct (map (point_id \<circ> txOutPt) (txIns tx))
    \<and> (\<forall>txin \<in> set (txIns tx). \<exists>p \<in> coin_set (located c). same_point (txOutPt txin) p \<and> ptAddress p = Some sender)"
proof -
  have "sender \<noteq> []" unfolding assms(4) by (subst address_starts_with_1) simp
  then have us: "distinct us" "set us = {p \<in> coin_set (located c). ptAddress p = Some sender}"
    using GetUnspentTxOuts_coins [OF assms(2,3) _ assms(5)] by auto
  obtain n change where n: "change = (\<Sum>u \<leftarrow> take n us. coins u) - dbl_int amt" "0 \<le> change" "change < 2 ^ 53"
      "tx = spend_tx (take n us) receiver amt sender change"
    using CreateTransaction_spends [OF assms(5) [unfolded assms(4)] assms(6-9)] assms(4) by metis
  have ins: "txIns tx = map (\<lambda>u. make_tx_in (blockIndex u) (txIndex u) (txOutIndex u) ''signature'') (take n us)"
    by (simp add: n(4) spend_tx_def)
  have used: "u \<in> coin_set (located c) \<and> ptAddress u = Some sender" if "u \<in> set (take n us)" for u
    using in_set_takeD [OF that] us(2) by simp
  have "dbl_int (amount (output_at c (make_point (blockIndex u) (txIndex u) (txOutIndex u)))) = coins u"
    if "u \<in> set (take n us)" for u
    using listed_output [OF assms(1), of u] used [OF that] by simp
  then have "(\<Sum>txin \<leftarrow> txIns tx. dbl_int (amount (output_at c (txOutPt txin)))) = (\<Sum>u \<leftarrow> take n us. coins u)"
    unfolding ins map_map by (intro arg_cong [of _ _ sum_list] map_cong refl) (simp only: o_apply make_tx_in_point)
  moreover have "(\<Sum>txout \<leftarrow> txOuts tx. dbl_int (amount txout)) = (\<Sum>u \<leftarrow> take n us. coins u)"
    using n by (simp add: spend_tx_sums)
  moreover have "inj_on point_id (set (take n us))"
  proof (rule inj_on_subset [OF point_id_inj [OF assms(1)]])
    show "set (take n us) \<subseteq> all_outputs c" using used coin_set_outputs [of "length (located c)" c] by auto
  qed
  then have "distinct (map (point_id \<circ> txOutPt) (txIns tx))"
    using us(1) by (simp add: ins o_def point_id_def distinct_map inj_on_def)
  moreover have "\<exists>p \<in> coin_set (located c). same_point (txOutPt txin) p \<and> ptAddress p = Some sender"
    if txin: "txin \<in> set (txIns tx)" for txin
  proof -
    obtain u where "u \<in> set (take n us)" "txOutPt txin = make_point (blockIndex u) (txIndex u) (txOutIndex u)"
      using txin by (auto simp: ins)
    with used [of u] show ?thesis by (intro bexI [of _ u]) (simp_all add: same_point_def)
  qed
  ultimately show ?thesis by simp
qed

lemma proper_txs_snoc: "proper_txs (txs @ [it]) \<longleftrightarrow> proper_txs txs \<and> proper_tx (coin_set txs) (snd (snd it))"
  by (auto simp: proper_txs_def nth_append less_Suc_eq)

lemma proper_tx_mono: "proper_tx S tx \<Longrightarrow> S \<subseteq> T \<Longrightarrow> proper_tx T tx"
  by (auto simp: proper_tx_def) blast

text \<open>A block that is made of the queue and mined is accepted, with the reward in front.\<close>

lemma mined_round:
  assumes "isValidChain L c = Inr True" and "blocks c \<noteq> []" and "index (hd (blocks c)) = 0"
    and "createUnminedBlock L now w (c\<lparr>txQueue := q\<rparr>) = Inr (b, c1)"
    and "mineBlock L env fuel m b = Inr (Some (MINED, b'))" and "\<forall>k. stopped env k \<longrightarrow> stoppedEnd env k"
  shows "\<exists>c2. addNewBlock L b' c1 = Inr (True, c2) \<and> isValidChain L c2 = Inr True
    \<and> blocks c2 = blocks c @ [b'] \<and> txQueue c2 = [] \<and> index b' = word_of_nat (length (blocks c))
    \<and> transactions b' = CreateCoinbaseTransaction L (index b') w # map (calcuateId L (index b')) q"
proof -
  have "isValidChain L (c\<lparr>txQueue := q\<rparr>) = Inr True" using assms(1) by (simp add: isValidChain_eq)
  from mined_block_extends [OF this _ _ assms(4-6)] assms(2-4) show ?thesis
    by (intro exI [of _ "c1\<lparr>blocks := blocks c @ [b']\<rparr>"]) (auto simp: createUnminedBlock_eq chain_size_def)
qed

lemma queueTransaction_empty: "txQueue c = [] \<Longrightarrow> queueTransaction tx c = c\<lparr>txQueue := [tx]\<rparr>"
  by (simp add: queueTransaction_def)

lemma located_round:
  "blocks c2 = blocks c @ [b] \<Longrightarrow>
   located c2 = located c @ map (\<lambda>(ti, tx). (index b, word_of_nat ti, tx)) (enumerate 0 (transactions b))"
  by (simp add: located_def)

lemma reward_proper:
  "proper_tx S (CreateCoinbaseTransaction L i w)" "coin_set txs \<subseteq> coin_set (txs @ [(i, t, CreateCoinbaseTransaction L i w)])"
  by (auto simp: proper_tx_def coin_set_snoc coin_step_def spends_def)

text \<open>The reward and a payment that was made before.\<close>

lemma payment_proper:
  assumes "wf_chain c" and "inj_on (point_key L) (all_outputs c)" and "proper_txs (located c)" and "\<forall>s. iequals L s s"
    and "CreateTransaction L c key receiver amt = Inr (SUCCESS, tx)"
  shows "proper_txs (located c @ [(i, 0, CreateCoinbaseTransaction L i w), (i, 1, calcuateId L i tx)])"
proof -
  let ?txs = "located c @ [(i, 0, CreateCoinbaseTransaction L i w)]"
  have "proper_tx (coin_set ?txs) tx"
    using created_proper [OF assms(1,2,4,5)] reward_proper(2) by (rule proper_tx_mono)
  then have "proper_tx (coin_set ?txs) (calcuateId L i tx)" by (simp add: proper_tx_def coinbase_tx_def)
  with assms(3) reward_proper(1) have "proper_txs (?txs @ [(i, 1, calcuateId L i tx)])"
    by (simp only: proper_txs_snoc snd_conv simp_thms)
  then show ?thesis by simp
qed

text \<open>\<open>C12\<close>: one payment per block keeps the ledger sound. If every transaction so far is proper, the queue
  is empty, and a payment is created, queued, put into a block and mined, then the chain accepts the
  block and every transaction is proper still: the payment spends coins that are there, none
  twice, all of the sender.\<close>

theorem payment_keeps_proper:
  assumes "isValidChain L c = Inr True" and "blocks c \<noteq> []" and "index (hd (blocks c)) = 0" and "txQueue c = []"
    and "wf_chain c" and "inj_on (point_key L) (all_outputs c)" and "proper_txs (located c)" and "\<forall>s. iequals L s s"
    and "CreateTransaction L c key receiver amt = Inr (SUCCESS, tx)"
    and "createUnminedBlock L now w (queueTransaction tx c) = Inr (b, c1)"
    and "mineBlock L env fuel m b = Inr (Some (MINED, b'))" and "\<forall>k. stopped env k \<longrightarrow> stoppedEnd env k"
  shows "\<exists>c2. addNewBlock L b' c1 = Inr (True, c2) \<and> isValidChain L c2 = Inr True
    \<and> blocks c2 = blocks c @ [b'] \<and> txQueue c2 = [] \<and> proper_txs (located c2)"
proof -
  obtain c2 where c2: "addNewBlock L b' c1 = Inr (True, c2)" "isValidChain L c2 = Inr True" "blocks c2 = blocks c @ [b']"
      "txQueue c2 = []" "transactions b' = [CreateCoinbaseTransaction L (index b') w, calcuateId L (index b') tx]"
    using mined_round [OF assms(1-3) assms(10) [unfolded queueTransaction_empty [OF assms(4)]] assms(11,12)] by auto
  with payment_proper [OF assms(5-9), of "index b'" w] show ?thesis by (auto simp: located_round)
qed

section \<open>Two payments per block\<close>

text \<open>\<open>C13\<close>: double spending. \<open>CreateTransaction\<close> looks for unspent outputs in the blocks and not in the
  queue, so two payments of one sender that are requested before the next block spend the same
  output first; both enter the block, in order, the block can be mined, the chain accepts it and
  counts as valid, and the ledger is no longer proper.\<close>

theorem double_spend_mined:
  assumes "isValidChain L c = Inr True" and "blocks c \<noteq> []" and "index (hd (blocks c)) = 0" and "txQueue c = []"
    and "CreateTransaction L c key r1 a1 = Inr (SUCCESS, tx1)"
    and "CreateTransaction L (queueTransaction tx1 c) key r2 a2 = Inr (SUCCESS, tx2)"
    and "createUnminedBlock L now w (queueTransaction tx2 (queueTransaction tx1 c)) = Inr (b, c1)"
    and "mineBlock L env fuel m b = Inr (Some (MINED, b'))" and "\<forall>k. stopped env k \<longrightarrow> stoppedEnd env k"
  shows "\<exists>c2. addNewBlock L b' c1 = Inr (True, c2) \<and> isValidChain L c2 = Inr True \<and> blocks c2 = blocks c @ [b']
    \<and> map txIns (tl (transactions b')) = [txIns tx1, txIns tx2]
    \<and> txIns tx1 \<noteq> [] \<and> txIns tx2 \<noteq> [] \<and> hd (txIns tx1) = hd (txIns tx2)
    \<and> (\<not> coinbase_tx tx1 \<longrightarrow> \<not> proper_txs (located c2))"
proof -
  have queue: "queueTransaction tx2 (queueTransaction tx1 c) = c\<lparr>txQueue := [tx1, tx2]\<rparr>"
    using assms(4) by (simp add: queueTransaction_def)
  obtain c2 where c2: "addNewBlock L b' c1 = Inr (True, c2)" "isValidChain L c2 = Inr True" "blocks c2 = blocks c @ [b']"
      "transactions b' = CreateCoinbaseTransaction L (index b') w # map (calcuateId L (index b')) [tx1, tx2]"
    using mined_round [OF assms(1-3) assms(7) [unfolded queue] assms(8,9)] by blast
  define i cb where "i = index b'" and "cb = CreateCoinbaseTransaction L i w"
  have txs: "transactions b' = [cb, calcuateId L i tx1, calcuateId L i tx2]" using c2(4) by (simp add: i_def cb_def)
  have second: "CreateTransaction L c key r2 a2 = Inr (SUCCESS, tx2)"
    using assms(6) by (simp add: queueTransaction_def CreateTransaction_queue)
  have ins: "txIns tx1 \<noteq> []" "txIns tx2 \<noteq> []" "hd (txIns tx1) = hd (txIns tx2)"
    using first_input [OF assms(5)] first_input [OF second] by auto
  have loc: "located c2 = (located c @ [(i, 0, cb), (i, 1, calcuateId L i tx1)]) @ [(i, 2, calcuateId L i tx2)]"
    by (simp add: located_round [OF c2(3)] txs i_def numeral_eq_Suc)
  have "\<not> proper_txs (located c2)" if reg: "\<not> coinbase_tx tx1"
  proof -
    let ?S = "coin_set (located c @ [(i, 0, cb), (i, 1, calcuateId L (i) tx1)])"
    have "?S = coin_step (coin_set (located c @ [(i, 0, cb)])) (i, 1, calcuateId L (i) tx1)"
      by (simp add: coin_set_def)
    moreover have "spends (i, 1, calcuateId L (i) tx1) p" if "same_point (txOutPt (hd (txIns tx1))) p" for p
      using that reg ins(1) by (auto simp: spends_def coinbase_tx_def intro!: bexI [of _ "hd (txIns tx1)"])
    ultimately have "\<not> same_point (txOutPt (hd (txIns tx2))) p" if "p \<in> ?S" for p
      using that ins(3) by (auto simp: coin_step_def)
    moreover have "coinbase_tx tx2 \<longleftrightarrow> coinbase_tx tx1"
      using ins by (cases "txIns tx1"; cases "txIns tx2") (simp_all add: coinbase_tx_def)
    ultimately have "\<not> proper_tx ?S tx2"
      using reg hd_in_set [OF ins(2)] unfolding proper_tx_def by blast
    then have "\<not> proper_tx ?S (calcuateId L (i) tx2)"
      by (simp add: proper_tx_def coinbase_tx_def)
    then show ?thesis unfolding loc by (simp only: proper_txs_snoc snd_conv simp_thms)
  qed
  with c2(1-3) ins txs show ?thesis by auto
qed

section \<open>Witnesses\<close>

text \<open>The owner of the key \<open>k\<close>, with the one reward of \<open>demo_funds\<close>, pays bob.\<close>

lemma demo_funds_simps [simp]:
  "blocks demo_funds = [new_block demo_lib 0 0 [] [CreateCoinbaseTransaction demo_lib 0 demo_sender]]"
  "txQueue demo_funds = []"
  by (simp_all add: demo_funds_def empty_blockchain_def)

lemma demo_funds_located: "located demo_funds = [(0, 0, CreateCoinbaseTransaction demo_lib 0 demo_sender)]"
  by (simp add: located_def)

lemma demo_funds_proper: "proper_txs (located demo_funds)" "wf_chain demo_funds"
    "inj_on (point_key demo_lib) (all_outputs demo_funds)"
  by (simp_all add: demo_funds_located proper_txs_def proper_tx_def wf_chain_def all_outputs_def outputs_of_def)

theorem CreateTransaction_conserves_witness:
  "\<exists>tx. CreateTransaction demo_lib demo_funds ''k'' ''bob'' (dbl_of_nat 10) = Inr (SUCCESS, tx)
     \<and> (\<Sum>txin \<leftarrow> txIns tx. dbl_int (amount (output_at demo_funds (txOutPt txin)))) = 57"
proof -
  have countable: "countable_chain demo_funds"
    by (simp add: countable_chain_def indexed_blocks_def new_block_def Let_def)
  show ?thesis
    using CreateTransaction_conserves [OF countable demo_funds_proper(2,3) demo_sender_def demo_funds_unspent _ _ _ demo_spend]
      demo_spend by (simp add: spend_tx_def)
qed

lemma easily_mined:
  assumes "blocks c \<noteq> []" and "chain_size c = 1"
  shows "\<exists>b b'. createUnminedBlock L now w c = Inr (b, c\<lparr>txQueue := []\<rparr>)
    \<and> mineBlock L quiet_env 1 (new_miner 0) b = Inr (Some (MINED, b'))"
proof -
  have d: "minerDifficulty (new_miner 0) = 0" by (simp add: new_miner_def)
  obtain b where b: "createUnminedBlock L now w c = Inr (b, c\<lparr>txQueue := []\<rparr>)" "index b = 1"
    using createUnminedBlock_eq [OF assms(1), of L now w] by (simp add: assms(2))
  then show ?thesis using mineBlock_runs [of b 0 quiet_env L "new_miner 0" 1] by (simp add: d)
qed

theorem payment_keeps_proper_witness:
  "\<exists>b c. blocks c = blocks demo_funds @ [b] \<and> length (transactions b) = 2 \<and> proper_txs (located c)"
proof -
  obtain tx where tx: "CreateTransaction demo_lib demo_funds ''k'' ''bob'' (dbl_of_nat 10) = Inr (SUCCESS, tx)"
    using demo_spend by blast
  let ?c = "queueTransaction tx demo_funds"
  obtain b b' where b: "createUnminedBlock demo_lib 0 ''bob'' ?c = Inr (b, ?c\<lparr>txQueue := []\<rparr>)"
      "mineBlock demo_lib quiet_env 1 (new_miner 0) b = Inr (Some (MINED, b'))"
    using easily_mined [of ?c demo_lib 0 "''bob''"] by (auto simp: queueTransaction_def chain_size_def)
  have "length (transactions b') = 2"
    using mined_block_extends [OF _ _ _ b] b(1)
    by (auto simp: queueTransaction_def isValidChain_eq createUnminedBlock_eq)
  moreover obtain c where "blocks c = blocks demo_funds @ [b']" "proper_txs (located c)"
    using payment_keeps_proper [OF _ _ _ _ demo_funds_proper(2,3,1) _ tx b] by (auto simp: isValidChain_eq)
  ultimately show ?thesis by blast
qed

theorem double_spend_mined_witness:
  "\<exists>b c. isValidChain demo_lib c = Inr True \<and> blocks c = blocks demo_funds @ [b] \<and> length (transactions b) = 3
     \<and> hd (txIns (transactions b ! 1)) = hd (txIns (transactions b ! 2)) \<and> \<not> proper_txs (located c)"
proof -
  obtain tx where tx: "CreateTransaction demo_lib demo_funds ''k'' ''bob'' (dbl_of_nat 10) = Inr (SUCCESS, tx)"
      "\<not> coinbase_tx tx"
    using demo_spend by (auto simp: spend_tx_def coinbase_tx_def make_tx_in_def)
  have again: "CreateTransaction demo_lib (queueTransaction tx demo_funds) ''k'' ''bob'' (dbl_of_nat 10) = Inr (SUCCESS, tx)"
    using tx(1) by (simp add: queueTransaction_def CreateTransaction_queue)
  let ?c = "queueTransaction tx (queueTransaction tx demo_funds)"
  obtain b b' where b: "createUnminedBlock demo_lib 0 ''bob'' ?c = Inr (b, ?c\<lparr>txQueue := []\<rparr>)"
      "mineBlock demo_lib quiet_env 1 (new_miner 0) b = Inr (Some (MINED, b'))"
    using easily_mined [of ?c demo_lib 0 "''bob''"] by (auto simp: queueTransaction_def chain_size_def)
  obtain c where c: "isValidChain demo_lib c = Inr True" "blocks c = blocks demo_funds @ [b']"
      "map txIns (tl (transactions b')) = [txIns tx, txIns tx]" "\<not> proper_txs (located c)"
    using double_spend_mined [OF _ _ _ _ tx(1) again b] tx(2) by (auto simp: isValidChain_eq)
  then obtain t0 t1 t2 where "transactions b' = [t0, t1, t2]" "txIns t1 = txIns tx" "txIns t2 = txIns tx"
    by (cases "transactions b'") (auto simp: isValidChain_eq)
  with c show ?thesis by (intro exI [of _ b'] exI [of _ c]) simp
qed

end
