(* ===== verification/Supply.thy ===== *)
theory Supply
  imports Wallet
begin

text \<open>
  The supply of coins. A history of a chain in which every block is mined by the program and carries at
  most one payment of a whole amount made by \<open>CreateTransaction\<close>: all unspent outputs together are
  worth the rewards of the blocks.
\<close>

section \<open>Histories\<close>

inductive wallet_history :: "'j lib \<Rightarrow> blockchain \<Rightarrow> bool" for L where
  genesis: "blocks c = [b] \<Longrightarrow> index b = 0 \<Longrightarrow> transactions b = [CreateCoinbaseTransaction L 0 w] \<Longrightarrow> txQueue c = [] \<Longrightarrow>
     wallet_history L c"
| quiet: "wallet_history L c \<Longrightarrow> createUnminedBlock L now w c = Inr (b, c1) \<Longrightarrow>
     mineBlock L env fuel m b = Inr (Some (MINED, b')) \<Longrightarrow> (\<forall>k. stopped env k \<longrightarrow> stoppedEnd env k) \<Longrightarrow>
     addNewBlock L b' c1 = Inr (True, c2) \<Longrightarrow> wallet_history L c2"
| payment: "wallet_history L c \<Longrightarrow> CreateTransaction L c key receiver amt = Inr (SUCCESS, tx) \<Longrightarrow>
     integral amt \<Longrightarrow> 0 \<le> dbl_int amt \<Longrightarrow> dbl_int amt < 2 ^ 52 \<Longrightarrow>
     createUnminedBlock L now w (queueTransaction tx c) = Inr (b, c1) \<Longrightarrow>
     mineBlock L env fuel m b = Inr (Some (MINED, b')) \<Longrightarrow> (\<forall>k. stopped env k \<longrightarrow> stoppedEnd env k) \<Longrightarrow>
     addNewBlock L b' c1 = Inr (True, c2) \<Longrightarrow> wallet_history L c2"

definition total_coins :: "tx_out_point set \<Rightarrow> int" where
  "total_coins S = (\<Sum>p \<in> S. coins p)"

text \<open>Whole amounts that are not negative.\<close>

definition sane :: "tx_out_point set \<Rightarrow> bool" where
  "sane S \<longleftrightarrow> (\<forall>p \<in> S. whole_coins p \<and> 0 \<le> coins p)"

lemma supply_Un: "finite S \<Longrightarrow> finite T \<Longrightarrow> S \<inter> T = {} \<Longrightarrow> total_coins (S \<union> T) = total_coins S + total_coins T"
  by (simp add: total_coins_def sum.union_disjoint)

lemma supply_Diff: "finite S \<Longrightarrow> T \<subseteq> S \<Longrightarrow> total_coins (S - T) = total_coins S - total_coins T"
  by (simp add: total_coins_def sum_diff)

lemma supply_list: "distinct us \<Longrightarrow> total_coins (set us) = (\<Sum>u \<leftarrow> us. coins u)"
  by (simp add: total_coins_def sum_list_distinct_conv_sum_set)

section \<open>What a transaction does to the supply\<close>

lemma made_supply:
  assumes "length (txOuts tx) < 2 ^ 64"
  shows "total_coins (set (outputs_of (bi, ti, tx))) = (\<Sum>txout \<leftarrow> txOuts tx. dbl_int (amount txout))"
proof -
  have sum: "(\<Sum>p \<leftarrow> map (\<lambda>(j, txout). output_point bi ti j txout) (enumerate n outs). coins p)
      = (\<Sum>txout \<leftarrow> outs. dbl_int (amount txout))" for n outs
    by (induction outs arbitrary: n) (simp_all add: output_point_def coins_def)
  have "inj_on (\<lambda>(j, txout). output_point bi ti j txout) (set (enumerate 0 (txOuts tx)))"
    using assms by (intro inj_onI) (auto simp: output_point_def in_set_enumerate_eq word_of_nat_u64_inject)
  then have "distinct (outputs_of (bi, ti, tx))" by (simp add: outputs_of_def distinct_map distinct_enumerate)
  then show ?thesis using sum [of 0 "txOuts tx"] by (simp only: supply_list) (simp only: outputs_of_def split_conv)
qed

lemma made_sane:
  "\<forall>txout \<in> set (txOuts tx). integral (amount txout) \<and> 0 \<le> dbl_int (amount txout) \<Longrightarrow>
   sane (set (outputs_of (bi, ti, tx)))"
  by (auto simp: sane_def outputs_of_def output_point_def whole_coins_def coins_def in_set_enumerate_eq)

text \<open>A coinbase transaction only makes coins.\<close>

lemma reward_supply:
  assumes "finite S" and "S \<inter> set (outputs_of (i, 0, CreateCoinbaseTransaction L i w)) = {}" and "sane S"
  shows "total_coins (coin_step S (i, 0, CreateCoinbaseTransaction L i w)) = total_coins S + 57
    \<and> sane (coin_step S (i, 0, CreateCoinbaseTransaction L i w))"
proof -
  let ?it = "(i, 0, CreateCoinbaseTransaction L i w)"
  have outs: "txOuts (CreateCoinbaseTransaction L i w) = [\<lparr>address = w, amount = COINBASE_REWARD\<rparr>]"
    by (simp add: CreateCoinbaseTransaction_def Let_def)
  have step: "coin_step S ?it = S \<union> set (outputs_of ?it)"
    by (auto simp: coin_step_def spends_def)
  have "sane (set (outputs_of ?it))" by (rule made_sane) (simp add: outs COINBASE_REWARD_def)
  moreover have "total_coins (set (outputs_of ?it)) = 57"
    using made_supply [of "CreateCoinbaseTransaction L i w" i 0] by (simp add: outs COINBASE_REWARD_def)
  ultimately show ?thesis
    using assms supply_Un [OF assms(1) _ assms(2)] by (auto simp: step sane_def)
qed

text \<open>A payment takes away what it spends and makes as much.\<close>

lemma payment_supply:
  assumes "finite S" and "S \<inter> set (outputs_of (i, 1, tx)) = {}" and "sane S"
    and "inj_on point_id (S \<union> set (outputs_of (i, 1, tx)))"
    and "distinct used" and "set used \<subseteq> S" and "integral amt" and "0 \<le> dbl_int amt"
    and "change = (\<Sum>u \<leftarrow> used. coins u) - dbl_int amt" and "0 \<le> change" and "change < 2 ^ 53"
    and "txIns tx = txIns (spend_tx used receiver amt sender change)"
    and "txOuts tx = txOuts (spend_tx used receiver amt sender change)"
    and "used \<noteq> []"
  shows "total_coins (coin_step S (i, 1, tx)) = total_coins S \<and> sane (coin_step S (i, 1, tx))"
proof -
  let ?T = "set (outputs_of (i, 1, tx))"
  have "\<not> coinbase_tx tx"
    using assms(12,14) by (cases used) (simp_all add: coinbase_tx_def spend_tx_def make_tx_in_def)
  then have spends: "spends (i, 1, tx) p \<longleftrightarrow> (\<exists>u \<in> set used. point_id u = point_id p)" for p
    by (auto simp: spends_def assms(12) spend_tx_def same_point_def point_id_def)
  have "{p \<in> S \<union> ?T. spends (i, 1, tx) p} = set used"
    using assms(4,6) by (auto simp: spends dest!: inj_onD)
  then have step: "coin_step S (i, 1, tx) = (S \<union> ?T) - set used" by (auto simp: coin_step_def)
  have "length (txOuts tx) < 2 ^ 64" by (simp add: assms(13) spend_tx_def)
  then have "total_coins ?T = dbl_int amt + change"
    using spend_tx_sums [OF assms(10,11)] by (simp add: made_supply assms(13))
  moreover have "total_coins (set used) = dbl_int amt + change" by (simp add: supply_list assms(5,9))
  ultimately have "total_coins (coin_step S (i, 1, tx)) = total_coins S"
    unfolding step using supply_Diff [of "S \<union> ?T" "set used"] supply_Un [OF assms(1) _ assms(2)] assms(1,6) by auto
  moreover have "integral (dbl_of_int change)"
    using holds_int_of_int [of change] assms(10,11) by (auto simp: integral_iff)
  then have "sane ?T" using assms(7,8,10,11) by (intro made_sane) (auto simp: assms(13) spend_tx_def)
  ultimately show ?thesis using assms(3) by (auto simp: step sane_def)
qed

section \<open>The invariant of a history\<close>

definition ledger_ok :: "'j lib \<Rightarrow> blockchain \<Rightarrow> bool" where
  "ledger_ok L c \<longleftrightarrow> isValidChain L c = Inr True \<and> blocks c \<noteq> [] \<and> index (hd (blocks c)) = 0 \<and> txQueue c = []
     \<and> wf_chain c
     \<and> (\<forall>b \<in> set (blocks c). length (transactions b) \<le> 2 \<and> (\<forall>tx \<in> set (transactions b). length (txOuts tx) \<le> 2))
     \<and> proper_txs (located c) \<and> sane (coin_set (located c))
     \<and> total_coins (coin_set (located c)) = 57 * int (length (blocks c))"

lemma ledger_ok_countable: "ledger_ok L c \<Longrightarrow> length (blocks c) < 2 ^ 64 \<Longrightarrow> countable_chain c"
  by (fastforce simp: ledger_ok_def countable_chain_def isValidChain_eq intro: valid_blocks_indexed)

lemma coin_set_located: "coin_set (located c) \<subseteq> all_outputs c" "finite (coin_set (located c))"
  using coin_set_outputs [of "length (located c)" c] finite_subset [OF _ finite_outputs] by auto

text \<open>What a block brings, given that it keeps the shape of a chain.\<close>

lemma ledger_ok_start:
  assumes "blocks c = [b]" and "index b = 0" and "transactions b = [CreateCoinbaseTransaction L 0 w]" and "txQueue c = []"
  shows "ledger_ok L c"
proof -
  have loc: "located c = [] @ [(0, 0, CreateCoinbaseTransaction L 0 w)]" using assms by (simp add: located_def)
  have "coin_set (located c) = coin_step {} (0, 0, CreateCoinbaseTransaction L 0 w)"
    unfolding loc by (simp add: coin_set_def)
  moreover have "total_coins {} = 0" "sane {}" by (simp_all add: total_coins_def sane_def)
  ultimately have "total_coins (coin_set (located c)) = 57" "sane (coin_set (located c))"
    using reward_supply [of "{}" 0 L w] by simp_all
  moreover have "proper_txs (located c)"
    unfolding loc proper_txs_snoc by (simp add: reward_proper proper_txs_def)
  ultimately show ?thesis
    using assms by (simp add: ledger_ok_def isValidChain_eq valid_blocks_def wf_chain_def wf_transaction_def
        CreateCoinbaseTransaction_def Let_def)
qed

lemma ledger_ok_quiet:
  assumes ok: "ledger_ok L c" and c2: "blocks c2 = blocks c @ [b]" "isValidChain L c2 = Inr True" "txQueue c2 = []"
    and txs: "transactions b = [CreateCoinbaseTransaction L (index b) w]" and len: "length (blocks c2) < 2 ^ 64"
  shows "ledger_ok L c2"
proof -
  let ?cb = "CreateCoinbaseTransaction L (index b) w"
  have loc: "located c2 = located c @ [(index b, 0, ?cb)]" by (simp add: located_round [OF c2(1)] txs)
  have small: "wf_transaction ?cb" "length (txOuts ?cb) \<le> 2"
    by (simp_all add: wf_transaction_def CreateCoinbaseTransaction_def Let_def)
  have "countable_chain c2"
    using ok c2 len small by (fastforce simp: ledger_ok_def countable_chain_def isValidChain_eq txs intro: valid_blocks_indexed)
  from fresh_outputs [OF this, of "length (located c)"]
  have "coin_set (located c) \<inter> set (outputs_of (index b, 0, ?cb)) = {}" by (simp add: loc)
  from reward_supply [OF coin_set_located(2) this] ok
  have "total_coins (coin_set (located c2)) = 57 * int (length (blocks c2))" "sane (coin_set (located c2))"
    by (simp_all add: loc coin_set_snoc ledger_ok_def c2(1))
  moreover have "proper_txs (located c2)" using ok by (simp add: loc proper_txs_snoc reward_proper ledger_ok_def)
  ultimately show ?thesis using ok c2 small by (auto simp: ledger_ok_def wf_chain_def txs)
qed

lemma ledger_ok_payment:
  assumes ok: "ledger_ok L c" and c2: "blocks c2 = blocks c @ [b]" "isValidChain L c2 = Inr True" "txQueue c2 = []"
    and tx: "CreateTransaction L c key receiver amt = Inr (SUCCESS, tx)" "integral amt" "0 \<le> dbl_int amt" "dbl_int amt < 2 ^ 52"
    and txs: "transactions b = [CreateCoinbaseTransaction L (index b) w, calcuateId L (index b) tx]"
    and inj: "inj_on (point_key L) (all_outputs c)" and refl: "\<forall>s. iequals L s s"
    and len: "57 * length (blocks c2) \<le> 2 ^ 52"
  shows "ledger_ok L c2"
proof -
  let ?cb = "(index b, 0, CreateCoinbaseTransaction L (index b) w)" and ?pay = "(index b, 1, calcuateId L (index b) tx)"
  let ?s = "GetAddressFromPrivateKey L key" and ?S = "coin_set (located c)"
  have loc: "located c2 = (located c @ [?cb]) @ [?pay]" by (simp add: located_round [OF c2(1)] txs)
  have ledger: "wf_chain c" "sane ?S" "total_coins ?S = 57 * int (length (blocks c))" "proper_txs (located c)"
    using ok by (simp_all add: ledger_ok_def)
  obtain us where us: "GetUnspentTxOuts L c ?s = Inr us" "us \<noteq> []" using CreateTransaction_shape [OF tx(1)] by blast
  have "?s \<noteq> []" by (subst address_starts_with_1) simp
  from GetUnspentTxOuts_coins [OF ledger(1) inj this us(1)] have set: "distinct us" "set us \<subseteq> ?S" by auto
  then have whole: "\<forall>u \<in> set us. whole_coins u \<and> 0 \<le> coins u" using ledger(2) by (auto simp: sane_def)
  have "(\<Sum>u \<leftarrow> us. \<bar>coins u\<bar>) = (\<Sum>u \<leftarrow> us. coins u)"
    using whole by (intro arg_cong [of _ _ sum_list] map_cong) auto
  also have "\<dots> = total_coins (set us)" using set(1) by (simp add: supply_list)
  also have "\<dots> \<le> total_coins ?S"
    unfolding total_coins_def using ledger(2) set(2) by (intro sum_mono2) (auto simp: coin_set_located sane_def)
  finally have bound: "\<bar>dbl_int amt\<bar> + (\<Sum>u \<leftarrow> us. \<bar>coins u\<bar>) < 2 ^ 53" using tx(3,4) len ledger(3) c2(1) by simp
  obtain n change where n: "change = (\<Sum>u \<leftarrow> take n us. coins u) - dbl_int amt" "0 \<le> change" "change < 2 ^ 53"
      "tx = spend_tx (take n us) receiver amt ?s change"
    using CreateTransaction_spends [OF us(1) _ tx(2) bound tx(1)] whole by blast
  have "take n us \<noteq> []"
    using first_input [OF tx(1)] n(4) by (auto simp: spend_tx_def)
  have small: "wf_transaction tx" "length (txOuts tx) \<le> 2" "txIns (calcuateId L (index b) tx) = txIns tx"
      "txOuts (calcuateId L (index b) tx) = txOuts tx" "wf_transaction (CreateCoinbaseTransaction L (index b) w)"
      "length (txOuts (CreateCoinbaseTransaction L (index b) w)) \<le> 2"
    using \<open>take n us \<noteq> []\<close> n(4)
    by (simp_all add: wf_transaction_def spend_tx_def calcuateId_def CreateCoinbaseTransaction_def Let_def)
  have count: "countable_chain c2"
    using ok c2 len small
    by (fastforce simp: ledger_ok_def countable_chain_def isValidChain_eq txs intro: valid_blocks_indexed)
  have fresh: "?S \<inter> set (outputs_of ?cb) = {}" "coin_set (located c @ [?cb]) \<inter> set (outputs_of ?pay) = {}"
    using fresh_outputs [OF count, of "length (located c)"] fresh_outputs [OF count, of "Suc (length (located c))"]
    by (simp_all add: loc nth_append)
  let ?S1 = "coin_set (located c @ [?cb])"
  have S1: "total_coins ?S1 = 57 * int (length (blocks c2))" "sane ?S1" "?S \<subseteq> ?S1"
    using reward_supply [OF coin_set_located(2) fresh(1) ledger(2)] ledger(3) c2(1) reward_proper(2)
    by (simp_all add: coin_set_snoc)
  have "?S1 \<union> set (outputs_of ?pay) \<subseteq> all_outputs c2"
    using coin_set_outputs [of "Suc (length (located c))" c2] by (auto simp: loc all_outputs_def)
  then have fin: "finite ?S1" "inj_on point_id (?S1 \<union> set (outputs_of ?pay))"
    using point_id_inj [OF count] finite_outputs [of c2] by (meson finite_Un finite_subset inj_on_subset)+
  have "total_coins (coin_step ?S1 ?pay) = total_coins ?S1 \<and> sane (coin_step ?S1 ?pay)"
    by (rule payment_supply [OF fin(1) fresh(2) S1(2) fin(2) _ _ tx(2,3) n(1-3), where receiver = receiver and sender = ?s])
      (use set S1(3) n(4) small(3,4) \<open>take n us \<noteq> []\<close> set_take_subset [of n us] in auto)
  with S1(1) have "total_coins (coin_set (located c2)) = 57 * int (length (blocks c2))" "sane (coin_set (located c2))"
    by (simp_all add: loc coin_set_snoc del: append_assoc)
  moreover have "proper_txs (located c2)"
    using payment_proper [OF ledger(1) inj ledger(4) refl tx(1), of "index b" w] by (simp add: loc)
  ultimately show ?thesis using ok c2 small by (auto simp: ledger_ok_def wf_chain_def wf_transaction_def txs)
qed

section \<open>The supply\<close>

lemma round_result:
  assumes "isValidChain L c = Inr True \<and> blocks c \<noteq> [] \<and> index (hd (blocks c)) = 0 \<and> txQueue c = []"
    and "createUnminedBlock L now w (c\<lparr>txQueue := q\<rparr>) = Inr (b, c1)"
    and "mineBlock L env fuel m b = Inr (Some (MINED, b'))" and "\<forall>k. stopped env k \<longrightarrow> stoppedEnd env k"
    and "addNewBlock L b' c1 = Inr (True, c2)"
  shows "blocks c2 = blocks c @ [b']" "isValidChain L c2 = Inr True" "txQueue c2 = []" "index (hd (blocks c2)) = 0"
    "transactions b' = CreateCoinbaseTransaction L (index b') w # map (calcuateId L (index b')) q"
  using mined_round [OF _ _ _ assms(2-4)] assms(1,5) by auto

lemma history_shape:
  assumes "wallet_history L c"
  shows "isValidChain L c = Inr True \<and> blocks c \<noteq> [] \<and> index (hd (blocks c)) = 0 \<and> txQueue c = []"
  using assms
proof induction
  case (genesis c b w)
  then show ?case by (simp add: isValidChain_eq valid_blocks_def)
next
  case (quiet c now w b c1 env fuel m b' c2)
  have "c\<lparr>txQueue := []\<rparr> = c" using quiet.IH by simp
  with quiet.hyps(2) have "createUnminedBlock L now w (c\<lparr>txQueue := []\<rparr>) = Inr (b, c1)" by (simp only:)
  from round_result [OF quiet.IH this quiet.hyps(3-5)] show ?case by simp
next
  case (payment c key receiver amt tx now w b c1 env fuel m b' c2)
  have "createUnminedBlock L now w (c\<lparr>txQueue := [tx]\<rparr>) = Inr (b, c1)"
    using payment.hyps(6) payment.IH by (simp only: queueTransaction_empty)
  from round_result [OF payment.IH this payment.hyps(7-9)] show ?case by simp
qed

lemma history_ledger_ok:
  assumes "wallet_history L c" and "inj_on (point_key L) (all_outputs c)" and "\<forall>s. iequals L s s"
    and "57 * length (blocks c) \<le> 2 ^ 52"
  shows "ledger_ok L c"
  using assms(1,2,4)
proof induction
  case (genesis c b w)
  then show ?case by (intro ledger_ok_start)
next
  case (quiet c now w b c1 env fuel m b' c2)
  note shape = history_shape [OF quiet.hyps(1)]
  then have "c\<lparr>txQueue := []\<rparr> = c" by simp
  with quiet.hyps(2) have "createUnminedBlock L now w (c\<lparr>txQueue := []\<rparr>) = Inr (b, c1)" by (simp only:)
  note c2 = round_result [OF shape this quiet.hyps(3-5), unfolded list.map]
  have "inj_on (point_key L) (all_outputs c)"
    using quiet.prems(1) by (rule inj_on_subset) (auto simp: all_outputs_def located_round [OF c2(1)])
  from quiet.IH [OF this] have "ledger_ok L c" using quiet.prems(2) c2(1) by simp
  then show ?case by (rule ledger_ok_quiet [OF _ c2(1-3,5)]) (use quiet.prems(2) in simp)
next
  case (payment c key receiver amt tx now w b c1 env fuel m b' c2)
  note shape = history_shape [OF payment.hyps(1)]
  with payment.hyps(6) have "createUnminedBlock L now w (c\<lparr>txQueue := [tx]\<rparr>) = Inr (b, c1)"
    by (simp only: queueTransaction_empty)
  note c2 = round_result [OF shape this payment.hyps(7-9), unfolded list.map]
  have inj: "inj_on (point_key L) (all_outputs c)"
    using payment.prems(1) by (rule inj_on_subset) (auto simp: all_outputs_def located_round [OF c2(1)])
  from payment.IH [OF inj] have "ledger_ok L c" using payment.prems(2) c2(1) by simp
  then show ?case
    by (rule ledger_ok_payment [OF _ c2(1-3) payment.hyps(2-5) c2(5) inj assms(3) payment.prems(2)])
qed

text \<open>\<open>C9\<close>: no inflation by payments of whole amounts. Take any chain that begins with a genesis block of this
  program and grows by blocks the program makes and mines, each with at most one payment by
  \<open>CreateTransaction\<close>, of any wallet to anyone, of a whole amount from 0 to below \<open>2 ^ 52\<close>. Then all that
  \<open>GetUnspentTxOuts\<close> lists is worth exactly 57 coins for each block, as long as the hashes of outputs do not
  collide and the rewards stay within \<open>57 * blocks \<le> 2 ^ 52\<close>, where doubles are exact; and all transactions of the
  chain are proper. (Amounts with a fraction, which the code allows, are rounded: their outputs need not add
  up to the rewards.)\<close>

theorem no_inflation:
  assumes "wallet_history L c" and "inj_on (point_key L) (all_outputs c)" and "\<forall>s. iequals L s s"
    and "57 * length (blocks c) \<le> 2 ^ 52"
  shows "\<exists>outs. GetUnspentTxOuts L c [] = Inr outs \<and> (\<Sum>u \<leftarrow> outs. coins u) = 57 * int (length (blocks c))
    \<and> proper_txs (located c)"
proof -
  have ok: "ledger_ok L c" using history_ledger_ok [OF assms] .
  then have "wf_chain c" by (simp add: ledger_ok_def)
  then obtain outs where "GetUnspentTxOuts L c [] = Inr outs" "distinct outs" "set outs = coin_set (located c)"
    using unspent_listed [OF _ assms(2), of "[]"] by (auto simp: wanted_def)
  with ok show ?thesis by (auto simp: ledger_ok_def simp flip: supply_list)
qed

text \<open>The owner of the first reward pays bob, who mines the block.\<close>

theorem no_inflation_witness:
  "\<exists>c outs. length (blocks c) = 2 \<and> length (txIns (transactions (blocks c ! 1) ! 1)) = 1
     \<and> GetUnspentTxOuts demo_lib c [] = Inr outs \<and> (\<Sum>u \<leftarrow> outs. coins u) = 114"
proof -
  obtain tx where tx: "CreateTransaction demo_lib demo_funds ''k'' ''bob'' (dbl_of_nat 10) = Inr (SUCCESS, tx)"
      "length (txIns tx) = 1" "\<exists>x y. txOuts tx = [x, y]" using demo_spend by (auto simp: spend_tx_def)
  obtain b b' where b: "createUnminedBlock demo_lib 0 ''bob'' (demo_funds\<lparr>txQueue := [tx]\<rparr>) = Inr (b, demo_funds)"
      "mineBlock demo_lib quiet_env 1 (new_miner 0) b = Inr (Some (MINED, b'))"
    using easily_mined [of "demo_funds\<lparr>txQueue := [tx]\<rparr>" demo_lib 0 "''bob''"] by (auto simp: chain_size_def)
  obtain c where c: "addNewBlock demo_lib b' demo_funds = Inr (True, c)" "blocks c = blocks demo_funds @ [b']"
      "index b' = 1" "transactions b' = [CreateCoinbaseTransaction demo_lib 1 ''bob'', calcuateId demo_lib 1 tx]"
    using mined_round [OF _ _ _ b] by (auto simp: isValidChain_eq)
  have queue: "queueTransaction tx demo_funds = demo_funds\<lparr>txQueue := [tx]\<rparr>" by (simp add: queueTransaction_empty)
  have "wallet_history demo_lib demo_funds"
    by (rule wallet_history.genesis [where w = demo_sender
        and b = "new_block demo_lib 0 0 [] [CreateCoinbaseTransaction demo_lib 0 demo_sender]"]) simp_all
  then have "wallet_history demo_lib c"
    by (rule wallet_history.payment [OF _ tx(1) _ _ _ b(1) [folded queue] b(2) _ c(1)]) simp_all
  moreover have "inj_on (point_key demo_lib) (all_outputs c)"
    using tx(3)
    by (auto simp: inj_on_def all_outputs_def located_def c(2-4) outputs_of_def output_point_def point_key_def
        calcuateId_def spend_tx_def)
  ultimately show ?thesis
    using no_inflation [of demo_lib c] c tx(2) by (intro exI [of _ c]) (auto simp: calcuateId_def)
qed

end
