(* ===== verification/Config.thy ===== *)
theory Config
  imports Libs "HOL-Library.AList"
begin

text \<open>
  \<open>AshUtils.cpp\<close> (numbers, booleans, the page dictionary and the default paths), the validators and
  the class \<open>Settings\<close> (\<open>Settings.h\<close>, \<open>Settings.cpp\<close>), and the settings \<open>main.cpp\<close> registers.
\<close>

section \<open>Utilities\<close>

definition isNumeric :: "string \<Rightarrow> bool" where
  "isNumeric s \<longleftrightarrow> s \<noteq> [] \<and> (\<forall>c \<in> set s. c \<in> set ''0123456789'')"

definition trueStrings :: "string list" where
  "trueStrings = [''true'', ''on'', ''1'']"

definition falseStrings :: "string list" where
  "falseStrings = [''false'', ''off'', ''0'']"

definition isBoolean :: "'j lib \<Rightarrow> string \<Rightarrow> bool" where
  "isBoolean L s \<longleftrightarrow> (\<exists>v \<in> set (trueStrings @ falseStrings). iequals L v s)"

definition convertToBool :: "'j lib \<Rightarrow> string \<Rightarrow> bool res" where
  "convertToBool L s =
     (if \<exists>d \<in> set trueStrings. iequals L d s then Inr True
      else if \<exists>d \<in> set falseStrings. iequals L d s then Inr False
      else Inl (RuntimeError (''invalid value '' @ CHR 0x27 # s @ [CHR 0x27])))"

text \<open>The dictionary is a \<open>std::map\<close>; its entries are given in the order of the keys.\<close>

definition DoDictionary :: "'j lib \<Rightarrow> string \<Rightarrow> (string \<times> string) list \<Rightarrow> string" where
  "DoDictionary L source valmap = foldl (\<lambda>retval (key, val). replace_all L retval key val) source valmap"

section \<open>The operating system\<close>

text \<open>
  What the preprocessor selects by is an argument. On an unknown system \<open>getOsString\<close> does not
  compile: its last branch lacks a semicolon.
\<close>

datatype platform = Windows | Apple | Linux | OtherSystem

fun getOsString :: "platform \<Rightarrow> string option" where
  "getOsString Windows = Some ''windows''"
| "getOsString Apple = Some ''macos''"
| "getOsString Linux = Some ''linux''"
| "getOsString OtherSystem = None"

definition PATH_SEPERATOR :: "platform \<Rightarrow> string" where
  "PATH_SEPERATOR p = (if p = Windows then [CHR 0x5C] else ''/'')"

text \<open>The password database, and \<open>SHGetFolderPathW\<close> by the number of a folder.\<close>

record system_folders =
  pw_dir :: string
  folder_path :: "nat \<Rightarrow> string option"

definition getWindowsFolder :: "system_folders \<Rightarrow> nat \<Rightarrow> string res" where
  "getWindowsFolder f csidl =
     (case folder_path f csidl of
        Some path \<Rightarrow> Inr path
      | None \<Rightarrow> Inl (RuntimeError ''could not retrieve user folder''))"

definition CSIDL_PROFILE :: nat where "CSIDL_PROFILE = 40"
definition CSIDL_COMMON_APPDATA :: nat where "CSIDL_COMMON_APPDATA = 35"

definition getUserFolder :: "platform \<Rightarrow> system_folders \<Rightarrow> string res" where
  "getUserFolder p f = (if p = Windows then getWindowsFolder f CSIDL_PROFILE else Inr (pw_dir f))"

definition getDataFolder :: "platform \<Rightarrow> system_folders \<Rightarrow> string res" where
  "getDataFolder p f = (if p = Windows then getWindowsFolder f CSIDL_COMMON_APPDATA else Inr (pw_dir f))"

text \<open>The default paths, given the folders of the system.\<close>

definition getDefaultConfigFile :: "platform \<Rightarrow> string \<Rightarrow> string" where
  "getDefaultConfigFile p userFolder = userFolder @ PATH_SEPERATOR p @ ''.ash_config''"

definition getDefaultDatabaseFolder :: "platform \<Rightarrow> string \<Rightarrow> string" where
  "getDefaultDatabaseFolder p dataFolder = dataFolder @ PATH_SEPERATOR p @ ''AshChain''"

definition getDefaultPeersFile :: "platform \<Rightarrow> string \<Rightarrow> string" where
  "getDefaultPeersFile p dataFolder = getDefaultDatabaseFolder p dataFolder @ PATH_SEPERATOR p @ ''peers.txt''"

definition NotImplementedException :: "string \<Rightarrow> error" where
  "NotImplementedException funcname =
     LogicError (''Function '' @ CHR 0x27 # funcname @ CHR 0x27 # '' not yet implemented.'')"

text \<open>What shows a page in a browser; nothing for an empty address.\<close>

datatype browser_call = ShellExecute string | LSOpenCFURLRef string | Process string string

definition openBrowser :: "platform \<Rightarrow> string \<Rightarrow> browser_call option res" where
  "openBrowser p url_str =
     (if url_str = [] then Inr None
      else case p of
             Windows \<Rightarrow> Inr (Some (ShellExecute url_str))
           | Apple \<Rightarrow> Inr (Some (LSOpenCFURLRef url_str))
           | Linux \<Rightarrow> Inr (Some (Process ''/usr/bin/xdg-open'' url_str))
           | OtherSystem \<Rightarrow> Inl (NotImplementedException ''openBrowser''))"

section \<open>Validators\<close>

datatype number_type = Int32 | UInt32 | UInt64

datatype validator =
    NotEmptyValidator
  | LengthValidator nat
  | NumberValidator number_type
  | RangeValidator u64 u64
  | BoolValidator
  | EnumValidator "string list"

definition lexical_ok :: "'j lib \<Rightarrow> number_type \<Rightarrow> string \<Rightarrow> bool" where
  "lexical_ok L t s =
     (case t of Int32 \<Rightarrow> lexical_i32 L s \<noteq> None
      | UInt32 \<Rightarrow> lexical_u32 L s \<noteq> None
      | UInt64 \<Rightarrow> lexical_u64 L s \<noteq> None)"

text \<open>The program instantiates \<open>RangeValidator\<close> at \<open>std::uint64_t\<close> only.\<close>

fun isValid :: "'j lib \<Rightarrow> validator \<Rightarrow> string \<Rightarrow> bool" where
  "isValid L NotEmptyValidator s = (s \<noteq> [])"
| "isValid L (LengthValidator maxlen) s = (length s \<le> maxlen)"
| "isValid L (NumberValidator t) s = lexical_ok L t s"
| "isValid L (RangeValidator lo hi) s =
     (case lexical_u64 L s of Some x \<Rightarrow> lo \<le> x \<and> x \<le> hi | None \<Rightarrow> False)"
| "isValid L BoolValidator s = isBoolean L s"
| "isValid L (EnumValidator vals) s = (\<exists>v \<in> set vals. iequals L v s)"

fun join_comma :: "string list \<Rightarrow> string" where
  "join_comma [] = []"
| "join_comma [s] = s"
| "join_comma (s # ss) = s @ '','' @ join_comma ss"

definition quote :: "string \<Rightarrow> string" where
  "quote s = CHR 0x27 # s @ [CHR 0x27]"

text \<open>
  The text of the exception. The format string of \<open>NumberValidator\<close> has a placeholder and no
  argument, so that formatting it throws instead.
\<close>

fun validator_error :: "validator \<Rightarrow> string \<Rightarrow> string res" where
  "validator_error NotEmptyValidator s = Inr ''the setting cannot be empty''"
| "validator_error (LengthValidator maxlen) s =
     Inr (''the value '' @ quote s @ '' exceeds the max legnth '' @ quote (nat_dec maxlen))"
| "validator_error (NumberValidator t) s = Inl (RuntimeError ''format_error'')"
| "validator_error (RangeValidator lo hi) s =
     Inr (''the value '' @ quote s @ '' falls outside the range '' @ u64_dec lo @ ''-'' @ u64_dec hi)"
| "validator_error BoolValidator s = Inr (''the value '' @ quote s @ '' is not a boolean value'')"
| "validator_error (EnumValidator vals) s =
     Inr (''invalid value '' @ quote s @ '', possible values are: '' @ join_comma vals)"

definition throw_invalid :: "string res \<Rightarrow> unit res" where
  "throw_invalid m = bindE m (\<lambda>text. Inl (InvalidArgument text))"

definition validate :: "'j lib \<Rightarrow> validator \<Rightarrow> string \<Rightarrow> unit res" where
  "validate L v s =
     (case v of
        RangeValidator lo hi \<Rightarrow>
          (if \<not> lexical_ok L UInt64 s then throw_invalid (validator_error (NumberValidator UInt64) s)
           else if \<not> isValid L v s then throw_invalid (validator_error v s) else Inr ())
      | _ \<Rightarrow> (if \<not> isValid L v s then throw_invalid (validator_error v s) else Inr ()))"

section \<open>The settings\<close>

text \<open>
  \<open>_settings\<close> and \<open>_defaults\<close> are JSON objects, kept as association lists; \<open>_validators\<close> maps a name
  to a shared pointer, which may be empty.
\<close>

record 'j settings =
  settingValues :: "(string \<times> 'j) list"
  defaultValues :: "(string \<times> 'j) list"
  validators :: "(string \<times> validator option) list"

definition empty_settings :: "'j settings" where
  "empty_settings = \<lparr>settingValues = [], defaultValues = [], validators = []\<rparr>"

definition settings_exists :: "string \<Rightarrow> 'j settings \<Rightarrow> bool" where
  "settings_exists name st \<longleftrightarrow> map_of (settingValues st) name \<noteq> None"

definition settings_size :: "'j settings \<Rightarrow> nat" where
  "settings_size st = length (settingValues st)"

text \<open>\<open>_validators[name]\<close> makes an empty entry where there is none.\<close>

definition validator_of :: "string \<Rightarrow> 'j settings \<Rightarrow> validator option" where
  "validator_of name st = (case map_of (validators st) name of Some v \<Rightarrow> v | None \<Rightarrow> None)"

definition put :: "string \<Rightarrow> 'j \<Rightarrow> 'j settings \<Rightarrow> 'j settings" where
  "put name v st = st\<lparr>settingValues := AList.update name v (settingValues st)\<rparr>"

definition register_value :: "string \<Rightarrow> 'j \<Rightarrow> validator option \<Rightarrow> 'j settings \<Rightarrow> 'j settings" where
  "register_value name v val st =
     st\<lparr>validators := AList.update name val (validators st),
        settingValues := AList.update name v (settingValues st),
        defaultValues := AList.update name v (defaultValues st)\<rparr>"

definition registerString ::
  "'j lib \<Rightarrow> string \<Rightarrow> string \<Rightarrow> validator option \<Rightarrow> 'j settings \<Rightarrow> 'j settings res" where
  "registerString L name v val st =
     bindE (case val of Some w \<Rightarrow> validate L w v | None \<Rightarrow> Inr ()) (\<lambda>_.
     Inr (register_value name (js_of_string L v) val st))"

definition registerBool :: "'j lib \<Rightarrow> string \<Rightarrow> bool \<Rightarrow> 'j settings \<Rightarrow> 'j settings" where
  "registerBool L name v st = register_value name (js_of_bool L v) (Some BoolValidator) st"

definition registerEnum ::
  "'j lib \<Rightarrow> string \<Rightarrow> string \<Rightarrow> string list \<Rightarrow> 'j settings \<Rightarrow> 'j settings res" where
  "registerEnum L name v possibleVals st =
     bindE (validate L (EnumValidator possibleVals) v) (\<lambda>_.
     Inr (register_value name (js_of_string L v) (Some (EnumValidator possibleVals)) st))"

definition registerUInt :: "'j lib \<Rightarrow> string \<Rightarrow> u32 \<Rightarrow> validator option \<Rightarrow> 'j settings \<Rightarrow> 'j settings" where
  "registerUInt L name v val st =
     register_value name (js_of_u64 L (ucast v))
       (Some (case val of Some w \<Rightarrow> w | None \<Rightarrow> NumberValidator UInt32)) st"

definition registerInt :: "'j lib \<Rightarrow> string \<Rightarrow> u32 \<Rightarrow> validator option \<Rightarrow> 'j settings \<Rightarrow> 'j settings" where
  "registerInt L name v val st =
     register_value name (js_of_i32 L v)
       (Some (case val of Some w \<Rightarrow> w | None \<Rightarrow> NumberValidator Int32)) st"

text \<open>A bad \<open>lexical_cast\<close> throws.\<close>

definition castE :: "'a option \<Rightarrow> 'a res" where
  "castE r = (case r of Some x \<Rightarrow> Inr x | None \<Rightarrow> Inl (RuntimeError ''bad_lexical_cast''))"

text \<open>The new JSON value, by the kind of the present one.\<close>

definition convert_value :: "'j lib \<Rightarrow> string \<Rightarrow> 'j \<Rightarrow> string \<Rightarrow> 'j res" where
  "convert_value L name old v =
     (case js_kind_of L old of
        KUnsigned \<Rightarrow> bindE (castE (lexical_u32 L v)) (\<lambda>x. Inr (js_of_u64 L (ucast x)))
      | KInteger \<Rightarrow> bindE (castE (lexical_i32 L v)) (\<lambda>x. Inr (js_of_i32 L x))
      | KBoolean \<Rightarrow> bindE (convertToBool L v) (\<lambda>b. Inr (js_of_bool L b))
      | KString \<Rightarrow> Inr (js_of_string L v)
      | _ \<Rightarrow> Inl (InvalidArgument (''unknown setting type '' @ quote name)))"

definition settings_set :: "'j lib \<Rightarrow> string \<Rightarrow> string \<Rightarrow> 'j settings \<Rightarrow> 'j settings res" where
  "settings_set L name v st =
     (case map_of (settingValues st) name of
        None \<Rightarrow> Inl (InvalidArgument (''setting '' @ quote name @ '' has not been registered''))
      | Some old \<Rightarrow>
          (case validator_of name st of
             None \<Rightarrow> Inl UndefinedBehaviour
           | Some w \<Rightarrow> bindE (validate L w v) (\<lambda>_.
                       bindE (convert_value L name old v) (\<lambda>j. Inr (put name j st)))))"

definition settings_setNoThrow :: "'j lib \<Rightarrow> string \<Rightarrow> string \<Rightarrow> 'j settings \<Rightarrow> (bool \<times> 'j settings) res" where
  "settings_setNoThrow L name v st =
     (case map_of (settingValues st) name of
        None \<Rightarrow> Inr (False, st)
      | Some old \<Rightarrow>
          (if js_kind_of L old \<in> {KUnsigned, KInteger, KBoolean, KString}
           then (case validator_of name st of
                   None \<Rightarrow> Inl UndefinedBehaviour
                 | Some w \<Rightarrow> (if isValid L w v
                             then bindE (convert_value L name old v) (\<lambda>j. Inr (True, put name j st))
                             else Inr (False, st)))
           else Inl (InvalidArgument (''unknown setting type '' @ quote name))))"

definition value_u32 :: "'j lib \<Rightarrow> string \<Rightarrow> u32 \<Rightarrow> 'j settings \<Rightarrow> u32 res" where
  "value_u32 L name defval st =
     (case map_of (settingValues st) name of
        None \<Rightarrow> Inr defval
      | Some j \<Rightarrow> (if js_kind_of L j \<noteq> KUnsigned then Inr defval
                  else bindE (js_get_u64 L j) (\<lambda>x. Inr (ucast x))))"

definition value_i32 :: "'j lib \<Rightarrow> string \<Rightarrow> u32 \<Rightarrow> 'j settings \<Rightarrow> u32 res" where
  "value_i32 L name defval st =
     (case map_of (settingValues st) name of
        None \<Rightarrow> Inr defval
      | Some j \<Rightarrow> (if js_kind_of L j \<notin> {KInteger, KUnsigned} then Inr defval else js_get_i32 L j))"

definition value_bool :: "'j lib \<Rightarrow> string \<Rightarrow> bool \<Rightarrow> 'j settings \<Rightarrow> bool res" where
  "value_bool L name defval st =
     (case map_of (settingValues st) name of
        None \<Rightarrow> Inr defval
      | Some j \<Rightarrow> (if js_kind_of L j \<noteq> KBoolean then Inr defval else js_get_bool L j))"

definition value_string :: "'j lib \<Rightarrow> string \<Rightarrow> string \<Rightarrow> 'j settings \<Rightarrow> string res" where
  "value_string L name defval st =
     (case map_of (settingValues st) name of
        None \<Rightarrow> Inr defval
      | Some j \<Rightarrow> (if js_kind_of L j \<noteq> KString then Inr defval else js_get_string L j))"

definition settings_reset :: "'j settings \<Rightarrow> 'j settings" where
  "settings_reset st = st\<lparr>settingValues := foldl (\<lambda>vs (k, v). AList.update k v vs) [] (defaultValues st)\<rparr>"

text \<open>The text a validator sees for a value of the file.\<close>

definition json_to_string :: "'j lib \<Rightarrow> 'j \<Rightarrow> string res" where
  "json_to_string L j = (if js_kind_of L j = KString then js_get_string L j else Inr (js_dump L j))"

definition load_item :: "'j lib \<Rightarrow> nat \<times> 'j settings \<Rightarrow> string \<times> 'j \<Rightarrow> (nat \<times> 'j settings) res" where
  "load_item L acc item =
     (let (count, st) = acc; (key, j) = item
      in if \<not> settings_exists key st
         then Inl (InvalidArgument (''unregistered config value '' @ quote key))
         else bindE (json_to_string L j) (\<lambda>text.
              if (case validator_of key st of None \<Rightarrow> True | Some w \<Rightarrow> isValid L w text)
              then Inr (count + 1, put key j st)
              else bindE (js_get_string L j) (\<lambda>s.
                   Inl (InvalidArgument (''error loading config item '' @ quote key @ '': invalid value '' @ quote s)))))"

text \<open>\<open>file\<close> is the contents of the configuration file, \<open>None\<close> if it does not exist.\<close>

definition settings_load :: "'j lib \<Rightarrow> string option \<Rightarrow> 'j settings \<Rightarrow> (nat \<times> 'j settings) res" where
  "settings_load L file st =
     (case file of
        None \<Rightarrow> Inr (0, st)
      | Some text \<Rightarrow>
          (case js_parse L text of
             None \<Rightarrow> Inl JsonError
           | Some j \<Rightarrow> foldE (load_item L) (0, st) (js_entries L j)))"

definition settings_save :: "'j lib \<Rightarrow> 'j settings \<Rightarrow> string" where
  "settings_save L st = js_dump_indent L (js_object L (settingValues st)) 4"

section \<open>The registered settings\<close>

definition filesizeMin :: u64 where "filesizeMin = 1024"
definition filesizeMax :: u64 where "filesizeMax = 1024 * 1024 * 1024"
definition filesizeDefault :: u32 where "filesizeDefault = 1024 * 1024 * 5"
definition HTTPServerPortDefault :: u32 where "HTTPServerPortDefault = 27182"
definition WebSocketServerPorDefault :: u32 where "WebSocketServerPorDefault = 14142"

definition registerSettings :: "'j lib \<Rightarrow> platform \<Rightarrow> string \<Rightarrow> 'j settings res" where
  "registerSettings L p dataFolder =
     (let dbfolder = getDefaultDatabaseFolder p dataFolder;
          range = Some (RangeValidator filesizeMin filesizeMax)
      in bindE (Inr (registerBool L ''chain.reset.enable'' True empty_settings)) (\<lambda>st.
         bindE (registerString L ''database.folder'' dbfolder (Some NotEmptyValidator) st) (\<lambda>st.
         bindE (Inr (registerUInt L ''database.filesize.max'' filesizeDefault range st)) (\<lambda>st.
         bindE (Inr (registerBool L ''mining.autostart'' False st)) (\<lambda>st.
         bindE (registerString L ''mining.miner.address'' ''<CHANGE ME>'' (Some NotEmptyValidator) st) (\<lambda>st.
         bindE (Inr (registerUInt L ''rest.port'' HTTPServerPortDefault range st)) (\<lambda>st.
         bindE (Inr (registerUInt L ''websocket.port'' WebSocketServerPorDefault range st)) (\<lambda>st.
         bindE (Inr (registerBool L ''rest.autoload'' False st)) (\<lambda>st.
         bindE (registerString L ''peers.file'' (getDefaultPeersFile p dataFolder) (Some NotEmptyValidator) st) (\<lambda>st.
         bindE (registerString L ''logs.level'' ''info'' None st) (\<lambda>st.
         bindE (Inr (registerBool L ''logs.file.enabled'' True st)) (\<lambda>st.
         registerString L ''logs.file.folder'' dbfolder (Some NotEmptyValidator) st))))))))))))"

text \<open>\<open>initSettings\<close>: the settings, and the contents of the file afterwards.\<close>

definition initSettings :: "'j lib \<Rightarrow> platform \<Rightarrow> string \<Rightarrow> string option \<Rightarrow> ('j settings \<times> string) res" where
  "initSettings L p dataFolder file =
     bindE (registerSettings L p dataFolder) (\<lambda>st.
     case file of
       Some text \<Rightarrow> bindE (settings_load L file st) (\<lambda>(count, st'). Inr (st', text))
     | None \<Rightarrow> Inr (st, settings_save L st))"

section \<open>Validators as checks\<close>

text \<open>The contract between \<open>isValid\<close> and \<open>validate\<close>: the check passes exactly on the valid values.\<close>

locale value_check =
  fixes valid :: "'j lib \<Rightarrow> string \<Rightarrow> bool"
    and check :: "'j lib \<Rightarrow> string \<Rightarrow> unit res"
  assumes check_iff: "check L s = Inr () \<longleftrightarrow> valid L s"
begin

lemma passed: "valid L s \<Longrightarrow> bindE (check L s) f = f ()"
  by (simp add: check_iff [symmetric])

lemma guarded: "bindE (check L s) f = Inr y \<longleftrightarrow> valid L s \<and> f () = Inr y"
  by (cases "check L s") (auto simp: check_iff [symmetric])

lemma refused: "\<not> valid L s \<Longrightarrow> \<exists>e. bindE (check L s) f = Inl e"
  by (cases "check L s") (auto simp: check_iff [symmetric])

end

lemma throw_invalid_not_Inr [simp]: "throw_invalid m \<noteq> Inr u"
  by (cases m) (simp_all add: throw_invalid_def)

interpretation check: value_check "\<lambda>L. isValid L v" "\<lambda>L. validate L v" for v
  by unfold_locales
    (auto simp: validate_def lexical_ok_def split: validator.splits if_splits option.splits)

section \<open>What a setting keeps\<close>

lemma map_of_put [simp]: "map_of (settingValues (put name j st)) = (map_of (settingValues st))(name \<mapsto> j)"
  by (simp add: put_def AList.update_conv')

lemma put_frame [simp]:
  "defaultValues (put name j st) = defaultValues st" "validators (put name j st) = validators st"
  "validator_of n (put name j st) = validator_of n st"
  by (simp_all add: put_def validator_of_def)

lemma convert_value_kind:
  "kind_laws L \<Longrightarrow> convert_value L name old v = Inr j \<Longrightarrow> js_kind_of L j = js_kind_of L old"
  by (auto simp: convert_value_def res_simps json_simps split: js_kind.splits)

lemma settings_set_iff:
  "settings_set L name v st = Inr st' \<longleftrightarrow>
     (\<exists>old w j. map_of (settingValues st) name = Some old \<and> validator_of name st = Some w \<and> isValid L w v
        \<and> convert_value L name old v = Inr j \<and> st' = put name j st)"
  by (auto simp: settings_set_def check.check_iff res_simps split: option.splits)

text \<open>\<open>C38\<close>: a successful \<open>set\<close> was for a registered setting and passed its validator; it changes that
  setting alone, keeps its JSON type, and leaves defaults and validators as they are.\<close>

theorem settings_set_spec:
  assumes "kind_laws L" and "settings_set L name v st = Inr st'"
  shows "\<exists>old w j. map_of (settingValues st) name = Some old \<and> validator_of name st = Some w \<and> isValid L w v
    \<and> map_of (settingValues st') = (map_of (settingValues st))(name \<mapsto> j) \<and> js_kind_of L j = js_kind_of L old
    \<and> defaultValues st' = defaultValues st \<and> validators st' = validators st"
  using assms convert_value_kind by (fastforce simp: settings_set_iff)

text \<open>The settings of the program, in the order they are registered.\<close>

definition registered :: "'j lib \<Rightarrow> platform \<Rightarrow> string \<Rightarrow> (string \<times> 'j \<times> validator option) list" where
  "registered L p dataFolder =
     [(''chain.reset.enable'', js_of_bool L True, Some BoolValidator),
      (''database.folder'', js_of_string L (getDefaultDatabaseFolder p dataFolder), Some NotEmptyValidator),
      (''database.filesize.max'', js_of_u64 L (ucast filesizeDefault), Some (RangeValidator filesizeMin filesizeMax)),
      (''mining.autostart'', js_of_bool L False, Some BoolValidator),
      (''mining.miner.address'', js_of_string L ''<CHANGE ME>'', Some NotEmptyValidator),
      (''rest.port'', js_of_u64 L (ucast HTTPServerPortDefault), Some (RangeValidator filesizeMin filesizeMax)),
      (''websocket.port'', js_of_u64 L (ucast WebSocketServerPorDefault), Some (RangeValidator filesizeMin filesizeMax)),
      (''rest.autoload'', js_of_bool L False, Some BoolValidator),
      (''peers.file'', js_of_string L (getDefaultPeersFile p dataFolder), Some NotEmptyValidator),
      (''logs.level'', js_of_string L ''info'', None),
      (''logs.file.enabled'', js_of_bool L True, Some BoolValidator),
      (''logs.file.folder'', js_of_string L (getDefaultDatabaseFolder p dataFolder), Some NotEmptyValidator)]"

lemma registerSettings_eq:
  "registerSettings L p dataFolder = Inr
     \<lparr>settingValues = map (\<lambda>(k, v, w). (k, v)) (registered L p dataFolder),
      defaultValues = map (\<lambda>(k, v, w). (k, v)) (registered L p dataFolder),
      validators = map (\<lambda>(k, v, w). (k, w)) (registered L p dataFolder)\<rparr>"
  by (simp add: registerSettings_def registerBool_def registerString_def registerUInt_def register_value_def
      empty_settings_def registered_def Let_def check.passed
      getDefaultDatabaseFolder_def getDefaultPeersFile_def PATH_SEPERATOR_def)

lemma logs_level_registered:
  assumes "registerSettings L p dataFolder = Inr st"
  shows "map_of (settingValues st) ''logs.level'' = Some (js_of_string L ''info'')"
    "validator_of ''logs.level'' st = None"
    "map_of (settingValues st) ''rest.port'' = Some (js_of_u64 L (ucast HTTPServerPortDefault))"
    "validator_of ''rest.port'' st = Some (RangeValidator filesizeMin filesizeMax)"
  using assms by (auto simp: registerSettings_eq registered_def validator_of_def)

text \<open>Two settings are not guarded as meant: setting the log level calls the validator it does not
  have, and the port is checked against the limits for file sizes, so that a port above 65535 is
  accepted and read back.\<close>

theorem registered_settings_gaps:
  assumes "kind_laws L" and "json_laws L" and "registerSettings L p dataFolder = Inr st"
    and "lexical_u64 L ''70000'' = Some 70000" and "lexical_u32 L ''70000'' = Some 70000"
  shows "settings_set L ''logs.level'' ''debug'' st = Inl UndefinedBehaviour
    \<and> (\<exists>st'. settings_set L ''rest.port'' ''70000'' st = Inr st'
          \<and> value_u32 L ''rest.port'' 27182 st' = Inr 70000)"
  using logs_level_registered [OF assms(3)] assms(1,2,4,5)
  by (simp add: settings_set_def check.passed filesizeMin_def filesizeMax_def convert_value_def json_simps
      castE_def value_u32_def)

section \<open>Saving and loading\<close>

text \<open>
  What the two starts rely on: the file that was written parses to an object with the saved
  entries, booleans and numbers print as the validators expect them, and a string equals itself
  whatever the case.
\<close>

definition file_laws :: "'j lib \<Rightarrow> (string \<times> 'j) list \<Rightarrow> bool" where
  "file_laws L kvs \<longleftrightarrow>
     (\<exists>j. js_parse L (js_dump_indent L (js_object L kvs) 4) = Some j
        \<and> set (js_entries L j) = set kvs \<and> distinct (map fst (js_entries L j)))
     \<and> js_dump L (js_of_bool L True) = ''true'' \<and> js_dump L (js_of_bool L False) = ''false''
     \<and> (\<forall>x. lexical_u64 L (js_dump L (js_of_u64 L x)) = Some x)
     \<and> (\<forall>s. iequals L s s)"

lemma load_items:
  assumes "distinct (map fst kvs)"
    and "\<forall>(k, j) \<in> set kvs. map_of (settingValues st) k \<noteq> None \<and>
           (\<exists>text. json_to_string L j = Inr text \<and> (case validator_of k st of None \<Rightarrow> True | Some w \<Rightarrow> isValid L w text))"
  shows "\<exists>st'. foldE (load_item L) (n, st) kvs = Inr (n + length kvs, st')
    \<and> map_of (settingValues st') = map_of (settingValues st) ++ map_of (rev kvs)
    \<and> defaultValues st' = defaultValues st \<and> validators st' = validators st"
  using assms
proof (induction kvs arbitrary: n st)
  case Nil
  then show ?case by simp
next
  case (Cons p kvs)
  obtain k j where p: "p = (k, j)" by (cases p)
  from Cons.prems(2) have item: "load_item L (n, st) (k, j) = Inr (n + 1, put k j st)"
    by (auto simp: load_item_def settings_exists_def p)
  have "\<exists>st'. foldE (load_item L) (n + 1, put k j st) kvs = Inr (n + 1 + length kvs, st')
    \<and> map_of (settingValues st') = map_of (settingValues (put k j st)) ++ map_of (rev kvs)
    \<and> defaultValues st' = defaultValues (put k j st) \<and> validators st' = validators (put k j st)"
    by (rule Cons.IH) (use Cons.prems in \<open>auto simp: p\<close>)
  then show ?case by (auto simp: p item map_add_assoc [symmetric])
qed

lemma registered_valid:
  assumes "file_laws L kvs" and "json_laws L" and "kind_laws L"
    and "(k, j, w) \<in> set (registered L p dataFolder)"
  shows "\<exists>text. json_to_string L j = Inr text \<and> (case w of None \<Rightarrow> True | Some v \<Rightarrow> isValid L v text)"
proof -
  have 1: "js_dump L (js_of_bool L b) = (if b then ''true'' else ''false'')" for b
    using assms(1) by (simp add: file_laws_def)
  have 2: "lexical_u64 L (js_dump L (js_of_u64 L x)) = Some x" "iequals L s s" for x s
    using assms(1) by (simp_all add: file_laws_def)
  have 3: "isBoolean L ''true''" "isBoolean L ''false''"
    using 2(2) by (auto simp: isBoolean_def trueStrings_def falseStrings_def)
  from assms(4) show ?thesis
    using assms(2,3)
    by (auto simp: registered_def json_to_string_def json_simps 1 2 3 filesizeDefault_def filesizeMin_def filesizeMax_def
        HTTPServerPortDefault_def WebSocketServerPorDefault_def getDefaultDatabaseFolder_def getDefaultPeersFile_def PATH_SEPERATOR_def)
qed

text \<open>The first start, without a configuration file, writes the defaults out; the second start
  accepts that file and ends up with the same settings.\<close>

theorem initSettings_twice:
  assumes "file_laws L (map (\<lambda>(k, v, w). (k, v)) (registered L p dataFolder))"
    and "json_laws L" and "kind_laws L"
  shows "\<exists>st text st'. initSettings L p dataFolder None = Inr (st, text)
    \<and> initSettings L p dataFolder (Some text) = Inr (st', text)
    \<and> map_of (settingValues st') = map_of (settingValues st) \<and> defaultValues st' = defaultValues st"
proof -
  define st where "st = (case registerSettings L p dataFolder of Inr st \<Rightarrow> st | Inl e \<Rightarrow> empty_settings)"
  have reg: "registerSettings L p dataFolder = Inr st" by (simp add: st_def registerSettings_eq)
  then have vals: "settingValues st = map (\<lambda>(k, v, w). (k, v)) (registered L p dataFolder)"
      "validators st = map (\<lambda>(k, v, w). (k, w)) (registered L p dataFolder)"
    by (auto simp: registerSettings_eq)
  have keys: "distinct (map fst (registered L p dataFolder))" by (simp add: registered_def)
  have fst_vals: "map fst (settingValues st) = map fst (registered L p dataFolder)" by (auto simp: vals)
  with keys have dist: "distinct (map fst (settingValues st))" by simp
  have saved: "file_laws L (settingValues st)" using assms(1) by (simp add: vals)
  obtain j where j: "js_parse L (settings_save L st) = Some j" "set (js_entries L j) = set (settingValues st)"
      "distinct (map fst (js_entries L j))"
    using saved by (auto simp: file_laws_def settings_save_def)
  have entry: "map_of (settingValues st) k \<noteq> None \<and>
       (\<exists>text. json_to_string L v = Inr text \<and> (case validator_of k st of None \<Rightarrow> True | Some w \<Rightarrow> isValid L w text))"
    if "(k, v) \<in> set (js_entries L j)" for k v
  proof -
    from that obtain w where w: "(k, v, w) \<in> set (registered L p dataFolder)" by (auto simp: j(2) vals)
    have "distinct (map fst (validators st))" using keys by (simp add: vals o_def split_def)
    moreover have "(k, w) \<in> set (validators st)" using w by (force simp: vals)
    ultimately have "validator_of k st = w" by (simp add: validator_of_def)
    moreover have "map_of (settingValues st) k = Some v" using that dist by (simp add: j(2))
    ultimately show ?thesis using registered_valid [OF assms w] by simp
  qed
  obtain st' where st': "foldE (load_item L) (0, st) (js_entries L j) = Inr (length (js_entries L j), st')"
      "map_of (settingValues st') = map_of (settingValues st) ++ map_of (rev (js_entries L j))"
      "defaultValues st' = defaultValues st"
    using load_items [OF j(3), of st L 0] entry by auto
  have "map_of (rev (js_entries L j)) = map_of (settingValues st)"
    using j(2,3) dist by (subst map_of_inject_set) (auto simp flip: rev_map)
  then have same: "map_of (settingValues st') = map_of (settingValues st)"
    by (simp add: st'(2) map_add_def fun_eq_iff split: option.splits)
  have "initSettings L p dataFolder None = Inr (st, settings_save L st)"
    by (simp add: initSettings_def reg)
  moreover have "initSettings L p dataFolder (Some (settings_save L st)) = Inr (st', settings_save L st)"
    by (simp add: initSettings_def reg settings_load_def j(1) st'(1))
  ultimately show ?thesis using same st'(3) by blast
qed

section \<open>Witnesses\<close>

lemma demo_lexical_dec: "lexical_u64 demo_lib (u64_dec x) = Some x"
proof -
  have "dec_value (u64_dec x) < 2 ^ 64"
    using unsigned_less [of x, where 'a = nat] by (simp add: u64_dec_def)
  moreover have "set (u64_dec x) \<subseteq> set ''0123456789''"
    using nat_dec_digits unfolding dec_digits_def u64_dec_def .
  moreover have "u64_dec x \<noteq> []" by (simp add: u64_dec_def)
  ultimately show ?thesis by (simp add: demo_lexical_def u64_dec_def)
qed

theorem settings_set_spec_witness:
  "\<exists>st' j. settings_set demo_lib ''a'' ''on'' (registerBool demo_lib ''a'' False empty_settings) = Inr st'
     \<and> map_of (settingValues st') ''a'' = Some j \<and> js_kind_of demo_lib j = KBoolean"
proof -
  obtain st' where st': "settings_set demo_lib ''a'' ''on'' (registerBool demo_lib ''a'' False empty_settings) = Inr st'"
    by (simp add: settings_set_def registerBool_def register_value_def empty_settings_def validator_of_def check.passed
        isBoolean_def trueStrings_def falseStrings_def convert_value_def convertToBool_def)
  show ?thesis
    using settings_set_spec [OF demo_kind_laws st'] st'
    by (auto simp: registerBool_def register_value_def empty_settings_def)
qed

theorem registered_settings_gaps_witness:
  "\<exists>st. registerSettings demo_lib Linux ''/home'' = Inr st
     \<and> settings_set demo_lib ''logs.level'' ''debug'' st = Inl UndefinedBehaviour"
proof -
  obtain st where st: "registerSettings demo_lib Linux ''/home'' = Inr st" by (simp add: registerSettings_eq)
  have "lexical_u64 demo_lib ''70000'' = Some 70000" "lexical_u32 demo_lib ''70000'' = Some 70000"
    by (simp_all add: demo_lexical_def dec_value_def digit_value_def)
  then show ?thesis
    using registered_settings_gaps [OF demo_kind_laws demo_json_laws st] st by blast
qed

text \<open>A library whose parser knows the one file that is written.\<close>

definition demo_file_lib :: "json lib" where
  "demo_file_lib = demo_lib\<lparr>js_parse := \<lambda>s. Some (JObject (map (\<lambda>(k, v, w). (k, v)) (registered demo_lib Linux ''/home'')))\<rparr>"

theorem initSettings_twice_witness:
  "\<exists>st text st'. initSettings demo_file_lib Linux ''/home'' None = Inr (st, text)
     \<and> initSettings demo_file_lib Linux ''/home'' (Some text) = Inr (st', text)
     \<and> map_of (settingValues st') = map_of (settingValues st)"
proof -
  have laws: "json_laws demo_file_lib" "kind_laws demo_file_lib"
    using demo_json_laws demo_kind_laws
    by (simp_all add: demo_file_lib_def json_laws_def kind_laws_def js_object_def js_array_def)
  have reg: "registered demo_file_lib p f = registered demo_lib p f" for p f
    by (simp add: registered_def demo_file_lib_def)
  have "distinct (map fst (registered demo_lib Linux ''/home''))" by (simp add: registered_def)
  then have "distinct (map fst (map (\<lambda>(k, v, w). (k, v)) (registered demo_lib Linux ''/home'')))"
    by (simp add: o_def split_def)
  moreover have "lexical_u64 demo_file_lib (js_dump demo_file_lib (js_of_u64 demo_file_lib x)) = Some x" for x
    using demo_lexical_dec by (simp add: demo_file_lib_def)
  ultimately have "file_laws demo_file_lib (map (\<lambda>(k, v, w). (k, v)) (registered demo_file_lib Linux ''/home''))"
    unfolding file_laws_def reg by (simp add: demo_file_lib_def)
  then show ?thesis using initSettings_twice [OF _ laws] by blast
qed

end
