(* ===== verification/Peers.thy ===== *)
theory Peers
  imports Libs Ordered_Map
begin

text \<open>
  \<open>PeerManager.h\<close> and \<open>PeerManager.cpp\<close>: the peers of a node and the state of the connection to
  each, driven by the callbacks of the web socket client, the reconnect timer and the broadcast;
  and the frames a connection sends. Sockets and threads are identified by numbers.
\<close>

section \<open>State\<close>

datatype peer_state = OFFLINE | CONNECTING | CONNECTED

text \<open>\<open>client\<close> and \<open>connection\<close> are shared pointers, \<open>worker\<close> is a thread that runs the client.\<close>

record peer_data =
  client :: "nat option"
  connection :: "nat option"
  worker :: bool
  peerState :: peer_state

definition new_peer :: peer_data where
  "new_peer = \<lparr>client = None, connection = None, worker = False, peerState = OFFLINE\<rparr>"

text \<open>\<open>reconnecting\<close>: the thread of the reconnect worker runs; \<open>wsServer\<close>: the port of the running server.\<close>

record peer_manager =
  peers :: "peer_data smap"
  connectCallback :: bool
  reconnecting :: bool
  nextClient :: nat
  wsServer :: "16 word option"

definition empty_manager :: peer_manager where
  "empty_manager = \<lparr>peers = [], connectCallback = False, reconnecting = False, nextClient = 0, wsServer = None\<rparr>"

definition set_peer :: "string \<Rightarrow> peer_data \<Rightarrow> peer_manager \<Rightarrow> peer_manager" where
  "set_peer p d m = m\<lparr>peers := map_put p d (peers m)\<rparr>"

text \<open>\<open>_peers[peer]\<close>, which makes a fresh entry where there is none.\<close>

definition get_peer :: "string \<Rightarrow> peer_manager \<Rightarrow> peer_data" where
  "get_peer p m = (case map_of (peers m) p of Some d \<Rightarrow> d | None \<Rightarrow> new_peer)"

section \<open>Operations\<close>

text \<open>\<open>loadPeers\<close>: the lines of the peers file, or no file.\<close>

definition load_line :: "'j lib \<Rightarrow> string \<Rightarrow> peer_manager \<Rightarrow> peer_manager" where
  "load_line L line m = (if line \<noteq> [] then set_peer (trim L line) new_peer m else m)"

definition loadPeers :: "'j lib \<Rightarrow> string list option \<Rightarrow> peer_manager \<Rightarrow> peer_manager" where
  "loadPeers L file m = (case file of None \<Rightarrow> m | Some ls \<Rightarrow> fold (load_line L) ls m)"

text \<open>
  \<open>createClient\<close> joins a worker that is still there, makes a new client in state \<open>CONNECTING\<close> and
  starts a worker for it. The old connection stays until the new one opens.
\<close>

definition createClient :: "string \<Rightarrow> peer_manager \<Rightarrow> peer_manager" where
  "createClient p m =
     set_peer p ((get_peer p m)\<lparr>client := Some (nextClient m), peerState := CONNECTING, worker := True\<rparr>)
       (m\<lparr>nextClient := nextClient m + 1\<rparr>)"

text \<open>The callbacks assert that the peer is known; an empty client cannot be stopped.\<close>

definition known_peer :: "string \<Rightarrow> peer_manager \<Rightarrow> unit res" where
  "known_peer p m = assertE (map_of (peers m) p \<noteq> None)"

text \<open>\<open>on_open\<close>; the connect callback, once set, sends the first message over the new connection.\<close>

definition on_open :: "string \<Rightarrow> nat \<Rightarrow> peer_manager \<Rightarrow> (peer_manager \<times> (nat \<times> string) list) res" where
  "on_open p conn m =
     bindE (known_peer p m) (\<lambda>_.
     let m' = set_peer p ((get_peer p m)\<lparr>connection := Some conn, peerState := CONNECTED\<rparr>) m
     in Inr (m', if connectCallback m
                 then [(conn, ''{'' @ quoted ''message'' @ '':'' @ quoted ''summary'' @ '', '' @
                             quoted ''message-type'' @ '':'' @ quoted ''request'' @ ''}'')]
                 else []))"

definition go_offline :: "string \<Rightarrow> peer_manager \<Rightarrow> peer_manager res" where
  "go_offline p m =
     bindE (known_peer p m) (\<lambda>_.
     if client (get_peer p m) = None then Inl UndefinedBehaviour
     else Inr (set_peer p ((get_peer p m)\<lparr>peerState := OFFLINE\<rparr>) m))"

definition on_error :: "string \<Rightarrow> peer_manager \<Rightarrow> peer_manager res" where
  "on_error p m = go_offline p m"

definition on_close :: "string \<Rightarrow> peer_manager \<Rightarrow> peer_manager res" where
  "on_close p m = go_offline p m"

text \<open>One round of the reconnect worker: a new client for each peer that is offline.\<close>

definition reconnect :: "peer_manager \<Rightarrow> peer_manager" where
  "reconnect m =
     fold (\<lambda>(p, d) m'. if peerState d = OFFLINE then createClient p m' else m') (peers m) m"

text \<open>
  The worker that calls \<open>reconnect\<close>, in milliseconds: \<open>timer\<close> is the wait its timer has been set to, if
  it waits. \<open>privateRun\<close> tells whether the callback, which took \<open>elapsed\<close>, was called.
\<close>

record reconnect_worker =
  workerTimeout :: int
  workerShutdown :: bool
  timer :: "int option"

definition ConnectionRetryTimeout :: "bool \<Rightarrow> nat" where
  "ConnectionRetryTimeout rel = (if rel then 60 else 10)"

definition ReconnectWorker :: "nat \<Rightarrow> reconnect_worker" where
  "ReconnectWorker timeout = \<lparr>workerTimeout = int timeout, workerShutdown = False, timer = None\<rparr>"

definition worker_shutdown :: "reconnect_worker \<Rightarrow> reconnect_worker" where
  "worker_shutdown w = w\<lparr>workerShutdown := True\<rparr>"

definition worker_run :: "reconnect_worker \<Rightarrow> reconnect_worker" where
  "worker_run w = w\<lparr>timer := Some (workerTimeout w)\<rparr>"

definition privateRun :: "bool \<Rightarrow> int \<Rightarrow> reconnect_worker \<Rightarrow> reconnect_worker \<times> bool" where
  "privateRun ec elapsed w =
     (if \<not> ec \<and> \<not> workerShutdown w then (w\<lparr>timer := Some (workerTimeout w - elapsed)\<rparr>, True)
      else (w\<lparr>timer := None\<rparr>, False))"

text \<open>
  As long as nobody shuts it down the worker goes on, one call each \<open>timeout\<close> if the calls are
  shorter than that; after \<open>shutdown\<close> the wait that is under way is its last, and is not cut short.
\<close>

lemma worker_goes_on:
  assumes "\<not> workerShutdown w" and "elapsed \<le> workerTimeout w"
  shows "\<exists>w' t. privateRun False elapsed w = (w', True) \<and> timer w' = Some t \<and> elapsed + t = workerTimeout w \<and> 0 \<le> t
    \<and> \<not> workerShutdown w' \<and> workerTimeout w' = workerTimeout w"
  using assms by (simp add: privateRun_def)

lemma worker_ends:
  "timer (worker_shutdown w) = timer w"
  "privateRun ec elapsed (worker_shutdown w) = ((worker_shutdown w)\<lparr>timer := None\<rparr>, False)"
  by (simp_all add: privateRun_def worker_shutdown_def)

definition connectAll :: "peer_manager \<Rightarrow> peer_manager" where
  "connectAll m =
     (let m1 = m\<lparr>connectCallback := True\<rparr>
      in (fold (\<lambda>(p, d) m'. createClient p m') (peers m1) m1)\<lparr>reconnecting := True\<rparr>)"

definition broadcast :: "string \<Rightarrow> peer_manager \<Rightarrow> (nat \<times> string) list res" where
  "broadcast msg m =
     foldE (\<lambda>sent (p, d).
        if peerState d = CONNECTED
        then (case connection d of None \<Rightarrow> Inl AssertFailed | Some conn \<Rightarrow> Inr (sent @ [(conn, msg)]))
        else Inr sent)
       [] (peers m)"

text \<open>\<open>initWebSocketServer\<close>: the port is an \<open>unsigned short\<close> of the server, which starts in a thread.\<close>

definition initWebSocketServer :: "u32 \<Rightarrow> peer_manager \<Rightarrow> peer_manager" where
  "initWebSocketServer port m = m\<lparr>wsServer := Some (ucast port)\<rparr>"

text \<open>
  The destructor ends the reconnect worker, stops every client that has a worker and joins the
  worker, and stops the server.
\<close>

definition shutdown_peers :: "peer_manager \<Rightarrow> peer_manager" where
  "shutdown_peers m =
     m\<lparr>reconnecting := False, peers := map (\<lambda>(p, d). (p, d\<lparr>worker := False\<rparr>)) (peers m), wsServer := None\<rparr>"

section \<open>Frames\<close>

text \<open>\<open>ConnectionProxy\<close> holds a server or a client connection.\<close>

record connection_proxy =
  serverConn :: "nat option"
  clientConn :: "nat option"

definition server_proxy :: "nat \<Rightarrow> connection_proxy" where
  "server_proxy s = \<lparr>serverConn = Some s, clientConn = None\<rparr>"

definition client_proxy :: "nat \<Rightarrow> connection_proxy" where
  "client_proxy k = \<lparr>serverConn = None, clientConn = Some k\<rparr>"

text \<open>\<open>remote\<close> prints the remote address of a connection.\<close>

definition proxy_address :: "(nat \<Rightarrow> string) \<Rightarrow> connection_proxy \<Rightarrow> string res" where
  "proxy_address remote c =
     (case serverConn c of
        Some s \<Rightarrow> Inr (remote s)
      | None \<Rightarrow> (case clientConn c of Some k \<Rightarrow> Inr (remote k) | None \<Rightarrow> Inl AssertFailed))"

definition proxy_send :: "connection_proxy \<Rightarrow> string \<Rightarrow> (nat \<times> string) res" where
  "proxy_send c message =
     (case serverConn c of
        Some s \<Rightarrow> Inr (s, message)
      | None \<Rightarrow> (case clientConn c of Some k \<Rightarrow> Inr (k, message) | None \<Rightarrow> Inl AssertFailed))"

definition message_text :: "'j lib \<Rightarrow> string \<Rightarrow> string \<Rightarrow> string \<Rightarrow> string res" where
  "message_text L msg msgtype payload =
     bindE (if length payload > 0 then (case js_parse L payload of Some j \<Rightarrow> Inr j | None \<Rightarrow> Inl JsonError)
            else Inr (js_null L))
       (\<lambda>j. Inr (js_dump L (js_set L (js_set L j ''message'' (js_of_string L msg))
                              ''message-type'' (js_of_string L msgtype))))"

definition sendMessage ::
  "'j lib \<Rightarrow> connection_proxy \<Rightarrow> string \<Rightarrow> string \<Rightarrow> string \<Rightarrow> (nat \<times> string) res" where
  "sendMessage L c msg msgtype payload = bindE (message_text L msg msgtype payload) (proxy_send c)"

definition sendRequest :: "'j lib \<Rightarrow> connection_proxy \<Rightarrow> string \<Rightarrow> (nat \<times> string) res" where
  "sendRequest L c msg = sendMessage L c msg ''request'' []"

definition sendRequestData :: "'j lib \<Rightarrow> connection_proxy \<Rightarrow> string \<Rightarrow> string \<Rightarrow> (nat \<times> string) res" where
  "sendRequestData L c msg data = sendMessage L c msg ''request'' []"

definition sendRequestFmt :: "'j lib \<Rightarrow> connection_proxy \<Rightarrow> string \<Rightarrow> string \<Rightarrow> (nat \<times> string) res" where
  "sendRequestFmt L c msg formatted = sendMessage L c msg ''request'' formatted"

definition sendResponse :: "'j lib \<Rightarrow> connection_proxy \<Rightarrow> string \<Rightarrow> string \<Rightarrow> (nat \<times> string) res" where
  "sendResponse L c msg data = sendMessage L c msg ''response'' data"

definition sendResponseFmt :: "'j lib \<Rightarrow> connection_proxy \<Rightarrow> string \<Rightarrow> string \<Rightarrow> (nat \<times> string) res" where
  "sendResponseFmt L c msg formatted = sendMessage L c msg ''response'' formatted"

definition sendError :: "'j lib \<Rightarrow> connection_proxy \<Rightarrow> string \<Rightarrow> (nat \<times> string) res" where
  "sendError L c msg = sendMessage L c msg ''error'' []"

definition sendErrorFmt :: "'j lib \<Rightarrow> connection_proxy \<Rightarrow> string \<Rightarrow> (nat \<times> string) res" where
  "sendErrorFmt L c formatted = sendMessage L c formatted ''error'' []"

section \<open>What can happen, and what stays true\<close>

text \<open>
  The events of a running manager. A callback of a client can fire only for a peer that was given
  a client; an \<open>open\<close> comes while the client is connecting.
\<close>

inductive peer_step :: "'j lib \<Rightarrow> peer_manager \<Rightarrow> peer_manager \<Rightarrow> bool" for L where
  opened: "map_of (peers m) p = Some d \<Longrightarrow> client d \<noteq> None \<Longrightarrow> peerState d = CONNECTING \<Longrightarrow>
     on_open p conn m = Inr (m', sent) \<Longrightarrow> peer_step L m m'"
| failed: "map_of (peers m) p = Some d \<Longrightarrow> client d \<noteq> None \<Longrightarrow> on_error p m = Inr m' \<Longrightarrow> peer_step L m m'"
| closed: "map_of (peers m) p = Some d \<Longrightarrow> client d \<noteq> None \<Longrightarrow> on_close p m = Inr m' \<Longrightarrow> peer_step L m m'"
| tick: "reconnecting m \<Longrightarrow> peer_step L m (reconnect m)"
| loaded: "\<not> reconnecting m \<Longrightarrow> peer_step L m (loadPeers L file m)"
| started: "\<not> reconnecting m \<Longrightarrow> peer_step L m (connectAll m)"

inductive_simps peer_step_simps: "peer_step L m m'"

inductive peer_reachable :: "'j lib \<Rightarrow> peer_manager \<Rightarrow> bool" for L where
  init: "peer_reachable L empty_manager"
| step: "peer_reachable L m \<Longrightarrow> peer_step L m m' \<Longrightarrow> peer_reachable L m'"

text \<open>Every peer that is connected has a connection, every one not offline a client and a worker.\<close>

definition peer_ok :: "peer_data \<Rightarrow> bool" where
  "peer_ok d \<longleftrightarrow> (peerState d = CONNECTED \<longrightarrow> connection d \<noteq> None)
     \<and> (peerState d \<noteq> OFFLINE \<longrightarrow> client d \<noteq> None \<and> worker d)"

definition peers_ok :: "peer_manager \<Rightarrow> bool" where
  "peers_ok m \<longleftrightarrow> sorted_map (peers m) \<and> (\<forall>(p, d) \<in> set (peers m). peer_ok d)"

lemma new_peer_ok: "peer_ok new_peer"
  by (simp add: peer_ok_def new_peer_def)

lemma peers_okD: "peers_ok m \<Longrightarrow> peer_ok (get_peer p m)"
  by (auto simp: peers_ok_def get_peer_def peer_ok_def new_peer_def split: option.splits dest: map_of_SomeD)

lemma set_peer_ok [intro]:
  assumes "peers_ok m" and "peer_ok d"
  shows "peers_ok (set_peer p d m)"
proof -
  show ?thesis
    using assms set_map_put [of p d "peers m"] sorted_map_put [of "peers m"]
    by (auto simp: peers_ok_def set_peer_def)
qed

lemma createClient_ok: "peers_ok m \<Longrightarrow> peers_ok (createClient p m)"
proof -
  assume ok: "peers_ok m"
  have "peers_ok (m\<lparr>nextClient := n\<rparr>)" for n using ok by (simp add: peers_ok_def)
  moreover have "peer_ok ((get_peer p m)\<lparr>client := Some n, peerState := CONNECTING, worker := True\<rparr>)" for n
    by (simp add: peer_ok_def)
  ultimately show ?thesis unfolding createClient_def by (rule set_peer_ok)
qed

lemma fold_createClient_ok:
  "peers_ok m \<Longrightarrow> peers_ok (fold (\<lambda>(p, d) m'. if P d then createClient p m' else m') ps m)"
  by (induction ps arbitrary: m) (auto simp: createClient_ok split: if_splits)

lemma loadPeers_ok: "peers_ok m \<Longrightarrow> peers_ok (loadPeers L file m)"
proof -
  have "peers_ok (fold (load_line L) ls m)" if "peers_ok m" for ls
    using that
    by (induction ls arbitrary: m) (simp_all add: load_line_def new_peer_ok set_peer_ok)
  then show "peers_ok m \<Longrightarrow> ?thesis" by (simp add: loadPeers_def split: option.splits)
qed

lemma peer_step_ok:
  assumes "peer_step L m m'" and "peers_ok m"
  shows "peers_ok m'"
  using assms
proof cases
  case (opened p d conn sent)
  then have "peer_ok ((get_peer p m)\<lparr>connection := Some conn, peerState := CONNECTED\<rparr>)"
    using peers_okD [OF assms(2), of p] by (auto simp: peer_ok_def get_peer_def)
  with opened assms(2) show ?thesis by (auto simp: on_open_def res_simps Let_def)
next
  case (failed p d)
  with assms(2) show ?thesis by (auto simp: on_error_def go_offline_def res_simps peer_ok_def split: if_splits)
next
  case (closed p d)
  with assms(2) show ?thesis by (auto simp: on_close_def go_offline_def res_simps peer_ok_def split: if_splits)
next
  case tick
  with assms(2) show ?thesis by (simp add: reconnect_def fold_createClient_ok)
next
  case (loaded ls)
  with assms(2) show ?thesis by (simp add: loadPeers_ok)
next
  case started
  have "peers_ok (m\<lparr>connectCallback := True\<rparr>)" using assms(2) by (simp add: peers_ok_def)
  then have "peers_ok (fold (\<lambda>(p, d) m'. createClient p m') (peers m) (m\<lparr>connectCallback := True\<rparr>))"
    using fold_createClient_ok [of _ "\<lambda>d. True" "peers m"] by simp
  with started show ?thesis by (simp add: connectAll_def Let_def peers_ok_def)
qed

lemma peer_reachable_ok: "peer_reachable L m \<Longrightarrow> peers_ok m"
proof (induction rule: peer_reachable.induct)
  case init
  show ?case by (simp add: empty_manager_def peers_ok_def)
next
  case (step m m')
  then show ?case by (simp add: peer_step_ok)
qed

lemma broadcast_eq:
  assumes "\<forall>(p, d) \<in> set (peers m). peer_ok d"
  shows "broadcast msg m = Inr (map (\<lambda>(p, d). (the (connection d), msg)) (filter (\<lambda>(p, d). peerState d = CONNECTED) (peers m)))"
proof -
  have "foldE (\<lambda>sent (p, d).
        if peerState d = CONNECTED
        then (case connection d of None \<Rightarrow> Inl AssertFailed | Some conn \<Rightarrow> Inr (sent @ [(conn, msg)]))
        else Inr sent) sent ps
      = Inr (sent @ map (\<lambda>(p, d). (the (connection d), msg)) (filter (\<lambda>(p, d). peerState d = CONNECTED) ps))"
    if "\<forall>(p, d) \<in> set ps. peer_ok d" for ps sent
    using that by (induction ps arbitrary: sent) (auto simp: peer_ok_def)
  from this [OF assms, of "[]"] show ?thesis by (simp add: broadcast_def)
qed

text \<open>\<open>C26\<close>: in every reachable state a broadcast fails no assertion and sends the message exactly once
  to each connected peer, over its connection, and to nobody else; and the callbacks of a client
  never fail theirs.\<close>

theorem broadcast_reaches_connected:
  assumes "peer_reachable L m"
  shows "broadcast msg m =
      Inr (map (\<lambda>(p, d). (the (connection d), msg)) (filter (\<lambda>(p, d). peerState d = CONNECTED) (peers m)))
    \<and> (\<forall>(p, d) \<in> set (peers m). peerState d = CONNECTED \<longrightarrow> connection d \<noteq> None)
    \<and> (\<forall>p d. map_of (peers m) p = Some d \<and> client d \<noteq> None \<longrightarrow> (\<exists>m'. on_error p m = Inr m') \<and> (\<exists>r. on_open p c m = Inr r))"
proof -
  have ok: "\<forall>(p, d) \<in> set (peers m). peer_ok d"
    using peer_reachable_ok [OF assms] by (simp add: peers_ok_def)
  have "(\<exists>m'. on_error p m = Inr m') \<and> (\<exists>r. on_open p c m = Inr r)"
    if "map_of (peers m) p = Some d" "client d \<noteq> None" for p d
    using that by (simp add: on_error_def go_offline_def known_peer_def on_open_def get_peer_def Let_def)
  with ok show ?thesis by (auto simp: broadcast_eq peer_ok_def)
qed

lemma demo_peer_reachable:
  "peer_reachable demo_lib (connectAll (loadPeers demo_lib (Some [''a:1'', ''b:1'']) empty_manager))"
proof -
  let ?m = "loadPeers demo_lib (Some [''a:1'', ''b:1'']) empty_manager"
  have "peer_reachable demo_lib ?m"
    by (rule peer_reachable.step [OF peer_reachable.init peer_step.loaded]) (simp add: empty_manager_def)
  moreover have "\<not> reconnecting ?m"
    by (simp add: loadPeers_def load_line_def set_peer_def empty_manager_def)
  ultimately show ?thesis by (blast intro: peer_reachable.step peer_step.started)
qed

theorem broadcast_reaches_connected_witness:
  "\<exists>m. peer_reachable demo_lib m \<and> broadcast ''hello'' m = Inr [(7, ''hello'')]"
proof -
  let ?m = "connectAll (loadPeers demo_lib (Some [''a:1'', ''b:1'']) empty_manager)"
  have peers: "peers ?m = [(''a:1'', \<lparr>client = Some 0, connection = None, worker = True, peerState = CONNECTING\<rparr>),
      (''b:1'', \<lparr>client = Some 1, connection = None, worker = True, peerState = CONNECTING\<rparr>)]"
    by (simp add: connectAll_def loadPeers_def load_line_def set_peer_def empty_manager_def createClient_def
        get_peer_def new_peer_def Let_def)
  obtain m' sent where open': "on_open ''b:1'' 7 ?m = Inr (m', sent)"
    by (simp add: on_open_def known_peer_def peers Let_def)
  then have m': "peers m' = [(''a:1'', \<lparr>client = Some 0, connection = None, worker = True, peerState = CONNECTING\<rparr>),
      (''b:1'', \<lparr>client = Some 1, connection = Some 7, worker = True, peerState = CONNECTED\<rparr>)]"
    by (auto simp: on_open_def known_peer_def get_peer_def set_peer_def peers Let_def res_simps)
  have "peer_reachable demo_lib m'"
    by (rule peer_reachable.step [OF demo_peer_reachable peer_step.opened
          [where d = "\<lparr>client = Some 1, connection = None, worker = True, peerState = CONNECTING\<rparr>", OF _ _ _ open']])
      (simp_all add: peers)
  with broadcast_reaches_connected [OF this, of "''hello''" 0] m' show ?thesis by auto
qed

end
