(* ===== verification/Node.thy ===== *)
theory Node
  imports Accounts Database Mining Peers
begin

text \<open>
  \<open>MinerApp\<close> (\<open>MinerApp.h\<close>, \<open>MinerApp.cpp\<close>): the state of a node, its start, the rounds of the
  mining thread, the merging of a received chain, and the two sides of the chain protocol. What a
  call sends over its connection is returned as a list of frames.
\<close>

section \<open>State\<close>

text \<open>
  Where the mining thread stands in its loop: between two rounds (or not started), behind the test
  of the loop, with a new block before \<open>mineBlock\<close> clears the stop flag and in its search, with the outcome of the search, between appending the
  block and writing it to the database, before the merge that ends a round (with a block mined or
  not), and before the announcement of the new block.
\<close>

datatype mine_pc =
    Resting | Checked | Prepared block | Searching block | Found block | GivenUp block | Appended block
  | Merging bool | Announcing

text \<open>
  \<open>mineThread\<close> tells whether \<open>_mineThread\<close> holds a thread that nobody has joined, \<open>joining\<close> whether
  \<open>/rest/stopMining\<close> waits for that thread to end, \<open>finishing\<close> how many handlers of a frame stand before
  their last statement, the merge when no mining is on, and
  \<open>resetEnable\<close> is the setting \<open>chain.reset.enable\<close>.
\<close>

record node =
  nodeChain :: blockchain
  tempchain :: "blockchain option"
  database :: chain_db
  nodeMiner :: miner_state
  minePc :: mine_pc
  miningDone :: bool
  mineThread :: bool
  joining :: bool
  finishing :: nat
  nodeDone :: bool
  rewardAddress :: string
  nodeUuid :: string
  resetEnable :: bool
  nodePeers :: peer_manager

definition stopMining :: "node \<Rightarrow> node" where
  "stopMining n = n\<lparr>miningDone := True, nodeMiner := miner_abort (nodeMiner n)\<rparr>"

definition signalExit :: "node \<Rightarrow> node" where
  "signalExit n = (stopMining n)\<lparr>nodeDone := True\<rparr>"

section \<open>Start\<close>

text \<open>The genesis callback; the data is set behind the constructor that computed the hash.\<close>

definition genesisBlock :: "'j lib \<Rightarrow> block_time \<Rightarrow> string \<Rightarrow> string \<Rightarrow> string \<Rightarrow> block" where
  "genesisBlock L now reward uuid gendata =
     setData gendata (setMiner uuid (new_block L now 0 [] [CreateCoinbaseTransaction L 0 reward]))"

text \<open>\<open>run\<close> up to the start of the threads; \<open>None\<close> when no reward address has been configured.\<close>

definition node_start ::
  "'j lib \<Rightarrow> block_time \<Rightarrow> string \<Rightarrow> bool \<Rightarrow> bool \<Rightarrow> node \<Rightarrow> node res option" where
  "node_start L now gendata indexOk autostart n =
     (if rewardAddress n = [] \<or> rewardAddress n = ''<CHANGE ME>'' then None
      else let gcb = Some (genesisBlock L now (rewardAddress n) (nodeUuid n) gendata);
               (db, loaded) = db_initialize L gcb indexOk (nodeChain n) (database n)
           in Some (bindE loaded (\<lambda>c.
                Inr (n\<lparr>nodeChain := c, database := db,
                       miningDone := (if autostart then miningDone n else True),
                       mineThread := (autostart \<or> mineThread n)\<rparr>))))"

section \<open>Merging a received chain\<close>

text \<open>The two loops over the received blocks; the result of \<open>addNewBlock\<close> only matters to the second.\<close>

definition add_blocks :: "'j lib \<Rightarrow> block list \<Rightarrow> blockchain \<Rightarrow> blockchain res" where
  "add_blocks L bs c = foldE (\<lambda>c b. bindE (addNewBlock L b c) (\<lambda>(added, c'). Inr c')) c bs"

definition add_and_write :: "'j lib \<Rightarrow> block list \<Rightarrow> blockchain \<times> chain_db \<Rightarrow> (blockchain \<times> chain_db) res" where
  "add_and_write L bs s =
     foldE (\<lambda>(c, db) b. bindE (addNewBlock L b c)
              (\<lambda>(added, c'). Inr (c', if added then db_write b db else db))) s bs"

definition syncBlockchain :: "'j lib \<Rightarrow> node \<Rightarrow> (bool \<times> node) res" where
  "syncBlockchain L n =
     (case tempchain n of
        None \<Rightarrow> Inr (False, n)
      | Some t \<Rightarrow>
          bindE (frontE (blocks t)) (\<lambda>tfront.
          bindE (if index tfront = 0
                 then Inr (True, n\<lparr>nodeChain := t, database := db_writeChain t (db_reset (database n))\<rparr>)
                 else bindE (backE (blocks (nodeChain n))) (\<lambda>lback.
                   if index tfront \<le> index lback
                   then bindE (add_blocks L (blocks t) (chain_resize (unat (index tfront)) (nodeChain n))) (\<lambda>c'.
                        Inr (True, n\<lparr>nodeChain := c', database := db_writeChain c' (db_reset (database n))\<rparr>))
                   else if index tfront = index lback + 1
                   then bindE (add_and_write L (blocks t) (nodeChain n, database n)) (\<lambda>(c', db').
                        Inr (True, n\<lparr>nodeChain := c', database := db'\<rparr>))
                   else Inr (False, n)))
            (\<lambda>(retval, n'). Inr (retval, n'\<lparr>tempchain := None\<rparr>))))"

section \<open>The mining thread\<close>

definition keepMining :: "node \<Rightarrow> u64 \<Rightarrow> bool res" where
  "keepMining n idx =
     (case tempchain n of
        None \<Rightarrow> Inr True
      | Some t \<Rightarrow> (if chain_size t = 0 then Inr True
                  else bindE (backE (blocks t)) (\<lambda>b. Inr (index b < idx))))"

text \<open>The first locked section of a round.\<close>

definition mine_prepare :: "'j lib \<Rightarrow> bool \<Rightarrow> block_time \<Rightarrow> node \<Rightarrow> node res" where
  "mine_prepare L rel now n =
     bindE (getAdjustedDifficulty rel (nodeChain n)) (\<lambda>newDifficulty.
     bindE (createUnminedBlock L now (rewardAddress n) (nodeChain n)) (\<lambda>(b, c').
     Inr (n\<lparr>nodeChain := c', nodeMiner := setDifficulty newDifficulty (nodeMiner n),
            minePc := Prepared (setData (''coinbase block #'' @ u64_dec (index b)) (setMiner (nodeUuid n) b))\<rparr>)))"

definition broadcastNewBlock :: "'j lib \<Rightarrow> node \<Rightarrow> (nat \<times> string) list res" where
  "broadcastNewBlock L n =
     bindE (backE (blocks (nodeChain n))) (\<lambda>b.
     bindE (cumDifficulty (nodeChain n)) (\<lambda>cd.
     broadcast (js_dump L (js_object L
       [(''message'', js_of_string L ''newblock''), (''message-type'', js_of_string L ''request''),
        (''block'', block_to_json L b), (''cumdiff'', js_of_u64 L cd)])) (nodePeers n)))"

text \<open>
  \<open>mineBlock\<close> clears the stop flag and searches. What follows, one access to the shared chain or file at a time: only the giving back of
  the transactions, the merge and the announcement are under the chain mutex.
\<close>

definition mine_reset :: "block \<Rightarrow> node \<Rightarrow> node" where
  "mine_reset b n = n\<lparr>nodeMiner := (nodeMiner n)\<lparr>keepTrying := True\<rparr>, minePc := Searching b\<rparr>"

lemma mine_reset_fields [simp]:
  "nodeChain (mine_reset b n) = nodeChain n" "database (mine_reset b n) = database n"
  "tempchain (mine_reset b n) = tempchain n" "nodePeers (mine_reset b n) = nodePeers n"
  "miningDone (mine_reset b n) = miningDone n" "minePc (mine_reset b n) = Searching b"
  "nodeMiner (mine_reset b n) = (nodeMiner n)\<lparr>keepTrying := True\<rparr>"
  by (simp_all add: mine_reset_def)

definition mine_search :: "mine_result \<Rightarrow> block \<Rightarrow> node \<Rightarrow> node" where
  "mine_search result b n = n\<lparr>minePc := (if result = MINED then Found b else GivenUp b)\<rparr>"

definition mine_giveup :: "'j lib \<Rightarrow> block \<Rightarrow> node \<Rightarrow> node res" where
  "mine_giveup L b n =
     bindE (reQueueTransactions b (nodeChain n)) (\<lambda>(count, c'). Inr (n\<lparr>nodeChain := c', minePc := Merging False\<rparr>))"

definition mine_append :: "'j lib \<Rightarrow> block \<Rightarrow> node \<Rightarrow> node res" where
  "mine_append L b n =
     bindE (addNewBlock L b (nodeChain n)) (\<lambda>(added, c').
     Inr (if \<not> added then n\<lparr>miningDone := True, minePc := Resting\<rparr>
          else n\<lparr>nodeChain := c', minePc := Appended b\<rparr>))"

definition mine_write :: "block \<Rightarrow> node \<Rightarrow> node" where
  "mine_write b n = n\<lparr>database := db_write b (database n), minePc := Merging True\<rparr>"

definition mine_merge :: "'j lib \<Rightarrow> bool \<Rightarrow> node \<Rightarrow> node res" where
  "mine_merge L mined n =
     bindE (syncBlockchain L n) (\<lambda>(synced, n').
     Inr (n'\<lparr>minePc := (if mined \<and> \<not> synced then Announcing else Resting)\<rparr>))"

definition mine_announce :: "'j lib \<Rightarrow> node \<Rightarrow> (node \<times> (nat \<times> string) list) res" where
  "mine_announce L n = bindE (broadcastNewBlock L n) (\<lambda>frames. Inr (n\<lparr>minePc := Resting\<rparr>, frames))"

text \<open>The rest of a round when nobody comes between; the miner has left its result in block \<open>b\<close>.\<close>

definition mine_finish ::
  "'j lib \<Rightarrow> mine_result \<Rightarrow> block \<Rightarrow> node \<Rightarrow> (node \<times> (nat \<times> string) list) res" where
  "mine_finish L result b n =
     (if result \<noteq> MINED
      then bindE (mine_giveup L b n) (\<lambda>n1. bindE (mine_merge L False n1) (\<lambda>n2. Inr (n2, [])))
      else bindE (mine_append L b n) (\<lambda>n1.
           if minePc n1 = Resting then Inr (n1, [])
           else bindE (mine_merge L True (mine_write b n1)) (\<lambda>n2.
                if minePc n2 = Resting then Inr (n2, []) else mine_announce L n2)))"

section \<open>The server side of the protocol\<close>

text \<open>The blocks from index \<open>id1\<close> to index \<open>id2\<close>, \<open>None\<close> when no block has index \<open>id1\<close>.\<close>

definition serve_range :: "blockchain \<Rightarrow> u64 \<Rightarrow> u64 \<Rightarrow> block list option" where
  "serve_range c id1 id2 =
     (case dropWhile (\<lambda>b. index b \<noteq> id1) (blocks c) of
        [] \<Rightarrow> None
      | start # rest \<Rightarrow> Some (takeWhile (\<lambda>b. index b \<le> id2) (start # rest)))"

definition error_reply :: "'j lib \<Rightarrow> string \<Rightarrow> 'j" where
  "error_reply L text = js_object L [(''error'', js_of_string L text)]"

text \<open>\<open>jresponse["blocks"].push_back(b)\<close> for each block: no key at all when there is none.\<close>

definition blocks_reply :: "'j lib \<Rightarrow> block list \<Rightarrow> 'j" where
  "blocks_reply L bs = (if bs = [] then js_null L else js_object L [(''blocks'', blocks_to_json L bs)])"

definition chain_reply :: "'j lib \<Rightarrow> node \<Rightarrow> 'j \<Rightarrow> 'j res" where
  "chain_reply L n json =
     (if \<not> js_contains L json ''id1'' \<and> \<not> js_contains L json ''id2''
      then Inr (js_object L [(''blocks'', blockchain_to_json L (nodeChain n))])
      else bindE (js_at L json ''id1'') (\<lambda>j1.
           if \<not> js_is_number L j1 then Inr (error_reply L (''invalid '' @ CHR 0x27 # ''id1'' @ CHR 0x27 # '' value''))
           else bindE (js_at L json ''id2'') (\<lambda>j2.
           if \<not> js_is_number L j2 then Inr (error_reply L (''invalid '' @ CHR 0x27 # ''id2'' @ CHR 0x27 # '' value''))
           else bindE (js_get_u64 L j1) (\<lambda>id1.
                bindE (js_get_u64 L j2) (\<lambda>id2.
                case serve_range (nodeChain n) id1 id2 of
                  None \<Rightarrow> Inr (error_reply L ''could not find id1 in chain'')
                | Some bs \<Rightarrow> Inr (blocks_reply L bs))))))"

definition summary_reply :: "'j lib \<Rightarrow> node \<Rightarrow> 'j res" where
  "summary_reply L n =
     bindE (frontE (blocks (nodeChain n))) (\<lambda>f.
     bindE (backE (blocks (nodeChain n))) (\<lambda>b.
     bindE (cumDifficulty (nodeChain n)) (\<lambda>cd.
     Inr (js_object L [(''blocks'', blocks_to_json L [f, b]), (''cumdiff'', js_of_u64 L cd)]))))"

text \<open>For \<open>newblock\<close>: whether the sender's chain looks better, so that its summary is requested.\<close>

definition newblock_is_better :: "'j lib \<Rightarrow> node \<Rightarrow> 'j \<Rightarrow> bool res" where
  "newblock_is_better L n json =
     bindE (bindE (js_at L json ''block'') (block_from_json L)) (\<lambda>newblock.
     bindE (at_u64 L json ''cumdiff'') (\<lambda>remote_cumdiff.
     bindE (cumDifficulty (nodeChain n)) (\<lambda>local_cumdiff.
     if remote_cumdiff > local_cumdiff then Inr True
     else if remote_cumdiff = local_cumdiff
     then bindE (backE (blocks (nodeChain n))) (\<lambda>b. Inr (index newblock > index b))
     else Inr False)))"

definition createtx_reply :: "'j lib \<Rightarrow> 'j \<Rightarrow> 'j res" where
  "createtx_reply L json =
     (if \<not> js_contains L json ''privatekey'' \<or> \<not> js_contains L json ''toaddress'' \<or> \<not> js_contains L json ''amount''
      then Inr (error_reply L ''invalid transaction'')
      else bindE (at_string L json ''privatekey'') (\<lambda>privatekey.
           bindE (at_string L json ''toaddress'') (\<lambda>toaddress.
           bindE (at_double L json ''amount'') (\<lambda>amt. Inr (js_null L)))))"

text \<open>A request changes nothing at the node; its result is what is sent back.\<close>

definition dispatchRequest ::
  "'j lib \<Rightarrow> node \<Rightarrow> connection_proxy \<Rightarrow> 'j \<Rightarrow> (nat \<times> string) list res" where
  "dispatchRequest L n conn json =
     bindE (at_string L json ''message'') (\<lambda>message.
     let respond = (\<lambda>j. bindE (sendResponse L conn message (js_dump L j)) (\<lambda>f. Inr [f]))
     in if message = ''summary'' then bindE (summary_reply L n) respond
        else if message = ''chain'' then bindE (chain_reply L n json) respond
        else if message = ''newblock''
        then bindE (newblock_is_better L n json) (\<lambda>better.
             if better then bindE (sendRequest L conn ''summary'') (\<lambda>f. Inr [f]) else respond (js_null L))
        else if message = ''createtx'' then bindE (createtx_reply L json) respond
        else Inr [])"

section \<open>The client side of the protocol\<close>

text \<open>The formatted payload of a request for a range.\<close>

definition range_text :: "string \<Rightarrow> u64 \<Rightarrow> u64 \<Rightarrow> string" where
  "range_text prefix a b =
     ''{ '' @ prefix @ quoted ''id1'' @ '':'' @ u64_dec a @ '','' @ quoted ''id2'' @ '':'' @ u64_dec b @ '' }''"

definition request_range :: "'j lib \<Rightarrow> connection_proxy \<Rightarrow> string \<Rightarrow> u64 \<Rightarrow> u64 \<Rightarrow> (nat \<times> string) list res" where
  "request_range L conn prefix a b = bindE (sendRequestFmt L conn ''chain'' (range_text prefix a b)) (\<lambda>f. Inr [f])"

definition handleChainResponse ::
  "'j lib \<Rightarrow> connection_proxy \<Rightarrow> blockchain \<Rightarrow> node \<Rightarrow> (node \<times> (nat \<times> string) list) res" where
  "handleChainResponse L conn t n =
     bindE (frontE (blocks t)) (\<lambda>tfront.
     bindE (backE (blocks t)) (\<lambda>tback.
     if index tfront = 0 then Inr (n\<lparr>tempchain := Some t\<rparr>, [])
     else bindE (backE (blocks (nodeChain n))) (\<lambda>lback.
       if index tfront > index lback + 1
       then bindE (request_range L conn (quoted ''message'' @ '':'' @ quoted ''chain'' @ '','')
                     (index lback + 1) (index tback)) (\<lambda>frames. Inr (n, frames))
       else let tempStartIdx = index tfront - 1
            in bindE (assertE (unat tempStartIdx < chain_size (nodeChain n) \<and> tempStartIdx > 0)) (\<lambda>_.
               bindE (atE (blocks (nodeChain n)) (unat tempStartIdx)) (\<lambda>b.
               if previousHash tfront = hash b then Inr (n\<lparr>tempchain := Some t\<rparr>, [])
               else bindE (request_range L conn [] (index tfront - 1) (index tback)) (\<lambda>frames. Inr (n, frames)))))))"

text \<open>A summary; \<open>None\<close> stands for the early return on a malformed message.\<close>

definition handle_summary ::
  "'j lib \<Rightarrow> connection_proxy \<Rightarrow> 'j \<Rightarrow> node \<Rightarrow> (nat \<times> string) list option res" where
  "handle_summary L conn json n =
     (if \<not> js_contains L json ''blocks'' then Inr None
      else bindE (js_at L json ''blocks'') (\<lambda>jblocks.
      if \<not> js_is_array L jblocks \<or> length (js_items L jblocks) \<noteq> 2 \<or> \<not> js_contains L json ''cumdiff'' then Inr None
      else bindE (block_from_json L (js_items L jblocks ! 0)) (\<lambda>remote_gen.
           bindE (block_from_json L (js_items L jblocks ! 1)) (\<lambda>remote_last.
           bindE (cumDifficulty (nodeChain n)) (\<lambda>local_cumdiff.
           bindE (at_u64 L json ''cumdiff'') (\<lambda>remote_cumdiff.
           let ours = (case tempchain n of Some t \<Rightarrow> t | None \<Rightarrow> nodeChain n)
           in bindE (frontE (blocks ours)) (\<lambda>genesis.
              bindE (backE (blocks ours)) (\<lambda>lastblock.
              if \<not> block_equal genesis remote_gen
              then (if resetEnable n then bindE (sendRequest L conn ''chain'') (\<lambda>f. Inr (Some [f])) else Inr (Some []))
              else if local_cumdiff < remote_cumdiff
              then bindE (request_range L conn [] (index lastblock + 1) (index remote_last)) (\<lambda>fs. Inr (Some fs))
              else Inr (Some [])))))))))"

text \<open>
  A response up to the last statement of its handler, and whether the handler gets there; then the
  merge, if no mining is on.
\<close>

definition handleResponse_part ::
  "'j lib \<Rightarrow> connection_proxy \<Rightarrow> 'j \<Rightarrow> node \<Rightarrow> (bool \<times> node \<times> (nat \<times> string) list) res" where
  "handleResponse_part L conn json n =
     bindE (at_string L json ''message'') (\<lambda>message.
     if message = ''summary''
     then bindE (handle_summary L conn json n) (\<lambda>r.
          case r of None \<Rightarrow> Inr (False, n, []) | Some fs \<Rightarrow> Inr (True, n, fs))
     else if message = ''chain''
     then bindE (bindE (js_at L json ''blocks'') (blockchain_from_json L)) (\<lambda>t.
          bindE (if chain_size t \<le> 0 then Inr False else isValidChain L t) (\<lambda>ok.
          if ok then bindE (handleChainResponse L conn t n) (\<lambda>(n', fs). Inr (True, n', fs))
          else Inr (False, n, [])))
     else Inr (True, n, []))"

definition handler_end :: "'j lib \<Rightarrow> node \<Rightarrow> node res" where
  "handler_end L n = (if miningDone n then bindE (syncBlockchain L n) (\<lambda>(synced, n'). Inr n') else Inr n)"

definition handler_rest :: "'j lib \<Rightarrow> bool \<times> node \<times> (nat \<times> string) list \<Rightarrow> (node \<times> (nat \<times> string) list) res" where
  "handler_rest L s = (case s of (go, n, fs) \<Rightarrow> if go then bindE (handler_end L n) (\<lambda>n'. Inr (n', fs)) else Inr (n, fs))"

definition handleResponse ::
  "'j lib \<Rightarrow> connection_proxy \<Rightarrow> 'j \<Rightarrow> node \<Rightarrow> (node \<times> (nat \<times> string) list) res" where
  "handleResponse L conn json n = bindE (handleResponse_part L conn json n) (handler_rest L)"

text \<open>The handler of an incoming frame, up to the merge of a response, and as a whole.\<close>

definition onChainMessage_part ::
  "'j lib \<Rightarrow> connection_proxy \<Rightarrow> string \<Rightarrow> node \<Rightarrow> (bool \<times> node \<times> (nat \<times> string) list) res" where
  "onChainMessage_part L conn rawmsg n =
     (let malformed = bindE (sendError L conn ''the recieved message was malformed'') (\<lambda>f. Inr (False, n, [f]))
      in case js_parse L rawmsg of
           None \<Rightarrow> malformed
         | Some json \<Rightarrow>
             if \<not> js_contains L json ''message'' \<or> \<not> js_contains L json ''message-type'' then malformed
             else bindE (at_string L json ''message'') (\<lambda>message.
                  bindE (at_string L json ''message-type'') (\<lambda>msgtype.
                  if msgtype = ''request'' then bindE (dispatchRequest L n conn json) (\<lambda>fs. Inr (False, n, fs))
                  else if msgtype = ''response'' then handleResponse_part L conn json n
                  else if msgtype = ''error'' then Inr (False, n, [])
                  else bindE (sendErrorFmt L conn (''the received message-type was unknown '' @ CHR 0x27 # msgtype @ [CHR 0x27]))
                         (\<lambda>f. Inr (False, n, [f])))))"

definition onChainMessage ::
  "'j lib \<Rightarrow> connection_proxy \<Rightarrow> string \<Rightarrow> node \<Rightarrow> (node \<times> (nat \<times> string) list) res" where
  "onChainMessage L conn rawmsg n = bindE (onChainMessage_part L conn rawmsg n) (handler_rest L)"

lemmas handleResponse_defs = handleResponse_def handleResponse_part_def handler_rest_def handler_end_def
lemmas onChainMessage_defs = onChainMessage_def onChainMessage_part_def

text \<open>The two places where frames come in: the server's endpoint and the clients of the peers.\<close>

definition server_on_message :: "'j lib \<Rightarrow> nat \<Rightarrow> string \<Rightarrow> node \<Rightarrow> (node \<times> (nat \<times> string) list) res" where
  "server_on_message L s message n = onChainMessage L (server_proxy s) message n"

definition client_on_message :: "'j lib \<Rightarrow> nat \<Rightarrow> string \<Rightarrow> node \<Rightarrow> (node \<times> (nat \<times> string) list) res" where
  "client_on_message L k message n = onChainMessage L (client_proxy k) message n"

section \<open>The invariant of a node\<close>

text \<open>
  \<open>U\<close> is the set of all blocks the node ever sees. It is consistent when a hash names a position:
  a block that carries the hash of another one as its previous hash has the index after it.
\<close>

definition consistent :: "block set \<Rightarrow> bool" where
  "consistent U \<longleftrightarrow> (\<forall>b \<in> U. \<forall>p \<in> U. previousHash b = hash p \<longrightarrow> index b = index p + 1)"

definition chain_ok :: "'j lib \<Rightarrow> block set \<Rightarrow> block list \<Rightarrow> bool" where
  "chain_ok L U bs \<longleftrightarrow> bs \<noteq> [] \<and> set bs \<subseteq> U \<and> valid_blocks L bs \<and> index (hd bs) = 0"

definition temp_ok :: "'j lib \<Rightarrow> block set \<Rightarrow> blockchain option \<Rightarrow> bool" where
  "temp_ok L U tc \<longleftrightarrow>
     (case tc of None \<Rightarrow> True | Some t \<Rightarrow> blocks t \<noteq> [] \<and> set (blocks t) \<subseteq> U \<and> valid_blocks L (blocks t))"

definition node_ok :: "'j lib \<Rightarrow> block set \<Rightarrow> node \<Rightarrow> bool" where
  "node_ok L U n \<longleftrightarrow> chain_ok L U (blocks (nodeChain n)) \<and> db_holds (database n) (blocks (nodeChain n))
     \<and> temp_ok L U (tempchain n)"

text \<open>The file holds some blocks of \<open>U\<close>, and in particular the chain, or not.\<close>

definition file_ok :: "block set \<Rightarrow> chain_db \<Rightarrow> bool" where
  "file_ok U db \<longleftrightarrow> (\<exists>fs. db_holds db fs \<and> fs \<noteq> [] \<and> set fs \<subseteq> U \<and> index (hd fs) = 0)"

definition node_sound :: "'j lib \<Rightarrow> block set \<Rightarrow> node \<Rightarrow> bool" where
  "node_sound L U n \<longleftrightarrow> chain_ok L U (blocks (nodeChain n)) \<and> temp_ok L U (tempchain n) \<and> file_ok U (database n)"

lemma file_okI: "db_holds db fs \<Longrightarrow> chain_ok L U fs \<Longrightarrow> file_ok U db"
  by (auto simp: file_ok_def chain_ok_def)

lemma node_ok_iff: "node_ok L U n \<longleftrightarrow> node_sound L U n \<and> db_holds (database n) (blocks (nodeChain n))"
  by (auto simp: node_ok_def node_sound_def intro: file_okI)

lemma node_ok_sound: "node_ok L U n \<Longrightarrow> node_sound L U n"
  by (simp add: node_ok_iff)

lemma chain_ok_snoc:
  assumes "consistent U" and "chain_ok L U bs" and "b \<in> U" and "ValidHash L b" and "previousHash b = hash (last bs)"
  shows "chain_ok L U (bs @ [b])"
proof -
  have "last bs \<in> U" using assms(2) by (auto simp: chain_ok_def)
  with assms show ?thesis
    by (auto simp: chain_ok_def consistent_def valid_blocks_snoc valid_pair_def ValidHash_iff)
qed

lemma addNewBlock_ok:
  assumes "consistent U" and "chain_ok L U (blocks c)" and "b \<in> U"
  shows "\<exists>added c'. addNewBlock L b c = Inr (added, c') \<and> chain_ok L U (blocks c')
    \<and> blocks c' = blocks c @ (if added then [b] else [])"
proof -
  have "blocks c \<noteq> []" using assms(2) by (simp add: chain_ok_def)
  then show ?thesis using assms chain_ok_snoc [of U L "blocks c" b] by (auto simp: addNewBlock_eq)
qed

lemma add_and_write_sound:
  assumes "consistent U" and "\<forall>b \<in> U. storable b" and "set bs \<subseteq> U"
    and "chain_ok L U (blocks c)" and "db_holds db fs"
  shows "\<exists>c' db' new. add_and_write L bs (c, db) = Inr (c', db') \<and> chain_ok L U (blocks c')
    \<and> blocks c' = blocks c @ new \<and> db_holds db' (fs @ new)"
  using assms(3-5)
proof (induction bs arbitrary: c db fs)
  case Nil
  then show ?case by (simp add: add_and_write_def)
next
  case (Cons b bs)
  then obtain added c1 where c1: "addNewBlock L b c = Inr (added, c1)" "chain_ok L U (blocks c1)"
      "blocks c1 = blocks c @ (if added then [b] else [])"
    using addNewBlock_ok [OF assms(1), of L c b] by auto
  have "db_holds (if added then db_write b db else db) (fs @ (if added then [b] else []))"
    using Cons.prems assms(2) db.holds_write [of db fs b] by auto
  from Cons.IH [OF _ c1(2) this] Cons.prems(1) obtain c' db' new where
    "add_and_write L bs (c1, if added then db_write b db else db) = Inr (c', db')" "chain_ok L U (blocks c')"
    "blocks c' = blocks c1 @ new" "db_holds db' ((fs @ (if added then [b] else [])) @ new)" by auto
  with c1 show ?case
    by (intro exI [of _ c'] exI [of _ db'] exI [of _ "(if added then [b] else []) @ new"]) (simp add: add_and_write_def)
qed

lemma add_and_write_ok:
  assumes "consistent U" and "\<forall>b \<in> U. storable b" and "set bs \<subseteq> U"
    and "chain_ok L U (blocks c)" and "db_holds db (blocks c)"
  shows "\<exists>c' db'. add_and_write L bs (c, db) = Inr (c', db') \<and> chain_ok L U (blocks c') \<and> db_holds db' (blocks c')"
  using add_and_write_sound [OF assms] by metis

lemma add_blocks_ok:
  assumes "consistent U" and "set bs \<subseteq> U" and "chain_ok L U (blocks c)"
  shows "\<exists>c'. add_blocks L bs c = Inr c' \<and> chain_ok L U (blocks c')"
  using assms(2,3)
proof (induction bs arbitrary: c)
  case Nil
  then show ?case by (simp add: add_blocks_def)
next
  case (Cons b bs)
  then obtain added c1 where c1: "addNewBlock L b c = Inr (added, c1)" "chain_ok L U (blocks c1)"
    using addNewBlock_ok [OF assms(1), of L c b] by auto
  with Cons.IH [of c1] Cons.prems show ?case by (simp add: add_blocks_def)
qed

lemma unat_index_last:
  assumes "chain_ok L U bs"
  shows "unat (index (last bs)) < length bs"
proof -
  have "index (last bs) = word_of_nat (length bs - 1)"
    using assms by (intro indexed_blocks_last) (auto simp: chain_ok_def valid_blocks_indexed)
  moreover have "unat (word_of_nat (length bs - 1) :: u64) \<le> length bs - 1"
    by (simp add: unat_of_nat)
  moreover have "bs \<noteq> []" using assms by (simp add: chain_ok_def)
  ultimately show ?thesis by (simp add: Suc_le_eq less_le_trans) (metis Suc_pred length_greater_0_conv less_Suc_eq_le)
qed

lemma chain_ok_take: "chain_ok L U bs \<Longrightarrow> 0 < k \<Longrightarrow> chain_ok L U (take k bs)"
  by (auto simp: chain_ok_def valid_blocks_take dest: in_set_takeD)

text \<open>
  Merging always returns, keeps the chain valid and empties the temporary chain; a file that held the
  chain holds the new one.
\<close>

lemma syncBlockchain_sound:
  assumes "consistent U" and "\<forall>b \<in> U. storable b" and "node_sound L U n"
  shows "\<exists>r n'. syncBlockchain L n = Inr (r, n') \<and> node_sound L U n' \<and> tempchain n' = None
    \<and> (db_holds (database n) (blocks (nodeChain n)) \<longrightarrow> db_holds (database n') (blocks (nodeChain n')))"
proof (cases "tempchain n")
  case None
  with assms show ?thesis by (auto simp: syncBlockchain_def)
next
  case (Some t)
  have t: "blocks t \<noteq> []" "set (blocks t) \<subseteq> U" "valid_blocks L (blocks t)"
    using assms(3) Some by (simp_all add: node_sound_def temp_ok_def)
  have c: "chain_ok L U (blocks (nodeChain n))" using assms(3) by (simp add: node_sound_def)
  obtain fs where fs: "db_holds (database n) fs" "fs \<noteq> []" "set fs \<subseteq> U" "index (hd fs) = 0"
    using assms(3) by (auto simp: node_sound_def file_ok_def)
  have rewrite: "db_holds (db_writeChain c' (db_reset (database n))) (blocks c')"
      "file_ok U (db_writeChain c' (db_reset (database n)))" if "chain_ok L U (blocks c')" for c'
  proof -
    show "db_holds (db_writeChain c' (db_reset (database n))) (blocks c')"
      using db.holds_rewrite [OF fs(1), of c'] that assms(2) by (auto simp: chain_ok_def)
    then show "file_ok U (db_writeChain c' (db_reset (database n)))" using that by (rule file_okI)
  qed
  let ?k = "index (hd (blocks t))" and ?l = "index (last (blocks (nodeChain n)))"
  have front: "frontE (blocks t) = Inr (hd (blocks t))" "backE (blocks (nodeChain n)) = Inr (last (blocks (nodeChain n)))"
    using t(1) c by (simp_all add: frontE_def backE_def chain_ok_def)
  consider "?k = 0" | "?k \<noteq> 0" "?k \<le> ?l" | "?k \<noteq> 0" "\<not> ?k \<le> ?l" "?k = ?l + 1"
    | "?k \<noteq> 0" "\<not> ?k \<le> ?l" "?k \<noteq> ?l + 1" by blast
  then show ?thesis
  proof cases
    case 1
    then have "chain_ok L U (blocks t)" using t by (simp add: chain_ok_def)
    with 1 Some rewrite [of t] show ?thesis by (auto simp: syncBlockchain_def front node_sound_def temp_ok_def)
  next
    case 2
    have "unat ?k < length (blocks (nodeChain n))"
      using 2(2) unat_index_last [OF c] by (simp add: word_le_nat_alt)
    then have "blocks (chain_resize (unat ?k) (nodeChain n)) = take (unat ?k) (blocks (nodeChain n))"
      by (simp add: chain_resize_def)
    moreover have "0 < unat ?k" using 2(1) by (simp add: unat_gt_0)
    ultimately have "chain_ok L U (blocks (chain_resize (unat ?k) (nodeChain n)))"
      using chain_ok_take [OF c] by simp
    then obtain c' where c': "add_blocks L (blocks t) (chain_resize (unat ?k) (nodeChain n)) = Inr c'" "chain_ok L U (blocks c')"
      using add_blocks_ok [OF assms(1) t(2)] by blast
    then show ?thesis
      using Some 2 rewrite [of c'] by (auto simp: syncBlockchain_def front node_sound_def temp_ok_def)
  next
    case 3
    obtain c' db' new where new: "add_and_write L (blocks t) (nodeChain n, database n) = Inr (c', db')"
        "chain_ok L U (blocks c')" "blocks c' = blocks (nodeChain n) @ new" "db_holds db' (fs @ new)"
      using add_and_write_sound [OF assms(1,2) t(2) c fs(1)] by blast
    have "set new \<subseteq> U" using new(2,3) by (simp add: chain_ok_def)
    with fs new(4) have "file_ok U db'" by (auto simp: file_ok_def intro!: exI [of _ "fs @ new"])
    moreover have "db_holds db' (blocks c')" if "db_holds (database n) (blocks (nodeChain n))"
      using add_and_write_ok [OF assms(1,2) t(2) c that] new(1) by simp
    ultimately show ?thesis
      using Some 3 new(1,2) by (auto simp: syncBlockchain_def front node_sound_def temp_ok_def)
  next
    case 4
    then show ?thesis
      using Some assms(3) by (auto simp: syncBlockchain_def front node_sound_def temp_ok_def)
  qed
qed

lemma syncBlockchain_ok:
  assumes "consistent U" and "\<forall>b \<in> U. storable b" and "node_ok L U n"
  shows "\<exists>r n'. syncBlockchain L n = Inr (r, n') \<and> node_ok L U n' \<and> tempchain n' = None"
  using syncBlockchain_sound [OF assms(1,2), of L n] assms(3) by (auto simp: node_ok_iff)

section \<open>The steps of a node\<close>

text \<open>
  What a step shows to the outside: a block that was mined, frames that were sent, a frame that was
  received with the answers to it, the merge at the end of a handler; the rest is quiet.
\<close>

datatype act =
    Quiet | Mined block | Said "(nat \<times> string) list" | Heard connection_proxy string "(nat \<times> string) list" | Merged

text \<open>
  A search has seen no stop signal if the flag still stands when it ends, and a signal once given
  stays.
\<close>

definition env_agrees :: "mine_env \<Rightarrow> miner_state \<Rightarrow> bool" where
  "env_agrees env m \<longleftrightarrow> (\<forall>k. stopped env k \<longrightarrow> stoppedEnd env k) \<and> (keepTrying m \<longrightarrow> (\<forall>k. \<not> stoppedEnd env k))"

text \<open>
  The threads take turns between any two accesses to the shared chain: the mining thread, handlers of
  frames, users who pay, start and stop the mining or end the program, and the connections to the
  peers. \<open>mining_off\<close> is \<open>/rest/stopMining\<close> up to its \<open>join\<close>, which returns (\<open>joined\<close>) when the loop has ended.
\<close>

inductive node_acts :: "'j lib \<Rightarrow> bool \<Rightarrow> node \<Rightarrow> act \<Rightarrow> node \<Rightarrow> bool" for L rel where
  enter: "minePc n = Resting \<Longrightarrow> mineThread n \<Longrightarrow> \<not> miningDone n \<Longrightarrow> \<not> nodeDone n \<Longrightarrow>
     node_acts L rel n Quiet (n\<lparr>minePc := Checked\<rparr>)"
| prepare: "minePc n = Checked \<Longrightarrow> mine_prepare L rel now n = Inr n' \<Longrightarrow> node_acts L rel n Quiet n'"
| reset: "minePc n = Prepared b \<Longrightarrow> node_acts L rel n Quiet (mine_reset b n)"
| found: "minePc n = Searching b \<Longrightarrow> env_agrees env (nodeMiner n) \<Longrightarrow>
     mineBlock L env fuel (nodeMiner n) b = Inr (Some (MINED, b')) \<Longrightarrow> node_acts L rel n (Mined b') (mine_search MINED b' n)"
| gave_up: "minePc n = Searching b \<Longrightarrow> env_agrees env (nodeMiner n) \<Longrightarrow> r \<noteq> MINED \<Longrightarrow>
     mineBlock L env fuel (nodeMiner n) b = Inr (Some (r, b')) \<Longrightarrow> node_acts L rel n Quiet (mine_search r b' n)"
| giveup: "minePc n = GivenUp b \<Longrightarrow> mine_giveup L b n = Inr n' \<Longrightarrow> node_acts L rel n Quiet n'"
| append: "minePc n = Found b \<Longrightarrow> mine_append L b n = Inr n' \<Longrightarrow> node_acts L rel n Quiet n'"
| written: "minePc n = Appended b \<Longrightarrow> node_acts L rel n Quiet (mine_write b n)"
| merge: "minePc n = Merging mined \<Longrightarrow> mine_merge L mined n = Inr n' \<Longrightarrow> node_acts L rel n Quiet n'"
| announce: "minePc n = Announcing \<Longrightarrow> mine_announce L n = Inr (n', frames) \<Longrightarrow> node_acts L rel n (Said frames) n'"
| frame: "onChainMessage_part L conn raw n = Inr (go, n', frames) \<Longrightarrow>
     node_acts L rel n (Heard conn raw frames) (n'\<lparr>finishing := finishing n' + of_bool go\<rparr>)"
| settle: "finishing n = Suc k \<Longrightarrow> handler_end L n = Inr n' \<Longrightarrow> node_acts L rel n Merged (n'\<lparr>finishing := k\<rparr>)"
| transact: "node_acts L rel n Quiet (n\<lparr>nodeChain := queueTransaction tx (nodeChain n)\<rparr>)"
| mining_on: "miningDone n \<Longrightarrow> \<not> mineThread n \<Longrightarrow> node_acts L rel n Quiet (n\<lparr>miningDone := False, mineThread := True\<rparr>)"
| mining_off: "\<not> miningDone n \<Longrightarrow> node_acts L rel n Quiet ((stopMining n)\<lparr>joining := mineThread n\<rparr>)"
| joined: "joining n \<Longrightarrow> minePc n = Resting \<Longrightarrow> node_acts L rel n Quiet (n\<lparr>mineThread := False, joining := False\<rparr>)"
| exit_signal: "node_acts L rel n Quiet (signalExit n)"
| opened: "map_of (peers (nodePeers n)) p = Some d \<Longrightarrow> client d \<noteq> None \<Longrightarrow> peerState d = CONNECTING \<Longrightarrow>
     on_open p conn (nodePeers n) = Inr (m, frames) \<Longrightarrow> node_acts L rel n (Said frames) (n\<lparr>nodePeers := m\<rparr>)"
| peering: "peer_step L (nodePeers n) m \<Longrightarrow> node_acts L rel n Quiet (n\<lparr>nodePeers := m\<rparr>)"

inductive_cases node_actsE: "node_acts L rel n l n'"

definition any_step :: "'j lib \<Rightarrow> bool \<Rightarrow> node \<Rightarrow> node \<Rightarrow> bool" where
  "any_step L rel n n' \<longleftrightarrow> (\<exists>l. node_acts L rel n l n')"

text \<open>
  The steps that the guarantees are about: the blocks that come in from outside, or out of the miner,
  are in \<open>U\<close>. The code does not exclude that a handler merges between the two halves of the storing of a
  mined block; such a step \<open>races\<close>. A \<open>node_move\<close> may race, a \<open>node_step\<close> does not: what is said of the
  chain holds for all moves, what is said of the file needs that no step has raced
  (see \<open>unlocked_write_spoils_file\<close>).
\<close>

definition clean :: "'j lib \<Rightarrow> block set \<Rightarrow> string \<Rightarrow> bool" where
  "clean L U raw \<longleftrightarrow> (\<forall>json t. js_parse L raw = Some json \<longrightarrow>
     bindE (js_at L json ''blocks'') (blockchain_from_json L) = Inr t \<longrightarrow> set (blocks t) \<subseteq> U)"

fun act_ok :: "'j lib \<Rightarrow> block set \<Rightarrow> act \<Rightarrow> bool" where
  "act_ok L U (Mined b) \<longleftrightarrow> b \<in> U"
| "act_ok L U (Heard conn raw frames) \<longleftrightarrow> clean L U raw"
| "act_ok L U _ \<longleftrightarrow> True"

definition races :: "node \<Rightarrow> act \<Rightarrow> bool" where
  "races n l \<longleftrightarrow> l = Merged \<and> miningDone n \<and> (\<exists>b. minePc n = Appended b)"

lemma races_simps [simp]:
  "\<not> races n Quiet" "\<not> races n (Said frames)" "\<not> races n (Mined b)" "\<not> races n (Heard conn raw frames)"
  "races n Merged \<longleftrightarrow> miningDone n \<and> (\<exists>b. minePc n = Appended b)"
  by (simp_all add: races_def)

definition node_move :: "'j lib \<Rightarrow> bool \<Rightarrow> block set \<Rightarrow> node \<Rightarrow> node \<Rightarrow> bool" where
  "node_move L rel U n n' \<longleftrightarrow> (\<exists>l. node_acts L rel n l n' \<and> act_ok L U l)"

definition node_step :: "'j lib \<Rightarrow> bool \<Rightarrow> block set \<Rightarrow> node \<Rightarrow> node \<Rightarrow> bool" where
  "node_step L rel U n n' \<longleftrightarrow> (\<exists>l. node_acts L rel n l n' \<and> act_ok L U l \<and> \<not> races n l)"

lemma node_step_move: "node_step L rel U n n' \<Longrightarrow> node_move L rel U n n'"
  by (auto simp: node_step_def node_move_def)

lemma node_steps_moves: "(node_step L rel U)\<^sup>*\<^sup>* n n' \<Longrightarrow> (node_move L rel U)\<^sup>*\<^sup>* n n'"
  by (erule rtranclp_mono [THEN predicate2D, rotated]) (auto intro: node_step_move)

lemma quiet_any: "node_acts L rel n Quiet n' \<Longrightarrow> any_step L rel n n'"
  by (auto simp: any_step_def)

lemma quiet_step: "node_acts L rel n Quiet n' \<Longrightarrow> node_step L rel U n n'"
  by (auto simp: node_step_def intro: exI [of _ Quiet])

text \<open>The blocks in the file: all of the chain but a block that is still to be written.\<close>

definition stored :: "node \<Rightarrow> block list" where
  "stored n = (case minePc n of Appended b \<Rightarrow> butlast (blocks (nodeChain n)) | _ \<Rightarrow> blocks (nodeChain n))"

definition pc_ok :: "block set \<Rightarrow> node \<Rightarrow> bool" where
  "pc_ok U n = (case minePc n of
       Found b \<Rightarrow> b \<in> U
     | Appended b \<Rightarrow> b \<in> U \<and> last (blocks (nodeChain n)) = b
     | _ \<Rightarrow> True)"

definition node_inv :: "'j lib \<Rightarrow> block set \<Rightarrow> node \<Rightarrow> bool" where
  "node_inv L U n \<longleftrightarrow> chain_ok L U (blocks (nodeChain n)) \<and> chain_ok L U (stored n) \<and> db_holds (database n) (stored n)
     \<and> temp_ok L U (tempchain n) \<and> pc_ok U n"

text \<open>What remains when steps have raced: the chain is valid, and chain, file and miner hold blocks of \<open>U\<close>.\<close>

definition pc_from :: "block set \<Rightarrow> node \<Rightarrow> bool" where
  "pc_from U n = (case minePc n of Found b \<Rightarrow> b \<in> U | Appended b \<Rightarrow> b \<in> U | _ \<Rightarrow> True)"

definition node_safe :: "'j lib \<Rightarrow> block set \<Rightarrow> node \<Rightarrow> bool" where
  "node_safe L U n \<longleftrightarrow> node_sound L U n \<and> pc_from U n"

lemma node_inv_safe: "node_inv L U n \<Longrightarrow> node_safe L U n"
  by (auto simp: node_inv_def node_safe_def node_sound_def pc_ok_def pc_from_def intro: file_okI split: mine_pc.splits)

lemma node_safe_cong:
  "node_safe L U n \<Longrightarrow> blocks (nodeChain n') = blocks (nodeChain n) \<Longrightarrow> database n' = database n \<Longrightarrow>
   tempchain n' = tempchain n \<Longrightarrow> pc_from U n' \<Longrightarrow> node_safe L U n'"
  by (simp add: node_safe_def node_sound_def)

lemma node_inv_iff:
  "(\<forall>b. minePc n \<noteq> Appended b) \<Longrightarrow> node_inv L U n \<longleftrightarrow> node_ok L U n \<and> pc_ok U n"
  by (cases "minePc n") (auto simp: node_inv_def node_ok_def stored_def)

lemma node_ok_inv: "node_ok L U n \<Longrightarrow> minePc n = Resting \<Longrightarrow> node_inv L U n"
  by (simp add: node_inv_iff pc_ok_def)

text \<open>Changes that the invariant does not look at.\<close>

lemma node_ok_cong:
  "node_ok L U n \<Longrightarrow> blocks (nodeChain n') = blocks (nodeChain n) \<Longrightarrow> database n' = database n \<Longrightarrow>
   tempchain n' = tempchain n \<Longrightarrow> node_ok L U n'"
  by (simp add: node_ok_def)

lemma requeue_blocks: "reQueueTransactions b c = Inr (k, c') \<Longrightarrow> blocks c' = blocks c"
proof -
  assume "reQueueTransactions b c = Inr (k, c')"
  then have "blocks (snd (k, c')) = blocks c"
    unfolding reQueueTransactions_def
    by (rule foldE_invariant [where P = "\<lambda>s. blocks (snd s) = blocks c"])
      (auto simp: res_simps queueTransaction_def split: if_splits)
  then show ?thesis by simp
qed

lemma node_inv_cong:
  "node_inv L U n \<Longrightarrow> blocks (nodeChain n') = blocks (nodeChain n) \<Longrightarrow> database n' = database n \<Longrightarrow>
   tempchain n' = tempchain n \<Longrightarrow> minePc n' = minePc n \<Longrightarrow> node_inv L U n'"
  by (cases "minePc n") (simp_all add: node_inv_def stored_def pc_ok_def)

lemma node_inv_temp: "node_inv L U n \<Longrightarrow> temp_ok L U t \<Longrightarrow> node_inv L U (n\<lparr>tempchain := t\<rparr>)"
  by (cases "minePc n") (simp_all add: node_inv_def stored_def pc_ok_def)

lemma mine_prepare_frame:
  assumes "mine_prepare L rel now n = Inr n'"
  shows "blocks (nodeChain n') = blocks (nodeChain n) \<and> database n' = database n \<and> tempchain n' = tempchain n
    \<and> (\<exists>b. minePc n' = Prepared b)"
  using assms by (auto simp: mine_prepare_def createUnminedBlock_def res_simps Let_def)

lemma mine_giveup_frame:
  assumes "mine_giveup L b n = Inr n'"
  shows "blocks (nodeChain n') = blocks (nodeChain n) \<and> database n' = database n \<and> tempchain n' = tempchain n
    \<and> minePc n' = Merging False"
  using assms by (auto simp: mine_giveup_def res_simps requeue_blocks)

lemma syncBlockchain_frame:
  assumes "syncBlockchain L n = Inr (s, n')"
  shows "miningDone n' = miningDone n \<and> mineThread n' = mineThread n \<and> joining n' = joining n \<and> minePc n' = minePc n
    \<and> finishing n' = finishing n \<and> nodePeers n' = nodePeers n"
  using assms by (auto simp: syncBlockchain_def res_simps split: option.splits if_splits)

text \<open>A mined block is refused, and mining stops, or stands behind the last one and is still to be written.\<close>

lemma mine_append_cases:
  assumes "consistent U" and ok: "chain_ok L U (blocks (nodeChain n))" and "b \<in> U" and "mine_append L b n = Inr n'"
  shows "n' = n\<lparr>miningDone := True, minePc := Resting\<rparr> \<or>
    (\<exists>c'. n' = n\<lparr>nodeChain := c', minePc := Appended b\<rparr> \<and> blocks c' = blocks (nodeChain n) @ [b]
      \<and> chain_ok L U (blocks c') \<and> ValidHash L b \<and> previousHash b = hash (last (blocks (nodeChain n))))"
proof -
  obtain added c' where c': "addNewBlock L b (nodeChain n) = Inr (added, c')" "chain_ok L U (blocks c')"
      "blocks c' = blocks (nodeChain n) @ (if added then [b] else [])"
    using addNewBlock_ok [OF assms(1) ok assms(3)] by blast
  have "ValidHash L b \<and> previousHash b = hash (last (blocks (nodeChain n)))" if added
    using c'(1) that ok by (auto simp: addNewBlock_eq chain_ok_def split: if_splits)
  with c' assms(4) show ?thesis by (cases added) (auto simp: mine_append_def)
qed

lemma mine_append_inv:
  assumes "consistent U" and "node_ok L U n" and "b \<in> U" and "mine_append L b n = Inr n'"
  shows "node_inv L U n'"
  using mine_append_cases [OF assms(1) conjunct1 [OF assms(2) [unfolded node_ok_def]] assms(3,4)]
proof (elim disjE exE conjE)
  assume "n' = n\<lparr>miningDone := True, minePc := Resting\<rparr>"
  with assms(2) show ?thesis by (auto simp: node_inv_iff node_ok_def pc_ok_def)
next
  fix c'
  assume "n' = n\<lparr>nodeChain := c', minePc := Appended b\<rparr>" "blocks c' = blocks (nodeChain n) @ [b]" "chain_ok L U (blocks c')"
  with assms(2,3) show ?thesis by (simp add: node_inv_def stored_def pc_ok_def node_ok_def)
qed

lemma mine_write_inv:
  assumes "\<forall>b \<in> U. storable b" and "node_inv L U n" and "minePc n = Appended b"
  shows "node_ok L U (mine_write b n) \<and> node_inv L U (mine_write b n)"
proof -
  have n: "chain_ok L U (blocks (nodeChain n))" "db_holds (database n) (butlast (blocks (nodeChain n)))" "temp_ok L U (tempchain n)"
      "b \<in> U" "last (blocks (nodeChain n)) = b"
    using assms(2,3) by (simp_all add: node_inv_def stored_def pc_ok_def)
  have "butlast (blocks (nodeChain n)) @ [b] = blocks (nodeChain n)"
    using n(1,5) append_butlast_last_id [of "blocks (nodeChain n)"] by (auto simp: chain_ok_def)
  then have "db_holds (db_write b (database n)) (blocks (nodeChain n))"
    using db.holds_write [OF n(2), of b] n(4) assms(1) by simp
  with n show ?thesis by (auto simp: node_inv_iff mine_write_def node_ok_def pc_ok_def)
qed

lemma syncBlockchain_inv:
  assumes "consistent U" and "\<forall>b \<in> U. storable b" and "node_inv L U n" and "\<forall>b. minePc n \<noteq> Appended b"
    and "syncBlockchain L n = Inr (s, n')"
  shows "node_ok L U n' \<and> node_inv L U n'"
proof -
  have "node_ok L U n" "pc_ok U n" using assms(3,4) by (simp_all add: node_inv_iff)
  moreover have "minePc n' = minePc n" using syncBlockchain_frame [OF assms(5)] by simp
  ultimately have "node_ok L U n'" "pc_ok U n'"
    using syncBlockchain_ok [OF assms(1,2), of L n] assms(4,5) by (auto simp: pc_ok_def split: mine_pc.splits)
  with assms(4) \<open>minePc n' = minePc n\<close> show ?thesis by (simp add: node_inv_iff)
qed

text \<open>A response stores a chain that it has checked, or nothing.\<close>

lemma handleResponse_part_cases:
  assumes "handleResponse_part L conn json n = Inr (go, n', fs)"
  shows "n' = n \<or> (\<exists>t fs. bindE (js_at L json ''blocks'') (blockchain_from_json L) = Inr t
      \<and> blocks t \<noteq> [] \<and> valid_blocks L (blocks t) \<and> n' = n\<lparr>tempchain := Some t\<rparr>)"
proof -
  obtain message where first: "(if message = ''summary''
            then bindE (handle_summary L conn json n) (\<lambda>r.
                 case r of None \<Rightarrow> Inr (False, n, []) | Some fs \<Rightarrow> Inr (True, n, fs))
            else if message = ''chain''
            then bindE (bindE (js_at L json ''blocks'') (blockchain_from_json L)) (\<lambda>t.
                 bindE (if chain_size t \<le> 0 then Inr False else isValidChain L t) (\<lambda>ok.
                 if ok then bindE (handleChainResponse L conn t n) (\<lambda>(n', fs). Inr (True, n', fs))
                 else Inr (False, n, [])))
            else Inr (True, n, [])) = Inr (go, n', fs)"
    using assms unfolding handleResponse_part_def bindE_eq_Inr by auto
  show ?thesis
  proof (cases "message = ''chain''")
    case True
    with first obtain t ok where t: "bindE (js_at L json ''blocks'') (blockchain_from_json L) = Inr t"
        "(if chain_size t \<le> 0 then Inr False else isValidChain L t) = Inr ok"
        "(if ok then bindE (handleChainResponse L conn t n) (\<lambda>(n', fs). Inr (True, n', fs))
                 else Inr (False, n, [])) = Inr (go, n', fs)"
      by (simp add: bindE_eq_Inr [of "bindE a b" for a b] bindE_eq_Inr [of "if a then b else c" for a b c]) blast
    show ?thesis
    proof (cases ok)
      case True
      with t(2) have "blocks t \<noteq> []" "valid_blocks L (blocks t)"
        by (auto simp: isValidChain_eq chain_size_def split: if_splits)
      moreover obtain fs' where "handleChainResponse L conn t n = Inr (n', fs')"
        using True t(3) by (auto simp: res_simps)
      then have "n' = n \<or> n' = n\<lparr>tempchain := Some t\<rparr>"
        by (auto simp: handleChainResponse_def res_simps Let_def split: if_splits)
      ultimately show ?thesis using t(1) by blast
    qed (use t(3) in simp)
  next
    case False
    with first show ?thesis by (auto simp: res_simps split: if_splits option.splits)
  qed
qed

lemma onChainMessage_part_cases:
  assumes "clean L U raw" and "onChainMessage_part L conn raw n = Inr (go, n', fs)"
  shows "n' = n \<or> (\<exists>t. n' = n\<lparr>tempchain := Some t\<rparr> \<and> blocks t \<noteq> [] \<and> valid_blocks L (blocks t) \<and> set (blocks t) \<subseteq> U)"
proof -
  have "n' = n \<or> (\<exists>json. js_parse L raw = Some json \<and> handleResponse_part L conn json n = Inr (go, n', fs))"
    using assms(2)
    by (auto simp: onChainMessage_part_def Let_def bindE_eq_Inr split: option.splits if_splits)
  then show ?thesis
    using handleResponse_part_cases [of L conn _ n go n' fs] assms(1) by (fastforce simp: clean_def)
qed

lemma onChainMessage_part_inv:
  assumes "node_inv L U n" and "clean L U raw" and "onChainMessage_part L conn raw n = Inr (go, n', fs)"
  shows "node_inv L U n' \<and> nodeChain n' = nodeChain n"
  using onChainMessage_part_cases [OF assms(2,3)] assms(1) node_inv_temp [OF assms(1)]
  by (auto simp: temp_ok_def)

text \<open>
  Each move keeps the chain sound; the chain stays as it is, grows by the mined block, or is what a merge
  makes of it.
\<close>

lemma node_acts_safe:
  assumes "consistent U" and "\<forall>b \<in> U. storable b" and "node_acts L rel n l n'" and "act_ok L U l" and "node_safe L U n"
  shows "node_safe L U n' \<and>
    (blocks (nodeChain n') = blocks (nodeChain n)
     \<or> (\<exists>b. blocks (nodeChain n') = blocks (nodeChain n) @ [b] \<and> ValidHash L b \<and> previousHash b = hash (last (blocks (nodeChain n))))
     \<or> (\<exists>s m'. syncBlockchain L n = Inr (s, m') \<and> blocks (nodeChain n') = blocks (nodeChain m')))"
  using assms(3)
proof cases
  case (prepare now)
  with assms(5) mine_prepare_frame [OF prepare(3)] show ?thesis by (auto simp: pc_from_def intro: node_safe_cong)
next
  case (giveup b)
  with assms(5) mine_giveup_frame [OF giveup(3)] show ?thesis by (auto simp: pc_from_def intro: node_safe_cong)
next
  case (append b)
  have n: "chain_ok L U (blocks (nodeChain n))" "b \<in> U" using assms(5) append(2) by (simp_all add: node_safe_def node_sound_def pc_from_def)
  from mine_append_cases [OF assms(1) n append(3)] assms(5) n(2) show ?thesis
    by (auto simp: node_safe_def node_sound_def pc_from_def)
next
  case (written b)
  have b: "b \<in> U" using assms(5) written by (simp add: node_safe_def pc_from_def)
  obtain fs where fs: "db_holds (database n) fs" "fs \<noteq> []" "set fs \<subseteq> U" "index (hd fs) = 0"
    using assms(5) by (auto simp: node_safe_def node_sound_def file_ok_def)
  with b have "db_holds (db_write b (database n)) (fs @ [b])" using db.holds_write [OF fs(1)] assms(2) by simp
  with fs b have "file_ok U (db_write b (database n))" by (auto simp: file_ok_def intro!: exI [of _ "fs @ [b]"])
  with assms(5) written show ?thesis by (simp add: mine_write_def node_safe_def node_sound_def pc_from_def)
next
  case (merge mined)
  then obtain s m' where m': "syncBlockchain L n = Inr (s, m')" "n' = m'\<lparr>minePc := (if mined \<and> \<not> s then Announcing else Resting)\<rparr>"
    by (auto simp: mine_merge_def res_simps)
  with syncBlockchain_sound [OF assms(1,2), of L n] assms(5) show ?thesis
    by (auto simp: node_safe_def node_sound_def pc_from_def)
next
  case (announce frames)
  with assms(5) show ?thesis by (auto simp: node_safe_def node_sound_def pc_from_def mine_announce_def res_simps)
next
  case (frame conn raw go m frames)
  have "clean L U raw" using assms(4) frame(1) by simp
  from onChainMessage_part_cases [OF this frame(3)] assms(5) frame(2) show ?thesis
    by (auto simp: node_safe_def node_sound_def pc_from_def temp_ok_def)
next
  case (settle k m)
  show ?thesis
  proof (cases "miningDone n")
    case True
    then obtain s where s: "syncBlockchain L n = Inr (s, m)"
      using settle(4) by (auto simp: handler_end_def res_simps)
    with syncBlockchain_sound [OF assms(1,2), of L n] syncBlockchain_frame [OF s] assms(5) settle(2) show ?thesis
      by (auto simp: node_safe_def node_sound_def pc_from_def)
  next
    case False
    with settle have "m = n" by (simp add: handler_end_def)
    with assms(5) settle(2) show ?thesis by (auto simp: node_safe_def node_sound_def pc_from_def)
  qed
qed (use assms(4,5) in \<open>auto simp: node_safe_def node_sound_def pc_from_def mine_reset_def mine_search_def stopMining_def
      signalExit_def queueTransaction_def\<close>)

lemma node_moves_safe:
  assumes "consistent U" and "\<forall>b \<in> U. storable b" and "(node_move L rel U)\<^sup>*\<^sup>* n n'" and "node_safe L U n"
  shows "node_safe L U n'"
  using assms(3,4)
proof (induction rule: rtranclp_induct)
  case (step m m')
  then show ?case using node_acts_safe [OF assms(1,2)] unfolding node_move_def by blast
qed

text \<open>A step that does not race keeps the file at the chain.\<close>

lemma node_acts_inv:
  assumes "consistent U" and "\<forall>b \<in> U. storable b" and "node_acts L rel n l n'" and "act_ok L U l" and "\<not> races n l"
    and "node_inv L U n"
  shows "node_inv L U n'"
  using assms(3)
proof cases
  case enter
  with assms(6) show ?thesis by (simp add: node_inv_def stored_def pc_ok_def)
next
  case (prepare now)
  with assms(6) mine_prepare_frame [OF prepare(3)] show ?thesis by (auto simp: node_inv_def stored_def pc_ok_def)
next
  case (reset b)
  with assms(6) show ?thesis by (simp add: node_inv_def stored_def pc_ok_def mine_reset_def)
next
  case (found b env fuel b')
  with assms(4,6) show ?thesis by (simp add: node_inv_def stored_def pc_ok_def mine_search_def)
next
  case (gave_up b env r fuel b')
  with assms(6) show ?thesis by (simp add: node_inv_def stored_def pc_ok_def mine_search_def)
next
  case (giveup b)
  with assms(6) mine_giveup_frame [OF giveup(3)] show ?thesis by (auto simp: node_inv_def stored_def pc_ok_def)
next
  case (append b)
  then have n: "node_ok L U n" "b \<in> U" using assms(6) by (simp_all add: node_inv_iff pc_ok_def)
  show ?thesis using mine_append_inv [OF assms(1) n append(3)] .
next
  case (written b)
  with mine_write_inv [OF assms(2,6)] show ?thesis by (simp add: mine_write_def)
next
  case (merge mined)
  then obtain s m' where m': "syncBlockchain L n = Inr (s, m')" "n' = m'\<lparr>minePc := (if mined \<and> \<not> s then Announcing else Resting)\<rparr>"
    by (auto simp: mine_merge_def res_simps)
  have "node_ok L U n" "node_ok L U m'"
    using syncBlockchain_inv [OF assms(1,2,6) _ m'(1)] assms(6) merge(2) by (simp_all add: node_inv_iff)
  with m' show ?thesis by (auto simp: node_inv_iff pc_ok_def node_ok_def)
next
  case (announce frames)
  with assms(6) show ?thesis by (auto simp: node_inv_def stored_def pc_ok_def mine_announce_def res_simps)
next
  case (frame conn raw go m frames)
  have "node_inv L U m" "nodeChain m = nodeChain n"
    using onChainMessage_part_inv [OF assms(6) _ frame(3)] assms(4) frame(1) by simp_all
  with frame(2) show ?thesis by (auto intro: node_inv_cong [of L U m])
next
  case (settle k m)
  show ?thesis
  proof (cases "miningDone n")
    case True
    then have pc: "\<forall>b. minePc n \<noteq> Appended b" using settle(1) assms(5) by simp
    obtain s where s: "syncBlockchain L n = Inr (s, m)"
      using settle(4) True by (auto simp: handler_end_def res_simps)
    from syncBlockchain_inv [OF assms(1,2,6) pc s] assms(6) pc s settle(2) show ?thesis
      by (auto simp: node_inv_iff intro: node_inv_cong [of L U m])
  next
    case False
    with settle have "m = n" by (simp add: handler_end_def)
    with assms(6) settle(2) show ?thesis by (auto intro: node_inv_cong [of L U n])
  qed
qed (use assms(6) in \<open>auto intro!: node_inv_cong [OF assms(6)] simp: stopMining_def signalExit_def queueTransaction_def\<close>)

lemma node_step_inv:
  assumes "consistent U" and "\<forall>b \<in> U. storable b" and "node_step L rel U n n'" and "node_inv L U n"
  shows "node_inv L U n'"
  using assms(3) node_acts_inv [OF assms(1,2) _ _ _ assms(4)] unfolding node_step_def by blast

lemma node_steps_inv:
  assumes "consistent U" and "\<forall>b \<in> U. storable b" and "(node_step L rel U)\<^sup>*\<^sup>* n n'" and "node_inv L U n"
  shows "node_inv L U n'"
  using assms(3,4) by (induction rule: rtranclp_induct) (auto intro: node_step_inv [OF assms(1,2)])

text \<open>What a node in the invariant can be relied on for.\<close>

lemma node_inv_chain:
  assumes "node_inv L U n"
  shows "isValidChain L (nodeChain n) = Inr True" and "blocks (nodeChain n) \<noteq> []" and "index (hd (blocks (nodeChain n))) = 0"
    and "dbFile (database n) = Some (concat (map write_block (stored n)))"
    and "\<exists>db'. db_initialize L gcb True empty_blockchain (database n) = (db', Inr (empty_blockchain\<lparr>blocks := stored n\<rparr>))"
  using assms db.holds_load [of "database n" "stored n" L empty_blockchain gcb]
  by (auto simp: node_inv_def chain_ok_def db_holds_def isValidChain_eq empty_blockchain_def)

text \<open>What the steps do to the mining thread: once it has been told to stop, no step starts it again.\<close>

lemma onChainMessage_part_frame:
  assumes "onChainMessage_part L conn raw n = Inr (go, n', fs)"
  shows "n' = n \<or> (\<exists>t. n' = n\<lparr>tempchain := Some t\<rparr>)"
proof -
  have "n' = n \<or> (\<exists>json. js_parse L raw = Some json \<and> handleResponse_part L conn json n = Inr (go, n', fs))"
    using assms
    by (auto simp: onChainMessage_part_def Let_def bindE_eq_Inr split: option.splits if_splits)
  then show ?thesis by (elim disjE exE conjE) (auto dest: handleResponse_part_cases)
qed

definition threads :: "node \<Rightarrow> bool \<times> bool \<times> bool" where
  "threads n = (miningDone n, mineThread n, joining n)"

lemma threads_keep [simp]:
  "threads (n\<lparr>nodeChain := c\<rparr>) = threads n" "threads (n\<lparr>minePc := pc\<rparr>) = threads n" "threads (n\<lparr>database := db\<rparr>) = threads n"
  "threads (n\<lparr>nodeMiner := m\<rparr>) = threads n" "threads (n\<lparr>finishing := k\<rparr>) = threads n" "threads (n\<lparr>tempchain := t\<rparr>) = threads n"
  "threads (n\<lparr>nodePeers := ps\<rparr>) = threads n"
  "threads (mine_reset b n) = threads n" "threads (mine_search r b n) = threads n" "threads (mine_write b n) = threads n"
  by (simp_all add: threads_def mine_reset_def mine_search_def mine_write_def)

lemma syncBlockchain_threads: "syncBlockchain L n = Inr (s, n') \<Longrightarrow> threads n' = threads n"
  by (auto simp: threads_def dest: syncBlockchain_frame)

lemma mine_giveup_threads: "mine_giveup L b n = Inr n' \<Longrightarrow> threads n' = threads n"
  by (auto simp: mine_giveup_def res_simps)

lemma mine_announce_threads: "mine_announce L n = Inr (n', fs) \<Longrightarrow> threads n' = threads n"
  by (auto simp: mine_announce_def res_simps)

lemma mine_prepare_threads: "mine_prepare L rel now n = Inr n' \<Longrightarrow> threads n' = threads n"
  by (auto simp: mine_prepare_def res_simps)

lemma mine_merge_threads: "mine_merge L mined n = Inr n' \<Longrightarrow> threads n' = threads n"
  by (auto simp: mine_merge_def res_simps dest: syncBlockchain_threads)

lemma handler_end_threads: "handler_end L n = Inr n' \<Longrightarrow> threads n' = threads n"
  by (auto simp: handler_end_def res_simps dest: syncBlockchain_threads split: if_splits)

lemmas mine_steps_threads =
  mine_giveup_threads mine_announce_threads mine_prepare_threads mine_merge_threads handler_end_threads

lemma mine_append_threads:
  assumes "mine_append L b n = Inr n'"
  shows "threads n' = threads n \<or> threads n' = (True, snd (threads n))"
  using assms by (auto simp: threads_def mine_append_def bindE_eq_Inr split: if_splits)

lemma mine_finish_threads:
  assumes "mine_finish L r b n = Inr (n', frames)"
  shows "threads n' = threads n \<or> threads n' = (True, snd (threads n))"
proof (cases "r = MINED")
  case True
  with assms obtain n1 where n1: "mine_append L b n = Inr n1" "n' = n1 \<or> threads n' = threads n1"
    by (auto simp: mine_finish_def bindE_eq_Inr dest!: mine_steps_threads split: if_splits)
  with mine_append_threads [OF n1(1)] show ?thesis by auto
next
  case False
  with assms show ?thesis by (auto simp: mine_finish_def bindE_eq_Inr dest!: mine_steps_threads)
qed

text \<open>
  A thread that has been told to stop, or has stopped by itself, and that no handler waits for is
  never joined.
\<close>

lemma node_acts_unjoined:
  assumes "node_acts L rel n l n'" and "threads n = (True, True, False)"
  shows "threads n' = (True, True, False)"
  using assms(1)
proof cases
  case (frame conn raw go m frames)
  then show ?thesis using onChainMessage_part_frame [OF frame(3)] assms by auto
next
  case (append b)
  with mine_append_threads [OF append(3)] assms show ?thesis by auto
next
  case (settle k m)
  with handler_end_threads [OF settle(4)] assms show ?thesis by simp
qed (use assms in \<open>auto dest: mine_steps_threads\<close>, (use assms in \<open>simp_all add: threads_def stopMining_def signalExit_def\<close>)?)

lemma any_steps_unjoined:
  assumes "(any_step L rel)\<^sup>*\<^sup>* n n'" and "threads n = (True, True, False)"
  shows "threads n' = (True, True, False)"
  using assms by (induction rule: rtranclp_induct) (auto simp: any_step_def dest: node_acts_unjoined)

text \<open>What the code does in one go is a run of the steps: the rest of a round, and a whole handler.\<close>

lemma mine_finish_run:
  assumes "minePc n = (if r = MINED then Found b else GivenUp b)" and "mine_finish L r b n = Inr (n', frames)"
  shows "(node_step L rel U)\<^sup>*\<^sup>* n n'"
proof -
  have step: "(node_step L rel U)\<^sup>*\<^sup>* m k" if "node_acts L rel m l k" "l = Quiet \<or> l = Said fs" for m k l fs
    using that by (intro r_into_rtranclp) (auto simp: node_step_def intro: exI [of _ l])
  show ?thesis
  proof (cases "r = MINED")
    case False
    with assms(2) obtain n1 where n1: "mine_giveup L b n = Inr n1" "mine_merge L False n1 = Inr n'"
      by (auto simp: mine_finish_def bindE_eq_Inr)
    then have "minePc n1 = Merging False" using mine_giveup_frame by blast
    with n1 False assms(1) show ?thesis
      by (intro rtranclp_trans [of _ n n1 n'] step) (auto intro: node_acts.giveup node_acts.merge)
  next
    case True
    with assms(2) obtain n1 where n1: "mine_append L b n = Inr n1" "minePc n1 = Resting \<and> n' = n1 \<or>
        minePc n1 \<noteq> Resting \<and> (\<exists>n2. mine_merge L True (mine_write b n1) = Inr n2
          \<and> (minePc n2 = Resting \<and> n' = n2 \<or> minePc n2 \<noteq> Resting \<and> mine_announce L n2 = Inr (n', frames)))"
      by (auto simp: mine_finish_def bindE_eq_Inr split: if_splits)
    have first: "(node_step L rel U)\<^sup>*\<^sup>* n n1"
      using n1(1) True assms(1) by (intro step) (auto intro: node_acts.append)
    from n1(2) consider "n' = n1" | n2 where "minePc n1 \<noteq> Resting" "mine_merge L True (mine_write b n1) = Inr n2"
        "minePc n2 = Resting \<and> n' = n2 \<or> minePc n2 \<noteq> Resting \<and> mine_announce L n2 = Inr (n', frames)"
      by blast
    then show ?thesis
    proof cases
      case n2: 2
      have "minePc n1 = Appended b" using n1(1) n2(1) by (auto simp: mine_append_def bindE_eq_Inr split: if_splits)
      then have "(node_step L rel U)\<^sup>*\<^sup>* n1 (mine_write b n1)" by (intro step) (auto intro: node_acts.written)
      moreover have "(node_step L rel U)\<^sup>*\<^sup>* (mine_write b n1) n2"
        using n2(2) by (intro step) (auto intro: node_acts.merge simp: mine_write_def)
      moreover have "(node_step L rel U)\<^sup>*\<^sup>* n2 n'"
      proof (cases "n' = n2")
        case False
        moreover have "minePc n2 = Resting \<or> minePc n2 = Announcing"
          using n2(2) by (auto simp: mine_merge_def bindE_eq_Inr split: if_splits)
        ultimately show ?thesis using n2(3) by (intro step) (auto intro: node_acts.announce)
      qed simp
      ultimately show ?thesis using first by (meson rtranclp_trans)
    qed (use first in simp)
  qed
qed

lemma syncBlockchain_finishing:
  "syncBlockchain L (n\<lparr>finishing := k\<rparr>) = bindE (syncBlockchain L n) (\<lambda>(s, m). Inr (s, m\<lparr>finishing := k\<rparr>))"
proof (cases "tempchain n")
  case (Some t)
  show ?thesis
    by (cases "frontE (blocks t)"; cases "backE (blocks (nodeChain n))";
        cases "add_blocks L (blocks t) (chain_resize (unat (index (hd (blocks t)))) (nodeChain n))";
        cases "add_and_write L (blocks t) (nodeChain n, database n)")
      (auto simp: syncBlockchain_def Some frontE_def split: if_splits)
qed (simp add: syncBlockchain_def)

lemma onChainMessage_run:
  assumes "clean L U raw" and "\<forall>b. minePc n \<noteq> Appended b" and "onChainMessage L conn raw n = Inr (n', frames)"
  shows "(node_step L rel U)\<^sup>*\<^sup>* n n'"
proof -
  obtain go n1 fs where part: "onChainMessage_part L conn raw n = Inr (go, n1, fs)"
      "handler_rest L (go, n1, fs) = Inr (n', frames)"
    using assms(3) by (auto simp: onChainMessage_def bindE_eq_Inr)
  then have n1: "minePc n1 = minePc n" "finishing n1 = finishing n" using onChainMessage_part_frame [OF part(1)] by auto
  have first: "(node_step L rel U)\<^sup>*\<^sup>* n (n1\<lparr>finishing := finishing n1 + of_bool go\<rparr>)"
    using node_acts.frame [OF part(1), of rel] assms(1)
    by (intro r_into_rtranclp) (auto simp: node_step_def intro: exI [of _ "Heard conn raw fs"])
  show ?thesis
  proof (cases go)
    case False
    with part(2) first show ?thesis by (simp add: handler_rest_def)
  next
    case True
    let ?m = "n1\<lparr>finishing := Suc (finishing n1)\<rparr>"
    have "handler_end L n1 = Inr n'" using part(2) True by (simp add: handler_rest_def bindE_eq_Inr)
    moreover have "finishing n' = finishing n1"
      using calculation by (auto simp: handler_end_def bindE_eq_Inr dest: syncBlockchain_frame split: if_splits)
    ultimately have "handler_end L ?m = Inr (n'\<lparr>finishing := Suc (finishing n1)\<rparr>)"
      by (auto simp: handler_end_def syncBlockchain_finishing bindE_eq_Inr split: if_splits)
    from node_acts.settle [OF _ this, of "finishing n1" rel] have "node_acts L rel ?m Merged n'"
      using \<open>finishing n' = finishing n1\<close> by (cases n') simp
    then have "node_step L rel U ?m n'"
      using n1 assms(2) by (auto simp: node_step_def intro: exI [of _ Merged])
    with first True show ?thesis by simp
  qed
qed

text \<open>The first start of a node establishes the invariant.\<close>

lemma node_start_ok:
  assumes "blocks (nodeChain n) = []" and "dbFile (database n) = None" and "tempchain n = None" and "minePc n = Resting"
    and "node_start L now gendata True auto n = Some (Inr n')"
    and "genesisBlock L now (rewardAddress n) (nodeUuid n) gendata \<in> U" and "\<forall>b \<in> U. storable b"
    and "nodeChain n = empty_blockchain"
  shows "node_inv L U n'"
proof -
  let ?g = "genesisBlock L now (rewardAddress n) (nodeUuid n) gendata"
  have g: "storable ?g" using assms(6,7) by simp
  have "index ?g = 0" by (simp add: genesisBlock_def setData_def setMiner_def)
  moreover have "db_initialize L (Some ?g) True (nodeChain n) (database n) =
     ((database n)\<lparr>dbFolderExists := True, dbFile := Some (write_block ?g), dbIndexOpen := True\<rparr>,
      Inr (empty_blockchain\<lparr>blocks := [?g]\<rparr>))"
    using db_initialize_fresh [OF assms(2), of ?g L] g assms(8) by (simp add: storable_def)
  with assms(4,5) have "minePc n' = Resting" "nodeChain n' = empty_blockchain\<lparr>blocks := [?g]\<rparr>" "tempchain n' = tempchain n"
      "database n' = (database n)\<lparr>dbFolderExists := True, dbFile := Some (write_block ?g), dbIndexOpen := True\<rparr>"
    by (auto simp: node_start_def Let_def split: if_splits)
  ultimately show ?thesis
    using g assms(3,6) by (simp add: node_inv_iff pc_ok_def node_ok_def chain_ok_def db_holds_def temp_ok_def)
qed


end
