(* ===== verification/Sync.thy ===== *)
theory Sync
  imports Node
begin

text \<open>
  What the operations of a node achieve: merging a received chain block by block, a round of the
  mining thread, serving a range of blocks; and where the code falls short.
\<close>

section \<open>Merging block by block\<close>

lemma valid_blocks_index_step:
  "valid_blocks L bs \<Longrightarrow> i < length bs \<Longrightarrow> index (bs ! i) = index (hd bs) + word_of_nat i"
proof (induction i)
  case 0
  then show ?case by (cases bs) auto
next
  case (Suc i)
  then have "valid_pair L (bs ! i) (bs ! Suc i)"
    by (auto simp: valid_blocks_def successively_conv_pred dest: spec [of _ "Suc i"])
  with Suc show ?case by (simp add: valid_pair_def algebra_simps)
qed

text \<open>Nothing of a chain attaches behind a block that its first block was refused for.\<close>

lemma add_blocks_none:
  assumes "blocks c \<noteq> []" and "\<forall>b \<in> set bs. \<not> (ValidHash L b \<and> previousHash b = hash (last (blocks c)))"
  shows "add_blocks L bs c = Inr c"
  using assms(2)
proof (induction bs)
  case Nil
  then show ?case by (simp add: add_blocks_def)
next
  case (Cons b bs)
  have "addNewBlock L b c = Inr (False, c)" using Cons.prems assms(1) by (auto simp: addNewBlock_eq)
  with Cons show ?case by (simp add: add_blocks_def)
qed

lemma later_blocks_detached:
  assumes "consistent U" and "set (b # bs) \<subseteq> U" and "p \<in> U" and "valid_blocks L (b # bs)"
    and "previousHash b = hash p" and "length bs < 2 ^ 64" and "x \<in> set bs"
  shows "previousHash x \<noteq> hash p"
proof
  assume x: "previousHash x = hash p"
  obtain i where i: "i < length bs" "bs ! i = x" using assms(7) by (auto simp: in_set_conv_nth)
  have "index x = index p + 1" "index b = index p + 1"
    using assms(1-3,5,7) x by (auto simp: consistent_def)
  moreover have "index x = index b + word_of_nat (Suc i)"
    using valid_blocks_index_step [OF assms(4), of "Suc i"] i by simp
  ultimately have zero: "(word_of_nat (Suc i) :: u64) = 0" by simp
  have "unat (word_of_nat (Suc i) :: u64) = Suc i"
    using i(1) assms(6) by (subst unat_of_nat) simp
  then show False unfolding zero by simp
qed

lemma add_blocks_linked:
  assumes "consistent U" and "set bs \<subseteq> U" and "chain_ok L U (blocks c)" and "valid_blocks L bs"
    and "bs \<noteq> [] \<longrightarrow> previousHash (hd bs) = hash (last (blocks c))" and "length bs < 2 ^ 64"
  shows "add_blocks L bs c = Inr (c\<lparr>blocks := blocks c @ takeWhile (ValidHash L) bs\<rparr>)"
  using assms(2-6)
proof (induction bs arbitrary: c)
  case Nil
  then show ?case by (simp add: add_blocks_def)
next
  case (Cons b bs)
  have ne: "blocks c \<noteq> []" "last (blocks c) \<in> U" using Cons.prems(2) by (auto simp: chain_ok_def)
  show ?case
  proof (cases "ValidHash L b")
    case True
    let ?c = "c\<lparr>blocks := blocks c @ [b]\<rparr>"
    have step: "addNewBlock L b c = Inr (True, ?c)"
      using True ne Cons.prems(4) by (simp add: addNewBlock_eq)
    have "chain_ok L U (blocks ?c)"
      using chain_ok_snoc [OF assms(1) Cons.prems(2), of b] True Cons.prems(1,4) by simp
    moreover have "valid_blocks L bs" "bs \<noteq> [] \<longrightarrow> previousHash (hd bs) = hash b"
      using Cons.prems(3) by (cases bs; simp add: valid_blocks_def valid_pair_def)+
    ultimately have "add_blocks L bs ?c = Inr (?c\<lparr>blocks := blocks ?c @ takeWhile (ValidHash L) bs\<rparr>)"
      using Cons.prems(1,5) by (intro Cons.IH) simp_all
    with step True show ?thesis by (simp add: add_blocks_def)
  next
    case False
    have "\<forall>x \<in> set bs. previousHash x \<noteq> hash (last (blocks c))"
      using later_blocks_detached [OF assms(1) Cons.prems(1) ne(2) Cons.prems(3)] Cons.prems(4,5) by simp
    with add_blocks_none [OF ne(1), of "b # bs" L] False show ?thesis by simp
  qed
qed

lemma add_and_write_fst:
  "add_and_write L bs (c, db) = Inr (c', db') \<Longrightarrow> add_blocks L bs c = Inr c'"
proof (induction bs arbitrary: c db)
  case Nil
  then show ?case by (simp add: add_and_write_def add_blocks_def)
next
  case (Cons b bs)
  then obtain added c1 where "addNewBlock L b c = Inr (added, c1)"
      "add_and_write L bs (c1, if added then db_write b db else db) = Inr (c', db')"
    by (auto simp: add_and_write_def res_simps)
  with Cons.IH show ?case by (simp add: add_blocks_def)
qed

lemma syncBlockchain_chain:
  assumes "consistent U" and "\<forall>b \<in> U. storable b" and "node_ok L U n" and "tempchain n = Some t"
    and k: "k = unat (index (hd (blocks t)))" "0 < k" "k \<le> chain_size (nodeChain n)"
    and link: "previousHash (hd (blocks t)) = hash (blocks (nodeChain n) ! (k - 1))"
    and size: "chain_size (nodeChain n) < 2 ^ 64" "chain_size t < 2 ^ 64"
  shows "\<exists>n'. syncBlockchain L n = Inr (True, n') \<and> node_ok L U n' \<and> tempchain n' = None
    \<and> blocks (nodeChain n') = take k (blocks (nodeChain n)) @ takeWhile (ValidHash L) (blocks t)"
proof -
  let ?c = "nodeChain n"
  have t: "blocks t \<noteq> []" "set (blocks t) \<subseteq> U" "valid_blocks L (blocks t)"
    using assms(3,4) by (simp_all add: node_ok_def temp_ok_def)
  have c: "chain_ok L U (blocks ?c)" using assms(3) by (simp add: node_ok_def)
  then have ne: "blocks ?c \<noteq> []" by (simp add: chain_ok_def)
  have "index (last (blocks ?c)) = word_of_nat (length (blocks ?c) - 1)"
    using c by (intro indexed_blocks_last) (auto simp: chain_ok_def valid_blocks_indexed)
  then have ul: "unat (index (last (blocks ?c))) = length (blocks ?c) - 1"
    using size(1) by (simp add: unat_of_nat chain_size_def)
  have front: "frontE (blocks t) = Inr (hd (blocks t))" "backE (blocks ?c) = Inr (last (blocks ?c))"
    using t(1) ne by (simp_all add: frontE_def backE_def)
  have k0: "index (hd (blocks t)) \<noteq> 0" using k(1,2) by (auto simp: unat_gt_0)
  have ok: "\<exists>r n'. syncBlockchain L n = Inr (r, n') \<and> node_ok L U n' \<and> tempchain n' = None"
    by (rule syncBlockchain_ok [OF assms(1-3)])
  have len: "length (take k (blocks ?c)) = k" using k(3) by (simp add: chain_size_def)
  have last: "last (take k (blocks ?c)) = blocks ?c ! (k - 1)"
    using len k(2) by (subst last_conv_nth) auto
  have linked: "add_blocks L (blocks t) (?c\<lparr>blocks := take k (blocks ?c)\<rparr>)
      = Inr (?c\<lparr>blocks := take k (blocks ?c) @ takeWhile (ValidHash L) (blocks t)\<rparr>)"
    using add_blocks_linked [OF assms(1) t(2) _ t(3), of "?c\<lparr>blocks := take k (blocks ?c)\<rparr>"]
      chain_ok_take [OF c k(2)] link size(2) by (simp add: last chain_size_def)
  show ?thesis
  proof (cases "k < length (blocks ?c)")
    case True
    then have "index (hd (blocks t)) \<le> index (last (blocks ?c))"
      using ul k(1) by (simp add: word_le_nat_alt)
    moreover have "chain_resize k ?c = ?c\<lparr>blocks := take k (blocks ?c)\<rparr>"
      using True by (simp add: chain_resize_def)
    ultimately show ?thesis
      using ok k0 linked assms(4) by (auto simp: syncBlockchain_def front simp flip: k(1))
  next
    case False
    then have keq: "k = length (blocks ?c)" using k(3) by (simp add: chain_size_def)
    then have gt: "\<not> index (hd (blocks t)) \<le> index (last (blocks ?c))"
      using ul k(1,2) ne by (simp add: word_le_nat_alt not_le)
    have "unat (index (last (blocks ?c)) + 1) = k"
      using ul keq ne size(1) by (simp add: unat_word_ariths chain_size_def)
    then have succ: "index (hd (blocks t)) = index (last (blocks ?c)) + 1"
      using k(1) by (simp add: word_unat_eq_iff)
    obtain c' db' where cw: "add_and_write L (blocks t) (?c, database n) = Inr (c', db')"
      using ok k0 gt succ assms(4) by (auto simp: syncBlockchain_def front res_simps)
    have "c' = ?c\<lparr>blocks := blocks ?c @ takeWhile (ValidHash L) (blocks t)\<rparr>"
      using add_and_write_fst [OF cw] linked keq by simp
    then show ?thesis
      using ok k0 gt succ assms(4) cw keq by (auto simp: syncBlockchain_def front)
  qed
qed

text \<open>\<open>C14\<close>: merging a chain that links to the local one at index \<open>k\<close> keeps the local blocks below
  \<open>k\<close> and follows them by the received blocks up to the first one without proof of work; the
  database holds the outcome. If already the first received block fails, local blocks are lost and
  nothing comes in their place.\<close>

theorem syncBlockchain_update:
  assumes "consistent U" and "\<forall>b \<in> U. storable b" and "node_ok L U n" and "tempchain n = Some t"
    and "k = unat (index (hd (blocks t)))" and "0 < k" and "k \<le> chain_size (nodeChain n)"
    and "previousHash (hd (blocks t)) = hash (blocks (nodeChain n) ! (k - 1))"
    and "chain_size (nodeChain n) < 2 ^ 64" and "chain_size t < 2 ^ 64"
  shows "\<exists>n'. syncBlockchain L n = Inr (True, n') \<and> tempchain n' = None
    \<and> blocks (nodeChain n') = take k (blocks (nodeChain n)) @ takeWhile (ValidHash L) (blocks t)
    \<and> dbFile (database n') = Some (concat (map write_block (blocks (nodeChain n'))))
    \<and> (\<not> ValidHash L (hd (blocks t)) \<longrightarrow> blocks (nodeChain n') = take k (blocks (nodeChain n)))"
proof -
  obtain n' where n': "syncBlockchain L n = Inr (True, n')" "node_ok L U n'" "tempchain n' = None"
      "blocks (nodeChain n') = take k (blocks (nodeChain n)) @ takeWhile (ValidHash L) (blocks t)"
    using syncBlockchain_chain [OF assms] by blast
  moreover have "dbFile (database n') = Some (concat (map write_block (blocks (nodeChain n'))))"
    using n'(2) by (simp add: node_ok_def db_holds_def)
  moreover have "takeWhile (ValidHash L) (blocks t) = []" if "\<not> ValidHash L (hd (blocks t))"
    using that by (cases "blocks t") auto
  ultimately show ?thesis by auto
qed

section \<open>Replacing the whole chain\<close>

lemma from_json_queue:
  "bindE (js_at L json ''blocks'') (blockchain_from_json L) = Inr t \<Longrightarrow> txQueue t = []"
  by (auto simp: res_simps blockchain_from_json_def empty_blockchain_def)

text \<open>While nothing is being mined, any valid chain that starts at index 0 and comes in a
  \<open>chain\<close> response replaces the local chain and file, whether it was asked for or not, however low
  its difficulty and however short it is; and the transactions waiting in the local queue are gone.\<close>

theorem chain_response_replaces:
  assumes "at_string L json ''message'' = Inr ''chain''"
    and "bindE (js_at L json ''blocks'') (blockchain_from_json L) = Inr t"
    and "isValidChain L t = Inr True" and "blocks t \<noteq> []" and "index (hd (blocks t)) = 0"
    and "miningDone n"
  shows "handleResponse L conn json n =
      Inr (n\<lparr>nodeChain := t, database := db_writeChain t (db_reset (database n)), tempchain := None\<rparr>, [])
    \<and> txQueue t = []"
  using assms from_json_queue [OF assms(2)]
  by (simp add: handleResponse_defs handleChainResponse_def syncBlockchain_def frontE_def backE_def chain_size_def)

text \<open>A received chain that starts at index 1 can never be merged: the assertion on the index
  in front of it stops the program, although block 0 is at hand to compare with.\<close>

theorem chain_from_one_fails:
  assumes "blocks t \<noteq> []" and "index (hd (blocks t)) = 1"
    and "blocks (nodeChain n) \<noteq> []" and "index (last (blocks (nodeChain n))) + 1 \<noteq> 0"
  shows "handleChainResponse L conn t n = Inl AssertFailed"
proof -
  have "\<not> 1 > index (last (blocks (nodeChain n))) + 1"
    using assms(4) by (simp add: word_less_1)
  with assms show ?thesis by (simp add: handleChainResponse_def frontE_def backE_def)
qed

section \<open>Serving a range\<close>

lemma indexed_position:
  assumes "indexed_blocks bs" and "length bs < 2 ^ 64" and "i < length bs"
  shows "unat (index (bs ! i)) = i"
  using assms by (simp add: indexed_blocks_def unat_of_nat)

lemma dropWhile_index:
  assumes "\<forall>i < length bs. unat (index (bs ! i)) = k + i" and "k \<le> unat a" and "unat a < k + length bs"
  shows "dropWhile (\<lambda>b. index b \<noteq> a) bs = drop (unat a - k) bs"
  using assms
proof (induction bs arbitrary: k)
  case Nil
  then show ?case by simp
next
  case (Cons b bs)
  from Cons.prems(1) have b: "unat (index b) = k" by force
  have rest: "\<forall>i < length bs. unat (index (bs ! i)) = Suc k + i" using Cons.prems(1) by force
  show ?case
  proof (cases "unat a = k")
    case True
    with b have "index b = a" by (simp add: word_unat_eq_iff)
    with True show ?thesis by simp
  next
    case False
    with b have "index b \<noteq> a" by auto
    moreover have "unat a - k = Suc (unat a - Suc k)" using False Cons.prems(2) by simp
    ultimately show ?thesis using Cons.IH [OF rest] Cons.prems(2,3) False by simp
  qed
qed

lemma takeWhile_index:
  assumes "\<forall>i < length bs. unat (index (bs ! i)) = k + i"
  shows "takeWhile (\<lambda>b. index b \<le> a) bs = take (Suc (unat a) - k) bs"
  using assms
proof (induction bs arbitrary: k)
  case Nil
  then show ?case by simp
next
  case (Cons b bs)
  from Cons.prems have b: "unat (index b) = k" by force
  have rest: "\<forall>i < length bs. unat (index (bs ! i)) = Suc k + i" using Cons.prems by force
  show ?case
  proof (cases "k \<le> unat a")
    case True
    then have "Suc (unat a) - k = Suc (Suc (unat a) - Suc k)" by simp
    with True b Cons.IH [OF rest] show ?thesis by (simp add: word_le_nat_alt)
  qed (use b in \<open>simp add: word_le_nat_alt\<close>)
qed

lemma serve_range_eq:
  assumes "indexed_blocks (blocks c)" and "chain_size c < 2 ^ 64" and "unat id1 < chain_size c"
  shows "serve_range c id1 id2 = (if id1 \<le> id2
     then Some (drop (unat id1) (take (Suc (unat id2)) (blocks c))) else Some [])"
proof -
  let ?bs = "blocks c" and ?k = "unat id1"
  have pos: "\<forall>i < length ?bs. unat (index (?bs ! i)) = i"
    using indexed_position [OF assms(1)] assms(2) by (simp add: chain_size_def)
  have drop: "dropWhile (\<lambda>b. index b \<noteq> id1) ?bs = drop ?k ?bs"
    using dropWhile_index [of ?bs 0 id1] pos assms(3) by (simp add: chain_size_def)
  moreover have "drop ?k ?bs \<noteq> []" using assms(3) by (simp add: chain_size_def)
  moreover have "takeWhile (\<lambda>b. index b \<le> id2) (drop ?k ?bs) = take (Suc (unat id2) - ?k) (drop ?k ?bs)"
    using pos by (intro takeWhile_index) auto
  ultimately have "serve_range c id1 id2 = Some (take (Suc (unat id2) - ?k) (drop ?k ?bs))"
    by (cases "drop ?k ?bs") (simp_all add: serve_range_def)
  then show ?thesis by (auto simp: drop_take word_le_nat_alt)
qed

lemma valid_blocks_drop: "valid_blocks L bs \<Longrightarrow> valid_blocks L (drop n bs)"
  unfolding valid_blocks_def by (metis append_take_drop_id successively_append_iff)

text \<open>A node asked for the blocks from \<open>id1\<close> to \<open>id2\<close> answers with exactly that slice of its
  chain, cut at its end, if it has block \<open>id1\<close>; the slice is a valid chain, and the JSON of the
  answer reads back as these blocks.\<close>

theorem serve_range_slice:
  assumes "isValidChain L c = Inr True" and "blocks c \<noteq> []" and "index (hd (blocks c)) = 0"
    and "chain_size c < 2 ^ 64" and "unat id1 < chain_size c" and "id1 \<le> id2" and "json_laws L"
  shows "\<exists>bs. serve_range c id1 id2 = Some bs
    \<and> bs = drop (unat id1) (take (unat id2 + 1) (blocks c)) \<and> bs \<noteq> []
    \<and> isValidChain L (empty_blockchain\<lparr>blocks := bs\<rparr>) = Inr True
    \<and> bindE (js_at L (blocks_reply L bs) ''blocks'') (blockchain_from_json L) = Inr (empty_blockchain\<lparr>blocks := bs\<rparr>)"
proof -
  let ?bs = "drop (unat id1) (take (Suc (unat id2)) (blocks c))"
  have valid: "valid_blocks L (blocks c)" using assms(1) by (simp add: isValidChain_eq)
  then have "serve_range c id1 id2 = Some ?bs"
    using serve_range_eq [OF valid_blocks_indexed [OF valid] assms(4,5)] assms(3,6) by simp
  moreover have "?bs \<noteq> []" using assms(5,6) by (simp add: chain_size_def word_le_nat_alt)
  moreover have "valid_blocks L ?bs" using valid by (intro valid_blocks_drop valid_blocks_take)
  ultimately show ?thesis
    using assms(7) by (simp add: isValidChain_eq blocks_reply_def json_simps blockchain_from_json_def blocks_json.from_to)
qed

section \<open>The genesis block\<close>

text \<open>The hash stored in a fresh genesis block is not that of its contents, unless the genesis
  data is empty: the data is set after the hash was computed, and the texts with and without it
  do not collide. So \<open>ValidHash\<close> refuses the block, which no validity check ever asks of it.\<close>

theorem genesis_hash_stale:
  assumes "inj_on (SHA256 L) ((\<lambda>d. block_hash_text 0 0 1 now d []
      (transactions_digest L [CreateCoinbaseTransaction L 0 reward])) ` {[], gendata})"
    and "gendata \<noteq> []"
  shows "\<not> ValidHash L (genesisBlock L now reward uuid gendata)
    \<and> isValidChain L (empty_blockchain\<lparr>blocks := [genesisBlock L now reward uuid gendata]\<rparr>) = Inr True"
proof -
  let ?txs = "[CreateCoinbaseTransaction L 0 reward]"
  let ?text = "\<lambda>d. block_hash_text 0 0 1 now d [] (transactions_digest L ?txs)"
  have "?text gendata \<noteq> ?text []" using assms(2) by (simp add: block_hash_text_def)
  then have "SHA256 L (?text gendata) \<noteq> SHA256 L (?text [])" using assms(1) by (auto dest: inj_onD)
  then have "CalculateBlockHash L (genesisBlock L now reward uuid gendata) \<noteq> hash (genesisBlock L now reward uuid gendata)"
    by (simp add: genesisBlock_def setData_def setMiner_def new_block_def CalculateBlockHash_def CalculateHash_def
        default_block_def Let_def)
  then show ?thesis by (simp add: ValidHash_iff isValidChain_eq)
qed

section \<open>A round of the mining thread\<close>

text \<open>The end of an undisturbed round.\<close>

lemma mining_round_end:
  assumes "node_ok L U n" and "tempchain n = None" and "peer_reachable L (nodePeers n)"
    and "mine_prepare L rel now n = Inr n1" and "minePc n1 = Prepared b"
    and "mineBlock L env fuel (nodeMiner (mine_reset b n1)) b = Inr (Some (MINED, b'))" and "\<forall>k. stopped env k \<longrightarrow> stoppedEnd env k"
    and "(\<Sum>x\<leftarrow>blocks (nodeChain n). 2 ^ unat (difficulty x)) < (2 ^ 64 :: nat)"
  shows "\<exists>n2 frames. mine_finish L MINED b' (mine_reset b n1) = Inr (n2, frames)
    \<and> blocks (nodeChain n2) = blocks (nodeChain n) @ [b'] \<and> txQueue (nodeChain n2) = []
    \<and> ValidHash L b' \<and> getAdjustedDifficulty rel (nodeChain n) = Inr (difficulty b')
    \<and> transactions b' = CreateCoinbaseTransaction L (index b') (rewardAddress n)
         # map (calcuateId L (index b')) (txQueue (nodeChain n))
    \<and> dbFile (database n2) = Some (concat (map write_block (blocks (nodeChain n))) @ write_block b')
    \<and> minePc n2 = Resting \<and> miningDone n2 = miningDone n"
proof -
  let ?c = "nodeChain n"
  have ne: "blocks ?c \<noteq> []" and db: "db_holds (database n) (blocks ?c)"
    using assms(1) by (auto simp: node_ok_def chain_ok_def)
  obtain d where d: "getAdjustedDifficulty rel ?c = Inr d"
    and n1: "nodeChain n1 = ?c\<lparr>txQueue := []\<rparr>" "database n1 = database n" "tempchain n1 = None"
      "nodePeers n1 = nodePeers n" "miningDone n1 = miningDone n" "minerDifficulty (nodeMiner n1) = d"
    and b: "index b = word_of_nat (chain_size ?c)" "previousHash b = hash (last (blocks ?c))"
      "transactions b = CreateCoinbaseTransaction L (index b) (rewardAddress n)
         # map (calcuateId L (index b)) (txQueue ?c)"
    using assms(2,4,5) ne
    by (auto simp: mine_prepare_def createUnminedBlock_eq bindE_eq_Inr setDifficulty_def setData_def setMiner_def)
  have loop: "mine_loop L env d b (transactions_digest L (transactions b)) fuel 0 0 (clock env 0)
        (mine_hash L d b (transactions_digest L (transactions b)) 0 (clock env 0)) = Some (MINED, b')"
    using assms(6) n1(6) by (auto simp: mineBlock_def res_simps Let_def)
  obtain k t h where b': "b' = setMinedData k d t h b" "ValidHash L b'"
    using mine_loop_result [OF loop refl assms(7)] by auto
  have fields: "index b' = index b" "previousHash b' = previousHash b" "transactions b' = transactions b"
    by (simp_all add: b'(1) block_frame)
  let ?c' = "?c\<lparr>txQueue := [], blocks := blocks ?c @ [b']\<rparr>"
  have add: "addNewBlock L b' (nodeChain (mine_reset b n1)) = Inr (True, ?c')"
    using b' ne fields(2) b(2) by (simp add: addNewBlock_eq n1)
  obtain cd where cd: "cumDifficulty ?c' = Inr cd"
    using pow2_u64_sum_unat [of "blocks ?c" 0] assms(8) by (auto simp: cumDifficulty_eq)
  obtain frames where frames: "broadcast msg (nodePeers n) = Inr (frames msg)" for msg
    using peer_reachable_ok [OF assms(3)] by (simp add: broadcast_eq peers_ok_def)
  let ?a = "(mine_reset b n1)\<lparr>nodeChain := ?c', minePc := Appended b'\<rparr>"
  let ?w = "(mine_write b' ?a)\<lparr>minePc := Announcing\<rparr>"
  define n2 where "n2 = ?w\<lparr>minePc := Resting\<rparr>"
  have append: "mine_append L b' (mine_reset b n1) = Inr ?a" using add by (simp add: mine_append_def)
  have merge: "mine_merge L True (mine_write b' ?a) = Inr ?w"
    by (simp add: mine_merge_def syncBlockchain_def mine_write_def n1)
  have "\<exists>fs. broadcastNewBlock L ?w = Inr fs"
    by (simp add: broadcastNewBlock_def mine_write_def cd n1 frames backE_def)
  then obtain fs where "mine_announce L ?w = Inr (n2, fs)" by (auto simp: mine_announce_def n2_def)
  then have "mine_finish L MINED b' (mine_reset b n1) = Inr (n2, fs)"
    by (simp add: mine_finish_def append merge)
  moreover have "dbFile (database n2) = Some (concat (map write_block (blocks ?c)) @ write_block b')"
    using db n1 by (simp add: n2_def mine_write_def db_write_def append_bytes_def db_holds_def)
  ultimately show ?thesis
    using b' d b(3) fields n1(5) by (auto simp: n2_def mine_write_def setMinedData_def)
qed

text \<open>Times that are not negative are never too far apart, and only the first block may have an empty hash.\<close>

lemma getAdjustedDifficulty_total:
  assumes "indexed_blocks (blocks c)" and "blocks c \<noteq> []" and "chain_size c < 2 ^ 64"
    and "\<forall>x \<in> set (blocks c). 0 \<le> sint (blockTime x)"
  shows "\<exists>d. getAdjustedDifficulty rel c = Inr d"
proof -
  have in_range: "0 \<le> sint (blockTime x) \<and> sint (blockTime x) < 2 ^ 63" if "x \<in> set (blocks c)" for x
    using assms(4) that sint_lt [of "blockTime x"] by simp
  have "chain_size c - BLOCK_INTERVAL rel < length (blocks c)"
    using assms(2) BLOCK_INTERVAL_cases [of rel] by (auto simp: chain_size_def)
  then have "blocks c ! (chain_size c - BLOCK_INTERVAL rel) \<in> set (blocks c)" "last (blocks c) \<in> set (blocks c)"
    using assms(2) by simp_all
  from in_range [OF this(1)] in_range [OF this(2)] show ?thesis
    by (simp add: getAdjustedDifficulty_indexed [OF assms(1-3)] timespan_seconds_def Let_def)
qed

lemma chain_last_hash:
  assumes "chain_ok L U bs" and "\<forall>t. SHA256 L t \<noteq> []" and "length bs \<noteq> 1"
  shows "hash (last bs) \<noteq> []"
proof -
  have "bs \<noteq> []" using assms(1) by (simp add: chain_ok_def)
  then obtain as b where bs: "bs = as @ [b]" by (metis append_butlast_last_id)
  with assms(1,3) have "as \<noteq> []" "CalculateBlockHash L b = hash b"
    by (auto simp: chain_ok_def valid_blocks_snoc valid_pair_def)
  then obtain t where "hash b = SHA256 L t"
    using that by (metis CalculateBlockHash_def CalculateHash_def)
  with assms(2) bs show ?thesis by simp
qed

text \<open>\<open>C15\<close>: an undisturbed round never fails. On a chain whose times are not negative and whose
  difficulties sum to less than \<open>2^64\<close>, with no received chain waiting, a block can be made, the search for
  its nonce fails no assertion, and when the search succeeds the chain grows by the mined block, whose
  difficulty is the adjusted one and whose transactions are the reward and the whole queue; the queue is
  empty; the database holds the old blocks and the new one. (A digest is never empty.)\<close>

theorem mining_round:
  assumes "node_ok L U n" and "tempchain n = None" and "peer_reachable L (nodePeers n)" and "\<forall>t. SHA256 L t \<noteq> []"
    and "chain_size (nodeChain n) < 2 ^ 64" and "\<forall>x \<in> set (blocks (nodeChain n)). 0 \<le> sint (blockTime x)"
    and "(\<Sum>x\<leftarrow>blocks (nodeChain n). 2 ^ unat (difficulty x)) < (2 ^ 64 :: nat)"
  shows "\<exists>n1 b. mine_prepare L rel now n = Inr n1 \<and> minePc n1 = Prepared b
    \<and> (\<forall>env fuel. \<exists>found. mineBlock L env fuel (nodeMiner (mine_reset b n1)) b = Inr found)
    \<and> (\<forall>env fuel b'. mineBlock L env fuel (nodeMiner (mine_reset b n1)) b = Inr (Some (MINED, b')) \<longrightarrow>
         (\<forall>k. stopped env k \<longrightarrow> stoppedEnd env k) \<longrightarrow>
         (\<exists>n2 frames. mine_finish L MINED b' (mine_reset b n1) = Inr (n2, frames)
          \<and> blocks (nodeChain n2) = blocks (nodeChain n) @ [b'] \<and> txQueue (nodeChain n2) = []
          \<and> ValidHash L b' \<and> getAdjustedDifficulty rel (nodeChain n) = Inr (difficulty b')
          \<and> transactions b' = CreateCoinbaseTransaction L (index b') (rewardAddress n)
               # map (calcuateId L (index b')) (txQueue (nodeChain n))
          \<and> dbFile (database n2) = Some (concat (map write_block (blocks (nodeChain n))) @ write_block b')
          \<and> minePc n2 = Resting \<and> miningDone n2 = miningDone n))"
proof -
  let ?c = "nodeChain n"
  have ok: "chain_ok L U (blocks ?c)" and ne: "blocks ?c \<noteq> []" using assms(1) by (auto simp: node_ok_def chain_ok_def)
  then have "indexed_blocks (blocks ?c)" by (auto simp: chain_ok_def intro: valid_blocks_indexed)
  then obtain d where "getAdjustedDifficulty rel ?c = Inr d"
    using getAdjustedDifficulty_total [OF _ ne assms(5,6)] by blast
  then obtain n1 b where n1: "mine_prepare L rel now n = Inr n1" "minePc n1 = Prepared b"
      and b: "index b = word_of_nat (chain_size ?c)" "previousHash b = hash (last (blocks ?c))"
    using ne by (simp add: mine_prepare_def createUnminedBlock_eq setData_def setMiner_def)
  have "unat (index b) = chain_size ?c" using assms(5) by (simp add: b(1) unat_of_nat)
  moreover have "0 < chain_size ?c" using ne by (simp add: chain_size_def)
  ultimately have "index b > 0" by (simp add: word_gt_0 unat_gt_0 [symmetric])
  moreover have "length (previousHash b) > 0 \<or> index b - 1 = 0"
    using chain_last_hash [OF ok assms(4)] b by (cases "length (blocks ?c) = 1") (simp_all add: chain_size_def)
  ultimately have "\<exists>found. mineBlock L env fuel (nodeMiner (mine_reset b n1)) b = Inr found" for env fuel
    by (simp add: mineBlock_def Let_def)
  with n1 mining_round_end [OF assms(1-3) n1 _ _ assms(7)] show ?thesis by blast
qed

section \<open>Witnesses\<close>

text \<open>Three small blocks whose hashes tell their positions, and a node that holds some of them.\<close>

definition sync_lib :: "json lib" where
  "sync_lib = demo_lib\<lparr>sha256_digest := \<lambda>s. CHR ''h'' # take 1 s\<rparr>"

definition blk0 :: block where "blk0 = (tiny_block 0 [])\<lparr>hash := ''h0''\<rparr>"
definition blk1 :: block where "blk1 = (tiny_block 1 ''h0'')\<lparr>hash := ''h1''\<rparr>"
definition blk2 :: block where "blk2 = (tiny_block 2 ''h1'')\<lparr>hash := ''h2''\<rparr>"

lemma blk_simps [simp]:
  "index blk0 = 0" "index blk1 = 1" "index blk2 = 2"
  "hash blk0 = ''h0''" "hash blk1 = ''h1''" "hash blk2 = ''h2''"
  "previousHash blk0 = []" "previousHash blk1 = ''h0''" "previousHash blk2 = ''h1''"
  "difficulty blk0 = 0" "difficulty blk1 = 0" "difficulty blk2 = 0"
  by (simp_all add: blk0_def blk1_def blk2_def tiny_block_def)

lemma blk_storable: "b \<in> {blk0, blk1, blk2} \<Longrightarrow> storable b"
proof -
  have "storable (b\<lparr>hash := h\<rparr>)" if "storable b" "length h < 10" for b h
  proof -
    have "stored_block (b\<lparr>hash := h\<rparr>) = (stored_block b)\<lparr>hash := h\<rparr>" by (simp add: stored_block_def)
    with that show ?thesis by (auto simp: storable_def ok_block_def ok_header_def short_def)
  qed
  then show "b \<in> {blk0, blk1, blk2} \<Longrightarrow> storable b"
    by (auto simp: blk0_def blk1_def blk2_def tiny_block_storable)
qed

lemma blk_consistent: "consistent {blk0, blk1, blk2}"
  by (simp add: consistent_def)

lemma blk_hash:
  "b \<in> {blk0, blk1, blk2} \<Longrightarrow> ValidHash sync_lib b"
  by (auto simp: ValidHash_iff blk0_def blk1_def blk2_def tiny_block_def sync_lib_def CalculateBlockHash_def
      CalculateHash_def block_hash_text_def u64_dec_def)

lemma blk_valid: "valid_blocks sync_lib [blk0, blk1, blk2]" "valid_blocks sync_lib [blk0, blk1]"
  using blk_hash by (simp_all add: valid_blocks_def valid_pair_def ValidHash_iff)

definition sync_node :: "block list \<Rightarrow> node" where
  "sync_node bs = \<lparr>nodeChain = empty_blockchain\<lparr>blocks := bs\<rparr>, tempchain = None,
     database = \<lparr>dbFolderExists = True, dbFile = Some (concat (map write_block bs)), dbIndexOpen = True\<rparr>,
     nodeMiner = new_miner 0, minePc = Resting, miningDone = True, mineThread = False, joining = False, finishing = 0, nodeDone = False, rewardAddress = ''alice'',
     nodeUuid = ''node'', resetEnable = False, nodePeers = empty_manager\<rparr>"

lemma sync_node_simps [simp]:
  "nodeChain (sync_node bs) = empty_blockchain\<lparr>blocks := bs\<rparr>" "tempchain (sync_node bs) = None"
  "miningDone (sync_node bs)" "nodePeers (sync_node bs) = empty_manager" "minePc (sync_node bs) = Resting"
  "rewardAddress (sync_node bs) = ''alice''" "nodeUuid (sync_node bs) = ''node''"
  "database (sync_node bs) = \<lparr>dbFolderExists = True, dbFile = Some (concat (map write_block bs)), dbIndexOpen = True\<rparr>"
  by (simp_all add: sync_node_def)

lemma sync_node_ok:
  assumes "bs \<noteq> []" and "set bs \<subseteq> {blk0, blk1, blk2}" and "valid_blocks sync_lib bs" and "hd bs = blk0"
  shows "node_ok sync_lib {blk0, blk1, blk2} (sync_node bs)"
  using assms blk_storable by (auto simp: node_ok_def chain_ok_def db_holds_def temp_ok_def)

theorem syncBlockchain_update_witness:
  "\<exists>n'. syncBlockchain sync_lib ((sync_node [blk0])\<lparr>tempchain := Some (empty_blockchain\<lparr>blocks := [blk1, blk2]\<rparr>)\<rparr>)
     = Inr (True, n') \<and> blocks (nodeChain n') = [blk0, blk1, blk2]"
proof -
  let ?t = "empty_blockchain\<lparr>blocks := [blk1, blk2]\<rparr>"
  let ?n = "(sync_node [blk0])\<lparr>tempchain := Some ?t\<rparr>"
  have "valid_blocks sync_lib [blk1, blk2]" using blk_valid(1) by (simp add: valid_blocks_def)
  then have ok: "node_ok sync_lib {blk0, blk1, blk2} ?n"
    using sync_node_ok [of "[blk0]"] by (simp add: node_ok_def temp_ok_def)
  have "takeWhile (ValidHash sync_lib) [blk1, blk2] = [blk1, blk2]" by (simp add: blk_hash)
  then show ?thesis
    using syncBlockchain_update [OF blk_consistent _ ok, of ?t 1] blk_storable
    by (fastforce simp: chain_size_def)
qed

theorem chain_response_replaces_witness:
  "\<exists>n'. handleResponse sync_lib \<lparr>serverConn = Some 0, clientConn = None\<rparr>
      (js_object sync_lib [(''blocks'', blocks_to_json sync_lib [blk0]), (''message'', js_of_string sync_lib ''chain'')])
      (sync_node [blk0, blk1, blk2]) = Inr (n', []) \<and> blocks (nodeChain n') = [blk0]"
proof -
  let ?L = sync_lib and ?t = "empty_blockchain\<lparr>blocks := [blk0]\<rparr>"
  have laws: "json_laws ?L" using demo_json_laws by (simp add: json_laws_def sync_lib_def js_object_def js_array_def)
  let ?j = "js_object ?L [(''blocks'', blocks_to_json ?L [blk0]), (''message'', js_of_string ?L ''chain'')]"
  have 1: "at_string ?L ?j ''message'' = Inr ''chain''" using laws by (simp add: at_defs json_simps)
  have 2: "bindE (js_at ?L ?j ''blocks'') (blockchain_from_json ?L) = Inr ?t"
    using laws by (simp add: json_simps blockchain_from_json_def blocks_json.from_to)
  show ?thesis
    using chain_response_replaces [OF 1 2, of "sync_node [blk0, blk1, blk2]"] by (simp add: isValidChain_eq)
qed

theorem chain_from_one_fails_witness:
  "handleChainResponse sync_lib \<lparr>serverConn = Some 0, clientConn = None\<rparr>
     (empty_blockchain\<lparr>blocks := [blk1]\<rparr>) (sync_node [blk0]) = Inl AssertFailed"
  by (rule chain_from_one_fails) simp_all

theorem serve_range_slice_witness:
  "serve_range (empty_blockchain\<lparr>blocks := [blk0, blk1, blk2]\<rparr>) 1 7 = Some [blk1, blk2]"
proof -
  have laws: "json_laws sync_lib" using demo_json_laws by (simp add: json_laws_def sync_lib_def js_object_def js_array_def)
  show ?thesis
    using serve_range_slice [of sync_lib "empty_blockchain\<lparr>blocks := [blk0, blk1, blk2]\<rparr>" 1 7]
    by (simp add: laws isValidChain_eq blk_valid chain_size_def)
qed

theorem genesis_hash_stale_witness:
  "\<not> ValidHash demo_lib (genesisBlock demo_lib 0 ''alice'' ''node'' ''Gulliver'')"
  using genesis_hash_stale [of demo_lib 0 "''alice''" "''Gulliver''" "''node''"] by (simp add: inj_on_def)

theorem mining_round_witness:
  "\<exists>n1 b b' n2 frames. mine_prepare sync_lib True 0 (sync_node [blk0]) = Inr n1 \<and> minePc n1 = Prepared b
    \<and> mineBlock sync_lib quiet_env 1 (nodeMiner (mine_reset b n1)) b = Inr (Some (MINED, b'))
    \<and> mine_finish sync_lib MINED b' (mine_reset b n1) = Inr (n2, frames) \<and> blocks (nodeChain n2) = [blk0, b']"
proof -
  have "getAdjustedDifficulty True (empty_blockchain\<lparr>blocks := [blk0]\<rparr>) = Inr 0"
    by (simp add: getAdjustedDifficulty_def BLOCK_INTERVAL_def backE_def chain_size_def word_mod_def)
  then obtain n1 b where n1: "mine_prepare sync_lib True 0 (sync_node [blk0]) = Inr n1" "minePc n1 = Prepared b"
      "index b = 1" "nodeMiner n1 = setDifficulty 0 (new_miner 0)"
    by (simp add: mine_prepare_def createUnminedBlock_eq setData_def setMiner_def chain_size_def sync_node_def)
  have d: "minerDifficulty (setDifficulty 0 (new_miner 0)) = 0" by (simp add: setDifficulty_def)
  obtain b' where b': "mineBlock sync_lib quiet_env 1 (nodeMiner (mine_reset b n1)) b = Inr (Some (MINED, b'))"
    using mineBlock_runs [of b 0 quiet_env sync_lib "nodeMiner (mine_reset b n1)" 1] n1(3,4) by (simp add: d)
  have ok: "node_ok sync_lib {blk0, blk1, blk2} (sync_node [blk0])" by (rule sync_node_ok) simp_all
  have digest: "\<forall>t. SHA256 sync_lib t \<noteq> []" by (simp add: sync_lib_def SHA256_def)
  have time: "sint (blockTime blk0) = 0" by (simp add: blk0_def tiny_block_def)
  from mining_round [OF ok _ _ digest, of True 0] n1(1,2) time peer_reachable.init [of sync_lib]
  have "\<exists>n2 frames. mine_finish sync_lib MINED b' (mine_reset b n1) = Inr (n2, frames) \<and> blocks (nodeChain n2) = [blk0, b']"
    using b' by (fastforce simp: chain_size_def)
  with n1(1,2) b' show ?thesis by blast
qed


end
