(* ===== verification/Replica.thy ===== *)
theory Replica
  imports Sync
begin

text \<open>
  The node as a replicated log. The specification knows nothing of threads, frames, temporary
  chains or files: a log of blocks is cut somewhere behind its first block and continued with
  blocks that carry proof of work and link to what is there, or it is replaced by a linked log that
  starts at index 0. Every move of a node refines steps of this specification.
\<close>

section \<open>The specification\<close>

text \<open>\<open>bs\<close> continues a log whose last block is \<open>p\<close>, each block with proof of work.\<close>

fun work_chain :: "'j lib \<Rightarrow> block \<Rightarrow> block list \<Rightarrow> bool" where
  "work_chain L p [] = True"
| "work_chain L p (b # bs) \<longleftrightarrow> ValidHash L b \<and> previousHash b = hash p \<and> work_chain L b bs"

inductive log_step :: "'j lib \<Rightarrow> block list \<Rightarrow> block list \<Rightarrow> bool" for L where
  continue: "0 < k \<Longrightarrow> k \<le> length l \<Longrightarrow> work_chain L (l ! (k - 1)) new \<Longrightarrow> log_step L l (take k l @ new)"
| replace: "l' \<noteq> [] \<Longrightarrow> valid_blocks L l' \<Longrightarrow> index (hd l') = 0 \<Longrightarrow> log_step L l l'"

inductive_cases log_stepE: "log_step L l l'"

abbreviation log_steps :: "'j lib \<Rightarrow> block list \<Rightarrow> block list \<Rightarrow> bool" where
  "log_steps L \<equiv> (log_step L)\<^sup>*\<^sup>*"

section \<open>Simulation\<close>

text \<open>
  What it takes for the runs of a program to be runs of a specification: an invariant that steps
  keep, and for each step from a good state a run of the specification between the abstractions.
\<close>

locale simulation =
  fixes abs :: "'c \<Rightarrow> 'a"
    and good :: "'c \<Rightarrow> bool"
    and cstep :: "'c \<Rightarrow> 'c \<Rightarrow> bool"
    and astep :: "'a \<Rightarrow> 'a \<Rightarrow> bool"
  assumes step_good: "good c \<Longrightarrow> cstep c c' \<Longrightarrow> good c'"
    and step_sim: "good c \<Longrightarrow> cstep c c' \<Longrightarrow> astep\<^sup>*\<^sup>* (abs c) (abs c')"
begin

lemma run_sim:
  assumes "cstep\<^sup>*\<^sup>* c c'" and "good c"
  shows "good c' \<and> astep\<^sup>*\<^sup>* (abs c) (abs c')"
  using assms
proof (induction rule: rtranclp_induct)
  case base
  then show ?case by simp
next
  case (step c1 c2)
  then show ?case using step_good step_sim by (meson rtranclp_trans)
qed

end

section \<open>The node refines the specification\<close>

lemma add_blocks_work:
  assumes "add_blocks L bs c = Inr c'" and "blocks c \<noteq> []"
  shows "\<exists>new. blocks c' = blocks c @ new \<and> work_chain L (last (blocks c)) new"
  using assms
proof (induction bs arbitrary: c)
  case Nil
  then show ?case by (intro exI [of _ "[]"]) (simp add: add_blocks_def)
next
  case (Cons b bs)
  then obtain added c1 where c1: "addNewBlock L b c = Inr (added, c1)" "add_blocks L bs c1 = Inr c'"
    by (auto simp: add_blocks_def res_simps)
  show ?case
  proof (cases "ValidHash L b \<and> previousHash b = hash (last (blocks c))")
    case True
    with c1(1) Cons.prems(2) have eq: "blocks c1 = blocks c @ [b]" by (auto simp: addNewBlock_eq)
    with Cons.IH [OF c1(2)] obtain new where "blocks c' = blocks c1 @ new" "work_chain L b new" by auto
    with True eq show ?thesis by (intro exI [of _ "b # new"]) simp
  next
    case False
    with c1(1) Cons.prems(2) have "c1 = c" by (auto simp: addNewBlock_eq split: if_splits)
    with Cons.IH c1(2) Cons.prems(2) show ?thesis by blast
  qed
qed

lemma log_step_refl: "l \<noteq> [] \<Longrightarrow> log_step L l l"
  using log_step.continue [of "length l" l L "[]"] by simp

lemma syncBlockchain_log:
  assumes "node_sound L U n" and "syncBlockchain L n = Inr (r, n')"
  shows "log_step L (blocks (nodeChain n)) (blocks (nodeChain n'))"
proof (cases "tempchain n")
  case None
  with assms show ?thesis by (auto simp: syncBlockchain_def node_sound_def chain_ok_def intro: log_step_refl)
next
  case (Some t)
  let ?l = "blocks (nodeChain n)"
  have t: "blocks t \<noteq> []" "valid_blocks L (blocks t)"
    using assms(1) Some by (simp_all add: node_sound_def temp_ok_def)
  have c: "chain_ok L U ?l" "?l \<noteq> []" using assms(1) by (simp_all add: node_sound_def chain_ok_def)
  have front: "frontE (blocks t) = Inr (hd (blocks t))" "backE ?l = Inr (last ?l)"
    using t(1) c(2) by (simp_all add: frontE_def backE_def)
  let ?k = "index (hd (blocks t))"
  consider "?k = 0" | "?k \<noteq> 0" "?k \<le> index (last ?l)" | "?k \<noteq> 0" "\<not> ?k \<le> index (last ?l)" by blast
  then show ?thesis
  proof cases
    case 1
    with assms(2) Some have "nodeChain n' = t" by (auto simp: syncBlockchain_def front)
    with t 1 show ?thesis by (auto intro: log_step.replace)
  next
    case 2
    have k: "0 < unat ?k" "unat ?k < length ?l"
      using 2 unat_index_last [OF c(1)] by (simp_all add: unat_gt_0 word_le_nat_alt)
    then have cut: "blocks (chain_resize (unat ?k) (nodeChain n)) = take (unat ?k) ?l"
      by (simp add: chain_resize_def)
    obtain c' where c': "add_blocks L (blocks t) (chain_resize (unat ?k) (nodeChain n)) = Inr c'" "nodeChain n' = c'"
      using assms(2) Some 2 by (auto simp: syncBlockchain_def front res_simps)
    moreover have "last (take (unat ?k) ?l) = ?l ! (unat ?k - 1)"
      using k by (subst last_conv_nth) auto
    ultimately obtain new where "blocks c' = take (unat ?k) ?l @ new" "work_chain L (?l ! (unat ?k - 1)) new"
      using add_blocks_work [OF c'(1)] cut k c(2) by auto
    with c'(2) k show ?thesis by (auto intro: log_step.continue)
  next
    case 3
    then have "nodeChain n' = nodeChain n \<or> (\<exists>db'. add_and_write L (blocks t) (nodeChain n, database n) = Inr (nodeChain n', db'))"
      using assms(2) Some by (auto simp: syncBlockchain_def front res_simps split: if_splits)
    then show ?thesis
    proof
      assume "\<exists>db'. add_and_write L (blocks t) (nodeChain n, database n) = Inr (nodeChain n', db')"
      then obtain db' where "add_and_write L (blocks t) (nodeChain n, database n) = Inr (nodeChain n', db')" by blast
      from add_blocks_work [OF add_and_write_fst [OF this] c(2)] obtain new where
        "blocks (nodeChain n') = ?l @ new" "work_chain L (last ?l) new" by blast
      with log_step.continue [of "length ?l" ?l L new] c(2) show ?thesis by (simp add: last_conv_nth)
    qed (use c(2) in \<open>simp add: log_step_refl\<close>)
  qed
qed

lemma node_move_log:
  assumes "consistent U" and "\<forall>b \<in> U. storable b" and "node_safe L U n" and "node_move L rel U n n'"
  shows "log_steps L (blocks (nodeChain n)) (blocks (nodeChain n'))"
proof -
  have sound: "node_sound L U n" and ne: "blocks (nodeChain n) \<noteq> []"
    using assms(3) by (auto simp: node_safe_def node_sound_def chain_ok_def)
  consider "blocks (nodeChain n') = blocks (nodeChain n)"
    | b where "blocks (nodeChain n') = blocks (nodeChain n) @ [b]" "ValidHash L b" "previousHash b = hash (last (blocks (nodeChain n)))"
    | s m where "syncBlockchain L n = Inr (s, m)" "blocks (nodeChain n') = blocks (nodeChain m)"
    using assms(4) node_acts_safe [OF assms(1,2) _ _ assms(3)] unfolding node_move_def by blast
  then show ?thesis
  proof cases
    case 2
    then have "log_step L (blocks (nodeChain n)) (blocks (nodeChain n'))"
      using ne log_step.continue [of "length (blocks (nodeChain n))" "blocks (nodeChain n)" L "[b]"]
      by (simp add: last_conv_nth)
    then show ?thesis by blast
  next
    case 3
    with syncBlockchain_log [OF sound] show ?thesis by auto
  qed simp
qed

lemma node_move_safe:
  "consistent U \<Longrightarrow> \<forall>b \<in> U. storable b \<Longrightarrow> node_safe L U n \<Longrightarrow> node_move L rel U n n' \<Longrightarrow> node_safe L U n'"
  by (rule node_moves_safe) auto

interpretation node_log: simulation "\<lambda>n. blocks (nodeChain n)"
    "\<lambda>n. consistent U \<and> (\<forall>b \<in> U. storable b) \<and> node_safe L U n" "node_move L rel U" "log_step L" for L U rel
  by unfold_locales (blast intro: node_move_safe, blast intro: node_move_log)



end
