(* ===== verification/Protocol.thy ===== *)
theory Protocol
  imports Sync Json
begin

text \<open>
  Two nodes talking: the exchange of frames by which a node that is behind gets the missing blocks
  of a peer, composed from the handlers of both sides.
\<close>

section \<open>Frames\<close>

text \<open>The object that \<open>sendMessage\<close> makes of a payload object.\<close>

definition envelope :: "'j lib \<Rightarrow> (string \<times> 'j) list \<Rightarrow> string \<Rightarrow> string \<Rightarrow> 'j" where
  "envelope L kvs msg ty =
     js_object L (kvs @ [(''message'', js_of_string L msg), (''message-type'', js_of_string L ty)])"

lemma message_text_object:
  assumes "payload \<noteq> []" and "js_parse L payload = Some (js_object L kvs)"
  shows "message_text L msg ty payload = Inr (js_dump L (envelope L kvs msg ty))"
  using assms by (simp add: message_text_def envelope_def js_object_def)

lemma message_text_empty: "message_text L msg ty [] = Inr (js_dump L (envelope L [] msg ty))"
  by (simp add: message_text_def envelope_def js_object_def)

lemma envelope_fields:
  assumes "json_laws L"
  shows "at_string L (envelope L kvs msg ty) ''message'' = Inr msg"
    and "at_string L (envelope L kvs msg ty) ''message-type'' = Inr ty"
    and "js_contains L (envelope L kvs msg ty) ''message''" and "js_contains L (envelope L kvs msg ty) ''message-type''"
  using assms by (simp_all add: envelope_def at_defs json_simps)

lemma envelope_at:
  assumes "json_laws L" and "k \<noteq> ''message''" and "k \<noteq> ''message-type''"
  shows "kvs \<noteq> [] \<Longrightarrow> js_at L (envelope L kvs msg ty) k = js_at L (js_object L kvs) k"
    and "js_contains L (envelope L kvs msg ty) k \<longleftrightarrow> js_contains L (js_object L kvs) k"
  using assms by (simp_all add: envelope_def json_simps)

lemma receive_request:
  assumes "json_laws L" and "js_parse L raw = Some (envelope L kvs msg ''request'')"
  shows "onChainMessage L conn raw n =
    bindE (dispatchRequest L n conn (envelope L kvs msg ''request'')) (\<lambda>fs. Inr (n, fs))"
  using assms envelope_fields [OF assms(1), of kvs msg "''request''"] by (simp add: onChainMessage_defs handleResponse_def handler_rest_def bindE_assoc Let_def)

lemma receive_response:
  assumes "json_laws L" and "js_parse L raw = Some (envelope L kvs msg ''response'')"
  shows "onChainMessage L conn raw n = handleResponse L conn (envelope L kvs msg ''response'') n"
  using assms envelope_fields [OF assms(1), of kvs msg "''response''"] by (simp add: onChainMessage_defs handleResponse_def Let_def)

section \<open>The three legs of catching up\<close>

text \<open>The payloads on the way: a summary, a request for a range, the blocks asked for.\<close>

definition summary_payload :: "'j lib \<Rightarrow> block list \<Rightarrow> u64 \<Rightarrow> (string \<times> 'j) list" where
  "summary_payload L bs cd = [(''blocks'', blocks_to_json L [hd bs, last bs]), (''cumdiff'', js_of_u64 L cd)]"

definition range_payload :: "'j lib \<Rightarrow> u64 \<Rightarrow> u64 \<Rightarrow> (string \<times> 'j) list" where
  "range_payload L a b = [(''id1'', js_of_u64 L a), (''id2'', js_of_u64 L b)]"

definition blocks_payload :: "'j lib \<Rightarrow> block list \<Rightarrow> (string \<times> 'j) list" where
  "blocks_payload L bs = [(''blocks'', blocks_to_json L bs)]"

lemma serve_summary:
  assumes "json_laws L" and "blocks (nodeChain n) \<noteq> []" and "cumDifficulty (nodeChain n) = Inr cd"
    and "printable L (js_object L (summary_payload L (blocks (nodeChain n)) cd))"
  shows "dispatchRequest L n conn (envelope L kvs ''summary'' ''request'') =
    bindE (proxy_send conn (js_dump L (envelope L (summary_payload L (blocks (nodeChain n)) cd) ''summary'' ''response'')))
      (\<lambda>f. Inr [f])"
  using assms envelope_fields(1) [OF assms(1)]
  by (simp add: dispatchRequest_def summary_reply_def frontE_def backE_def sendResponse_def sendMessage_def
      message_text_object printable_def summary_payload_def)

lemma block_equal_refl [simp]: "block_equal b b"
  by (simp add: block_equal_def)

lemma learn_summary:
  assumes "json_laws L" and "tempchain n = None" and "blocks (nodeChain n) \<noteq> []"
    and "hd bs = hd (blocks (nodeChain n))" and "cumDifficulty (nodeChain n) = Inr a" and "a < cd"
    and "js_parse L (range_text [] (index (last (blocks (nodeChain n))) + 1) (index (last bs)))
      = Some (js_object L (range_payload L (index (last (blocks (nodeChain n))) + 1) (index (last bs))))"
  shows "handle_summary L conn (envelope L (summary_payload L bs cd) ''summary'' ''response'') n =
    bindE (proxy_send conn (js_dump L (envelope L
        (range_payload L (index (last (blocks (nodeChain n))) + 1) (index (last bs))) ''chain'' ''request'')))
      (\<lambda>f. Inr (Some [f]))"
proof -
  let ?e = "envelope L (summary_payload L bs cd) ''summary'' ''response''"
  have fields: "js_contains L ?e ''blocks''" "js_contains L ?e ''cumdiff''"
      "js_at L ?e ''blocks'' = Inr (blocks_to_json L [hd bs, last bs])" "at_u64 L ?e ''cumdiff'' = Inr cd"
    using assms(1) by (simp_all add: envelope_at at_defs summary_payload_def json_simps)
  have items: "js_is_array L (blocks_to_json L [x, y])" "js_items L (blocks_to_json L [x, y]) = [block_to_json L x, block_to_json L y]" for x y
    using assms(1) by (simp_all add: blocks_to_json_def to_json_array_def json_simps)
  have range: "range_text [] x y \<noteq> []" for x y by (simp add: range_text_def)
  show ?thesis
    using assms(2-7)
    by (simp add: handle_summary_def fields items block_json.from_to [OF assms(1)] frontE_def backE_def request_range_def
        sendRequestFmt_def sendMessage_def message_text_object [OF range] bindE_assoc)
qed

lemma serve_chain:
  assumes "json_laws L" and "serve_range (nodeChain n) a b = Some bs" and "bs \<noteq> []"
    and "printable L (js_object L (blocks_payload L bs))"
  shows "dispatchRequest L n conn (envelope L (range_payload L a b) ''chain'' ''request'') =
    bindE (proxy_send conn (js_dump L (envelope L (blocks_payload L bs) ''chain'' ''response''))) (\<lambda>f. Inr [f])"
proof -
  let ?e = "envelope L (range_payload L a b) ''chain'' ''request''"
  have "js_contains L ?e ''id1''" "js_at L ?e ''id1'' = Inr (js_of_u64 L a)" "js_at L ?e ''id2'' = Inr (js_of_u64 L b)"
    using assms(1) by (simp_all add: envelope_at range_payload_def json_simps)
  then have "chain_reply L n ?e = Inr (js_object L (blocks_payload L bs))"
    using assms(1-3) by (simp add: chain_reply_def json_simps blocks_reply_def blocks_payload_def)
  then show ?thesis
    using assms(4) envelope_fields(1) [OF assms(1)]
    by (simp add: dispatchRequest_def sendResponse_def sendMessage_def message_text_object printable_def)
qed

lemma split_valid:
  assumes "valid_blocks L (old @ new)" and "old \<noteq> []" and "new \<noteq> []"
  shows "valid_blocks L new" and "valid_pair L (last old) (hd new)"
  using assms by (auto simp: valid_blocks_def successively_append_iff)

lemma accept_chain:
  assumes "json_laws L" and "consistent U" and "\<forall>b \<in> U. storable b" and "node_ok L U n"
    and "chain_ok L U (blocks (nodeChain n) @ new)" and "new \<noteq> []" and "\<forall>b \<in> set new. ValidHash L b"
    and "2 \<le> chain_size (nodeChain n)" and "length (blocks (nodeChain n) @ new) < 2 ^ 64"
    and "tempchain n = None" and "miningDone n"
  shows "\<exists>n'. handleResponse L conn (envelope L (blocks_payload L new) ''chain'' ''response'') n = Inr (n', [])
    \<and> node_ok L U n' \<and> blocks (nodeChain n') = blocks (nodeChain n) @ new"
proof -
  let ?c = "nodeChain n" and ?e = "envelope L (blocks_payload L new) ''chain'' ''response''"
  let ?t = "empty_blockchain\<lparr>blocks := new\<rparr>"
  have ne: "blocks ?c \<noteq> []" and size: "length (blocks ?c) < 2 ^ 64" "2 \<le> length (blocks ?c)"
    using assms(8,9) by (auto simp: chain_size_def)
  have valid: "valid_blocks L (blocks ?c @ new)" "indexed_blocks (blocks ?c @ new)"
    using assms(5) ne by (auto simp: chain_ok_def valid_blocks_indexed)
  then have pair: "valid_blocks L new" "valid_pair L (last (blocks ?c)) (hd new)"
    using split_valid ne assms(6) by blast+
  have at: "unat (index ((blocks ?c @ new) ! i)) = i" if "i < length (blocks ?c @ new)" for i
    using indexed_position [OF valid(2) assms(9) that] .
  have lback: "unat (index (last (blocks ?c))) = length (blocks ?c) - 1"
    using at [of "length (blocks ?c) - 1"] size(2) by (simp add: nth_append last_conv_nth ne)
  have front: "unat (index (hd new)) = length (blocks ?c)"
    using at [of "length (blocks ?c)"] assms(6) by (simp add: nth_append hd_conv_nth)
  have next_idx: "index (hd new) = index (last (blocks ?c)) + 1" "previousHash (hd new) = hash (last (blocks ?c))"
    using pair(2) by (simp_all add: valid_pair_def)
  have link: "previousHash (hd new) = hash (blocks ?c ! (length (blocks ?c) - Suc 0))"
    using next_idx(2) ne by (simp add: last_conv_nth)
  have fields: "at_string L ?e ''message'' = Inr ''chain''" "bindE (js_at L ?e ''blocks'') (blockchain_from_json L) = Inr ?t"
    using assms(1) by (simp_all add: envelope_fields envelope_at blocks_payload_def json_simps blockchain_from_json_def blocks_json.from_to)
  have nz: "index (hd new) \<noteq> 0" using front size(2) by auto
  have start: "index (last (blocks ?c)) > 0" using lback size(2) by (simp add: word_less_nat_alt)
  have first: "handleChainResponse L conn ?t n = Inr (n\<lparr>tempchain := Some ?t\<rparr>, [])"
    using nz start size(2) ne assms(6) link lback
    by (simp add: handleChainResponse_def frontE_def backE_def next_idx(1) chain_size_def)
  let ?n = "n\<lparr>tempchain := Some ?t\<rparr>"
  have ok: "node_ok L U ?n"
    using assms(4-6) pair(1) by (auto simp: node_ok_def temp_ok_def chain_ok_def)
  have "\<exists>n'. syncBlockchain L ?n = Inr (True, n') \<and> node_ok L U n' \<and> tempchain n' = None
    \<and> blocks (nodeChain n') = take (length (blocks ?c)) (blocks ?c) @ takeWhile (ValidHash L) new"
    using syncBlockchain_chain [OF assms(2,3) ok, of ?t "length (blocks ?c)"] front link size assms(9) ne
    by (auto simp: chain_size_def)
  moreover have "takeWhile (ValidHash L) new = new" using assms(7) by (simp add: takeWhile_eq_all_conv)
  ultimately show ?thesis
    using fields first pair(1) assms(6,11) by (auto simp: handleResponse_defs chain_size_def isValidChain_eq)
qed

text \<open>\<open>C3\<close>: a node that is behind catches up in one exchange. Node \<open>B\<close> has the chain of node \<open>A\<close>, of at
  least two blocks, and mined blocks behind it, and more cumulative difficulty. Asked for its summary
  \<open>B\<close> answers with a frame on which \<open>A\<close> asks for the range it lacks; \<open>B\<close> answers with exactly these
  blocks; and on this frame \<open>A\<close> takes over the chain of \<open>B\<close>, in memory and on disk. The four values
  that travel must survive printing and parsing, and \<open>A\<close> must not be mining.\<close>

theorem catch_up:
  fixes nA nB :: node
  defines "bsA \<equiv> blocks (nodeChain nA)" and "bsB \<equiv> blocks (nodeChain nB)"
  assumes "json_laws L" and "consistent U" and "\<forall>b \<in> U. storable b" and "node_ok L U nA" and "node_ok L U nB"
    and "bsB = bsA @ new" and "new \<noteq> []" and "\<forall>b \<in> set new. ValidHash L b"
    and "2 \<le> length bsA" and "length bsB < 2 ^ 64" and "tempchain nA = None" and "miningDone nA"
    and "cumDifficulty (nodeChain nA) = Inr a" and "cumDifficulty (nodeChain nB) = Inr cd" and "a < cd"
    and "serverConn connA = Some kA" and "serverConn connB = Some kB"
    and "i = index (last bsA) + 1" and "j = index (last bsB)"
    and "js_parse L (range_text [] i j) = Some (js_object L (range_payload L i j))"
    and "printable L (js_object L (summary_payload L bsB cd))"
    and "printable L (js_object L (blocks_payload L new))"
    and "printable L (envelope L (summary_payload L bsB cd) ''summary'' ''response'')"
    and "printable L (envelope L (range_payload L i j) ''chain'' ''request'')"
    and "printable L (envelope L (blocks_payload L new) ''chain'' ''response'')"
  shows "\<exists>f1 f2 f3 nA'.
      dispatchRequest L nB connB (envelope L [] ''summary'' ''request'') = Inr [(kB, f1)]
    \<and> onChainMessage L connA f1 nA = Inr (nA, [(kA, f2)])
    \<and> onChainMessage L connB f2 nB = Inr (nB, [(kB, f3)])
    \<and> onChainMessage L connA f3 nA = Inr (nA', [])
    \<and> blocks (nodeChain nA') = bsB
    \<and> dbFile (database nA') = Some (concat (map write_block bsB))"
proof -
  let ?e1 = "envelope L (summary_payload L bsB cd) ''summary'' ''response''"
  let ?e2 = "envelope L (range_payload L i j) ''chain'' ''request''"
  let ?e3 = "envelope L (blocks_payload L new) ''chain'' ''response''"
  have ne: "bsA \<noteq> []" "bsB \<noteq> []" using assms(8,9) assms(11) by auto
  have okB: "chain_ok L U bsB" using assms(7) by (simp add: node_ok_def bsB_def)
  then have idx: "indexed_blocks bsB" by (auto simp: chain_ok_def valid_blocks_indexed)
  have "valid_pair L (last bsA) (hd new)"
    using okB assms(8,9) ne(1) split_valid(2) [of L bsA new] by (simp add: chain_ok_def)
  then have i: "i = index (hd new)" using assms(20) by (simp add: valid_pair_def)
  have ui: "unat i = length bsA"
    using indexed_position [OF idx assms(12), of "length bsA"] assms(8,9) by (simp add: i nth_append hd_conv_nth)
  have uj: "unat j = length bsB - 1"
    using indexed_position [OF idx assms(12), of "length bsB - 1"] ne(2) by (simp add: assms(21) last_conv_nth)
  have "length bsA \<le> length bsA + length new - Suc 0" using assms(9) by (cases new) simp_all
  then have range: "serve_range (nodeChain nB) i j = Some new"
    using serve_range_eq [of "nodeChain nB" i j] idx assms(8,9,12) ui uj
      \<open>length bsA \<le> length bsA + length new - Suc 0\<close>
    by (simp add: chain_size_def bsB_def word_le_nat_alt)
  have hd: "hd bsB = hd bsA" using assms(8) ne(1) by simp
  have parse: "js_parse L (js_dump L e) = Some e" if "printable L e" for e
    using that by (simp add: printable_def)
  have leg1: "dispatchRequest L nB connB (envelope L [] ''summary'' ''request'') = Inr [(kB, js_dump L ?e1)]"
    using serve_summary [OF assms(3), of nB cd connB "[]"] ne(2) assms(16,19,23) by (simp add: bsB_def proxy_send_def)
  have "handle_summary L connA ?e1 nA = Inr (Some [(kA, js_dump L ?e2)])"
    using learn_summary [OF assms(3,13), of bsB a cd connA] ne(1) hd assms(15,17,18,22) assms(20,21)
    by (simp add: bsA_def proxy_send_def)
  then have leg2: "onChainMessage L connA (js_dump L ?e1) nA = Inr (nA, [(kA, js_dump L ?e2)])"
    using receive_response [OF assms(3) parse [OF assms(25)]] assms(13,14) envelope_fields(1) [OF assms(3)]
    by (simp add: handleResponse_defs syncBlockchain_def)
  have leg3: "onChainMessage L connB (js_dump L ?e2) nB = Inr (nB, [(kB, js_dump L ?e3)])"
    using receive_request [OF assms(3) parse [OF assms(26)]] serve_chain [OF assms(3) range assms(9,24)] assms(19)
    by (simp add: proxy_send_def)
  obtain nA' where "handleResponse L connA ?e3 nA = Inr (nA', [])" "node_ok L U nA'" "blocks (nodeChain nA') = bsB"
    using accept_chain [OF assms(3-6), of new connA] okB assms(8-14) by (auto simp: chain_size_def bsA_def)
  then show ?thesis
    using leg1 leg2 leg3 receive_response [OF assms(3) parse [OF assms(27)]]
    by (auto simp: node_ok_def db_holds_def)
qed

section \<open>Witness\<close>

text \<open>The library of \<open>Sync\<close> with a format that is printed and parsed.\<close>

definition wire_lib :: "json lib" where
  "wire_lib = sync_lib\<lparr>js_dump := json_text, js_parse := json_parse\<rparr>"

lemma wire_fields [simp]:
  "js_null wire_lib = JNull" "js_set wire_lib = tree_set" "js_push wire_lib = tree_push"
  "js_of_u64 wire_lib = JUnsigned" "js_of_double wire_lib = JFloat" "js_of_string wire_lib = JString"
  "js_dump wire_lib = json_text" "js_parse wire_lib = json_parse" "SHA256 wire_lib = (\<lambda>s. CHR ''h'' # take 1 s)"
  by (simp_all add: wire_lib_def sync_lib_def SHA256_def fun_eq_iff)

lemma wire_laws: "json_laws wire_lib"
proof -
  have "js_object wire_lib = js_object demo_lib" "js_array wire_lib = js_array demo_lib"
    by (simp_all add: fun_eq_iff js_object_def js_array_def)
  then show ?thesis using demo_json_laws by (simp add: json_laws_def) (simp add: wire_lib_def sync_lib_def)
qed

lemma wire_printable: "printable wire_lib j"
  by (simp add: printable_def)

text \<open>The text that the program formats.\<close>

lemma wire_parse_range [simp]:
  "json_parse (range_text [] a b) = Some (JObject [(''id1'', JUnsigned a), (''id2'', JUnsigned b)])"
proof -
  obtain m where m: "length (range_text [] a b) = Suc (Suc (Suc (Suc m)))"
    by (simp add: range_text_def quoted_def)
  have "take_value (Suc (Suc (Suc (Suc m)))) (range_text [] a b) = Some (JObject [(''id1'', JUnsigned a), (''id2'', JUnsigned b)], [])"
    by (simp add: range_text_def take_formatted del: take_value.simps)
  then show ?thesis by (simp add: json_parse_def m del: take_value.simps)
qed

lemma wire_hash: "b \<in> {blk0, blk1, blk2} \<Longrightarrow> ValidHash wire_lib b"
  by (auto simp: ValidHash_iff blk0_def blk1_def blk2_def tiny_block_def CalculateBlockHash_def
      CalculateHash_def block_hash_text_def u64_dec_def)

lemma wire_node_ok:
  assumes "bs = [blk0, blk1] \<or> bs = [blk0, blk1, blk2]"
  shows "node_ok wire_lib {blk0, blk1, blk2} (sync_node bs)"
proof -
  have "storable blk0" "storable blk1" "storable blk2" by (simp_all add: blk_storable)
  moreover have "valid_blocks wire_lib [blk0, blk1]" "valid_blocks wire_lib [blk0, blk1, blk2]"
    using wire_hash [of blk1] wire_hash [of blk2] by (simp_all add: valid_blocks_def valid_pair_def ValidHash_iff)
  ultimately show ?thesis
    using assms by (elim disjE) (simp_all add: node_ok_def chain_ok_def db_holds_def temp_ok_def)
qed

theorem catch_up_witness:
  "\<exists>f1 f2 f3 nA'.
      dispatchRequest wire_lib (sync_node [blk0, blk1, blk2]) \<lparr>serverConn = Some 2, clientConn = None\<rparr>
        (envelope wire_lib [] ''summary'' ''request'') = Inr [(2, f1)]
    \<and> onChainMessage wire_lib \<lparr>serverConn = Some 1, clientConn = None\<rparr> f1 (sync_node [blk0, blk1])
        = Inr (sync_node [blk0, blk1], [(1, f2)])
    \<and> onChainMessage wire_lib \<lparr>serverConn = Some 2, clientConn = None\<rparr> f2 (sync_node [blk0, blk1, blk2])
        = Inr (sync_node [blk0, blk1, blk2], [(2, f3)])
    \<and> onChainMessage wire_lib \<lparr>serverConn = Some 1, clientConn = None\<rparr> f3 (sync_node [blk0, blk1]) = Inr (nA', [])
    \<and> blocks (nodeChain nA') = [blk0, blk1, blk2]"
proof -
  let ?A = "sync_node [blk0, blk1]" and ?B = "sync_node [blk0, blk1, blk2]"
  have cum: "cumDifficulty (nodeChain ?A) = Inr 1" "cumDifficulty (nodeChain ?B) = Inr 2"
    by (simp_all add: cumDifficulty_eq pow2_u64_def)
  have range: "js_parse wire_lib (range_text [] 2 2) = Some (js_object wire_lib (range_payload wire_lib 2 2))"
    by (simp add: wire_parse_range range_payload_def js_object_def)
  have storable: "\<forall>b \<in> {blk0, blk1, blk2}. storable b" using blk_storable by blast
  show ?thesis
    using catch_up [OF wire_laws blk_consistent storable wire_node_ok wire_node_ok, of "[blk0, blk1]" "[blk0, blk1, blk2]" "[blk2]"
        1 2 "\<lparr>serverConn = Some 1, clientConn = None\<rparr>" 1 "\<lparr>serverConn = Some 2, clientConn = None\<rparr>" 2 2 2]
      cum range wire_printable wire_hash [of blk2]
    by fastforce
qed

end
