(* ===== verification/Wire.thy ===== *)
theory Wire
  imports Protocol
begin

text \<open>
  The frames that nodes exchange: which JSON objects they carry, what that asks of the JSON library, and
  that whatever a node does it sends such frames only.
\<close>

section \<open>What goes over the wire\<close>

text \<open>
  The JSON objects a node makes: under \<open>blocks\<close> a list of blocks, under \<open>message\<close> and \<open>message-type\<close> a
  text, elsewhere a text, a number or a block.
\<close>

definition ascii :: "string \<Rightarrow> bool" where
  "ascii s \<longleftrightarrow> (\<forall>c \<in> set s. of_char c < (128 :: nat))"

definition wire_text :: "'j lib \<Rightarrow> 'j \<Rightarrow> bool" where
  "wire_text L v \<longleftrightarrow> (\<exists>s. ascii s \<and> v = js_of_string L s)"

definition wire_field :: "'j lib \<Rightarrow> block set \<Rightarrow> string \<times> 'j \<Rightarrow> bool" where
  "wire_field L U p = (case p of (k, v) \<Rightarrow>
     if k = ''blocks'' then \<exists>bs. set bs \<subseteq> U \<and> v = blocks_to_json L bs
     else wire_text L v \<or> k \<notin> {''message'', ''message-type''} \<and> ((\<exists>w. v = js_of_u64 L w) \<or> (\<exists>b \<in> U. v = block_to_json L b)))"

definition wire_object :: "'j lib \<Rightarrow> block set \<Rightarrow> 'j \<Rightarrow> bool" where
  "wire_object L U j \<longleftrightarrow> (\<exists>kvs. j = js_object L kvs \<and> (\<forall>p \<in> set kvs. wire_field L U p))"

text \<open>The text of the first frame over a connection.\<close>

definition hello_text :: string where
  "hello_text = ''{'' @ quoted ''message'' @ '':'' @ quoted ''summary'' @ '', '' @
     quoted ''message-type'' @ '':'' @ quoted ''request'' @ ''}''"

definition range_prefix :: string where
  "range_prefix = quoted ''message'' @ '':'' @ quoted ''chain'' @ '','' "

text \<open>
  What is asked of the JSON library: such objects survive printing and parsing, and the texts that the
  program formats by itself parse to what they say.
\<close>

definition wire_ok :: "'j lib \<Rightarrow> block set \<Rightarrow> bool" where
  "wire_ok L U \<longleftrightarrow> json_laws L \<and> (\<forall>j. wire_object L U j \<longrightarrow> printable L j)
     \<and> (\<forall>a b. js_parse L (range_text [] a b) = Some (js_object L [(''id1'', js_of_u64 L a), (''id2'', js_of_u64 L b)]))
     \<and> (\<forall>a b. js_parse L (range_text range_prefix a b)
          = Some (js_object L [(''message'', js_of_string L ''chain''), (''id1'', js_of_u64 L a), (''id2'', js_of_u64 L b)]))
     \<and> js_parse L hello_text
          = Some (js_object L [(''message'', js_of_string L ''summary''), (''message-type'', js_of_string L ''request'')])"

definition wire_frame :: "'j lib \<Rightarrow> block set \<Rightarrow> string \<Rightarrow> bool" where
  "wire_frame L U f \<longleftrightarrow> (\<exists>j. js_parse L f = Some j \<and> wire_object L U j)"

definition frames_ok :: "'j lib \<Rightarrow> block set \<Rightarrow> (nat \<times> string) list \<Rightarrow> bool" where
  "frames_ok L U fs \<longleftrightarrow> (\<forall>p \<in> set fs. wire_frame L U (snd p))"

text \<open>More blocks allow more frames.\<close>

lemma wire_field_mono: "wire_field L U p \<Longrightarrow> U \<subseteq> V \<Longrightarrow> wire_field L V p"
proof -
  assume "wire_field L U p" "U \<subseteq> V"
  moreover have "set bs \<subseteq> U \<Longrightarrow> set bs \<subseteq> V" for bs using \<open>U \<subseteq> V\<close> by blast
  ultimately show "wire_field L V p"
    unfolding wire_field_def by (cases p; cases "fst p = ''blocks''") (simp, blast, simp, blast)
qed

lemma wire_object_mono: "wire_object L U j \<Longrightarrow> U \<subseteq> V \<Longrightarrow> wire_object L V j"
  unfolding wire_object_def using wire_field_mono by blast

lemma wire_ok_anti: "wire_ok L V \<Longrightarrow> U \<subseteq> V \<Longrightarrow> wire_ok L U"
  by (simp add: wire_ok_def wire_object_mono)

lemma frames_ok_simps [simp]:
  "frames_ok L U []" "frames_ok L U (p # fs) \<longleftrightarrow> wire_frame L U (snd p) \<and> frames_ok L U fs"
  by (simp_all add: frames_ok_def)

lemma wire_frame_mono: "wire_frame L U f \<Longrightarrow> U \<subseteq> V \<Longrightarrow> wire_frame L V f"
  by (auto simp: wire_frame_def intro: wire_object_mono)

lemma wire_okD: "wire_ok L U \<Longrightarrow> json_laws L \<and> (wire_object L U j \<longrightarrow> printable L j)"
  by (simp add: wire_ok_def)

text \<open>A frame that is on the wire has no blocks but those that there are.\<close>

lemma wire_frame_clean:
  assumes "json_laws L" and "wire_frame L U raw"
  shows "clean L U raw"
proof -
  obtain kvs where kvs: "js_parse L raw = Some (js_object L kvs)" "\<forall>p \<in> set kvs. wire_field L U p"
    using assms(2) by (auto simp: wire_frame_def wire_object_def)
  have "set (blocks t) \<subseteq> U" if t: "bindE (js_at L (js_object L kvs) ''blocks'') (blockchain_from_json L) = Inr t" for t
  proof -
    obtain v where v: "map_of (rev kvs) ''blocks'' = Some v" "blockchain_from_json L v = Inr t"
      using t assms(1) by (auto simp: js_at_object bindE_eq_Inr split: option.splits)
    then have "wire_field L U (''blocks'', v)" using kvs(2) map_of_SomeD [OF v(1)] by auto
    then obtain bs where "set bs \<subseteq> U" "v = blocks_to_json L bs" by (auto simp: wire_field_def)
    with v(2) assms(1) show ?thesis by (auto simp: blockchain_from_json_def blocks_json.from_to)
  qed
  with kvs(1) show ?thesis by (auto simp: clean_def)
qed

section \<open>What a node sends\<close>

named_theorems wire_intros "what is a wire object"

lemma wire_object_list [wire_intros]: "\<forall>p \<in> set kvs. wire_field L U p \<Longrightarrow> wire_object L U (js_object L kvs)"
  by (auto simp: wire_object_def)

lemma wire_object_null [wire_intros]: "wire_object L U (js_null L)"
  using wire_object_list [of "[]" L U] by (simp add: js_object_def)

lemma wire_object_set:
  assumes "wire_object L U j" and "wire_field L U (k, v)"
  shows "wire_object L U (js_set L j k v)"
proof -
  obtain kvs where "j = js_object L kvs" "\<forall>p \<in> set kvs. wire_field L U p" using assms(1) by (auto simp: wire_object_def)
  with assms(2) have "js_set L j k v = js_object L (kvs @ [(k, v)])" "\<forall>p \<in> set (kvs @ [(k, v)]). wire_field L U p"
    by (auto simp: js_object_def)
  then show ?thesis unfolding wire_object_def by blast
qed

lemma wire_field_simps [simp]:
  "ascii s \<Longrightarrow> k \<noteq> ''blocks'' \<Longrightarrow> wire_field L U (k, js_of_string L s)"
  "k \<notin> {''blocks'', ''message'', ''message-type''} \<Longrightarrow> wire_field L U (k, js_of_u64 L w)"
  "k \<notin> {''blocks'', ''message'', ''message-type''} \<Longrightarrow> b \<in> U \<Longrightarrow> wire_field L U (k, block_to_json L b)"
  "set bs \<subseteq> U \<Longrightarrow> wire_field L U (''blocks'', blocks_to_json L bs)"
  by (auto simp: wire_field_def wire_text_def)

lemma message_text_wire:
  assumes "wire_ok L U" and "ascii msg" and "ascii ty"
    and "payload \<noteq> [] \<longrightarrow> (\<exists>j. js_parse L payload = Some j \<and> wire_object L U j)"
    and "message_text L msg ty payload = Inr f"
  shows "wire_frame L U f"
proof -
  obtain j where j: "wire_object L U j"
      "f = js_dump L (js_set L (js_set L j ''message'' (js_of_string L msg)) ''message-type'' (js_of_string L ty))"
    using assms(4,5) wire_object_null by (auto simp: message_text_def bindE_eq_Inr split: if_splits option.splits)
  let ?j = "js_set L (js_set L j ''message'' (js_of_string L msg)) ''message-type'' (js_of_string L ty)"
  have "wire_object L U ?j" using assms(2,3) by (intro wire_object_set j(1)) simp_all
  then show ?thesis using wire_okD [OF assms(1), of ?j] j(2) by (auto simp: wire_frame_def printable_def)
qed

lemma sendMessage_wire:
  assumes "wire_ok L U" and "ascii msg" and "ascii ty"
    and "payload \<noteq> [] \<longrightarrow> (\<exists>j. js_parse L payload = Some j \<and> wire_object L U j)"
    and "sendMessage L c msg ty payload = Inr p"
  shows "wire_frame L U (snd p)"
  using message_text_wire [OF assms(1-4)] assms(5)
  by (auto simp: sendMessage_def proxy_send_def bindE_eq_Inr split: option.splits)

lemma ascii_texts [simp]:
  "ascii ''request''" "ascii ''response''" "ascii ''error''" "ascii ''summary''" "ascii ''chain''" "ascii ''newblock''"
  "ascii ''createtx''" "ascii ''the recieved message was malformed''" "ascii ''invalid transaction''"
  "ascii ''could not find id1 in chain''" "ascii (''invalid '' @ CHR 0x27 # ''id1'' @ CHR 0x27 # '' value'')"
  "ascii (''invalid '' @ CHR 0x27 # ''id2'' @ CHR 0x27 # '' value'')"
  by (simp_all add: ascii_def)

lemma sendRequest_wire: "wire_ok L U \<Longrightarrow> ascii m \<Longrightarrow> sendRequest L c m = Inr p \<Longrightarrow> wire_frame L U (snd p)"
  using sendMessage_wire [of L U m "''request''" "[]" c p] by (simp add: sendRequest_def)

lemma sendResponse_wire:
  "wire_ok L U \<Longrightarrow> ascii m \<Longrightarrow> wire_object L U j \<Longrightarrow> sendResponse L c m (js_dump L j) = Inr p \<Longrightarrow> wire_frame L U (snd p)"
  using sendMessage_wire [of L U m "''response''" "js_dump L j" c p] wire_okD [of L U j]
  by (auto simp: sendResponse_def printable_def)

lemma sendError_wire:
  "wire_ok L U \<Longrightarrow> ascii m \<Longrightarrow> sendError L c m = Inr p \<Longrightarrow> wire_frame L U (snd p)"
  "wire_ok L U \<Longrightarrow> ascii m \<Longrightarrow> sendErrorFmt L c m = Inr p \<Longrightarrow> wire_frame L U (snd p)"
  using sendMessage_wire [of L U m "''error''" "[]" c p] by (simp_all add: sendError_def sendErrorFmt_def)

lemma request_range_wire:
  assumes "wire_ok L U" and "prefix = [] \<or> prefix = range_prefix" and "request_range L c prefix a b = Inr fs"
  shows "frames_ok L U fs"
proof -
  let ?ids = "[(''id1'', js_of_u64 L a), (''id2'', js_of_u64 L b)]"
  have "wire_object L U (js_object L ?ids)" "wire_object L U (js_object L ((''message'', js_of_string L ''chain'') # ?ids))"
    by (intro wire_object_list; simp)+
  then have "\<exists>j. js_parse L (range_text prefix a b) = Some j \<and> wire_object L U j"
    using assms(1,2) by (auto simp: wire_ok_def)
  then show ?thesis
    using assms(3) sendMessage_wire [OF assms(1), of "''chain''" "''request''" "range_text prefix a b" c]
    by (auto simp: request_range_def sendRequestFmt_def bindE_eq_Inr)
qed

lemmas request_range_wires =
  request_range_wire [OF _ disjI1 [OF refl]] request_range_wire [OF _ disjI2 [OF refl], unfolded range_prefix_def, simplified]


subsection \<open>The replies\<close>

lemma summary_reply_wire: "set (blocks (nodeChain n)) \<subseteq> U \<Longrightarrow> summary_reply L n = Inr j \<Longrightarrow> wire_object L U j"
  by (auto simp: summary_reply_def bindE_eq_Inr frontE_def backE_def subset_iff intro!: wire_object_list wire_field_simps(4)
      split: if_splits)

lemma error_reply_wire [simp]: "ascii s \<Longrightarrow> wire_object L U (error_reply L s)"
  by (auto simp: error_reply_def intro!: wire_object_list)

lemma serve_range_subset: "serve_range c a b = Some bs \<Longrightarrow> set bs \<subseteq> set (blocks c)"
proof
  fix x assume "serve_range c a b = Some bs" "x \<in> set bs"
  then have "x \<in> set (takeWhile (\<lambda>b'. index b' \<le> b) (dropWhile (\<lambda>b. index b \<noteq> a) (blocks c)))"
    by (auto simp: serve_range_def split: list.splits)
  then show "x \<in> set (blocks c)" by (meson set_dropWhileD set_takeWhileD)
qed

lemma chain_reply_wire:
  assumes "set (blocks (nodeChain n)) \<subseteq> U" and "chain_reply L n json = Inr j"
  shows "wire_object L U j"
proof -
  have "wire_object L U (js_object L [(''blocks'', blockchain_to_json L (nodeChain n))])"
    using assms(1) by (intro wire_object_list) (simp add: blockchain_to_json_def)
  moreover have "wire_object L U (blocks_reply L bs)" if "set bs \<subseteq> set (blocks (nodeChain n))" for bs
    using that assms(1) by (auto simp: blocks_reply_def wire_object_null intro!: wire_object_list)
  ultimately show ?thesis
    using assms(2) serve_range_subset
    by (auto simp: chain_reply_def bindE_eq_Inr split: if_splits option.splits simp del: append.simps)
qed

lemma createtx_reply_wire: "createtx_reply L json = Inr j \<Longrightarrow> wire_object L U j"
  by (auto simp: createtx_reply_def bindE_eq_Inr wire_object_null split: if_splits)

lemma dispatchRequest_wire:
  assumes "wire_ok L U" and "set (blocks (nodeChain n)) \<subseteq> U" and "dispatchRequest L n conn json = Inr fs"
  shows "frames_ok L U fs"
proof -
  have respond: "frames_ok L U fs" if "bindE (sendResponse L conn m (js_dump L j)) (\<lambda>f. Inr [f]) = Inr fs"
      "wire_object L U j" "ascii m" for m j
    using that sendResponse_wire [OF assms(1)] by (auto simp: bindE_eq_Inr)
  obtain message where m: "at_string L json ''message'' = Inr message" using assms(3) by (auto simp: dispatchRequest_def bindE_eq_Inr)
  consider "message = ''summary''" | "message = ''chain''" | "message = ''newblock''" | "message = ''createtx''"
    | "message \<notin> {''summary'', ''chain'', ''newblock'', ''createtx''}" by blast
  then show ?thesis
  proof cases
    case 1
    with assms(3) m obtain j where "summary_reply L n = Inr j"
        "bindE (sendResponse L conn ''summary'' (js_dump L j)) (\<lambda>f. Inr [f]) = Inr fs"
      by (auto simp: dispatchRequest_def bindE_eq_Inr [of "summary_reply L n"])
    with respond [OF this(2)] summary_reply_wire [OF assms(2) this(1)] show ?thesis by simp
  next
    case 2
    with assms(3) m obtain j where "chain_reply L n json = Inr j"
        "bindE (sendResponse L conn ''chain'' (js_dump L j)) (\<lambda>f. Inr [f]) = Inr fs"
      by (auto simp: dispatchRequest_def bindE_eq_Inr [of "chain_reply L n json"])
    with respond [OF this(2)] chain_reply_wire [OF assms(2) this(1)] show ?thesis by simp
  next
    case 3
    with assms(3) m obtain better where "(if better then bindE (sendRequest L conn ''summary'') (\<lambda>f. Inr [f])
        else bindE (sendResponse L conn ''newblock'' (js_dump L (js_null L))) (\<lambda>f. Inr [f])) = Inr fs"
      by (auto simp: dispatchRequest_def bindE_eq_Inr [of "newblock_is_better L n json"])
    with respond [OF _ wire_object_null ascii_texts(6)] show ?thesis
      by (cases better) (auto simp: bindE_eq_Inr dest: sendRequest_wire [OF assms(1) ascii_texts(4)])
  next
    case 4
    with assms(3) m obtain j where "createtx_reply L json = Inr j"
        "bindE (sendResponse L conn ''createtx'' (js_dump L j)) (\<lambda>f. Inr [f]) = Inr fs"
      by (auto simp: dispatchRequest_def bindE_eq_Inr [of "createtx_reply L json"])
    with respond [OF this(2)] createtx_reply_wire [OF this(1)] show ?thesis by simp
  next
    case 5
    with assms(3) m show ?thesis by (simp add: dispatchRequest_def)
  qed
qed

subsection \<open>Requests that follow a response\<close>

lemma handle_summary_wire:
  assumes "wire_ok L U" and "handle_summary L conn json n = Inr (Some fs)"
  shows "frames_ok L U fs"
  using assms(2)
  by (auto simp: handle_summary_def bindE_eq_Inr Let_def split: if_splits
      dest: request_range_wires(1) [OF assms(1)] sendRequest_wire [OF assms(1) ascii_texts(5)])

lemma handleChainResponse_wire:
  assumes "wire_ok L U" and "handleChainResponse L conn t n = Inr (n', fs)"
  shows "frames_ok L U fs"
  using assms(2)
  by (auto simp: handleChainResponse_def bindE_eq_Inr Let_def split: if_splits dest: request_range_wires [OF assms(1)])


text \<open>On the wire every message type is a known one or at least a text.\<close>

lemma wire_message_type:
  assumes "json_laws L" and "wire_object L U j" and "at_string L j ''message-type'' = Inr ty"
  shows "ascii ty"
proof -
  obtain kvs where kvs: "j = js_object L kvs" "\<forall>p \<in> set kvs. wire_field L U p"
    using assms(2) by (auto simp: wire_object_def)
  then obtain v where v: "map_of (rev kvs) ''message-type'' = Some v" "js_get_string L v = Inr ty"
    using assms(1,3) by (auto simp: at_string_def js_at_object bindE_eq_Inr split: option.splits)
  then have "wire_field L U (''message-type'', v)" using kvs(2) map_of_SomeD [OF v(1)] by auto
  then have "wire_text L v" by (simp add: wire_field_def)
  with v(2) assms(1) show ?thesis by (auto simp: wire_text_def js_get_of)
qed

lemma handleResponse_part_wire:
  assumes "wire_ok L U" and "handleResponse_part L conn json n = Inr (go, n', fs)"
  shows "frames_ok L U fs"
proof -
  obtain message where m: "at_string L json ''message'' = Inr message"
    using assms(2) by (auto simp: handleResponse_part_def bindE_eq_Inr)
  consider "message = ''summary''" | "message = ''chain''" | "message \<notin> {''summary'', ''chain''}" by blast
  then show ?thesis
  proof cases
    case 1
    with assms(2) m handle_summary_wire [OF assms(1)] show ?thesis
      by (auto simp: handleResponse_part_def bindE_eq_Inr [of "handle_summary L conn json n"] split: option.splits)
  next
    case 2
    with assms(2) m obtain t ok where
      "(if ok then bindE (handleChainResponse L conn t n) (\<lambda>(n', fs). Inr (True, n', fs)) else Inr (False, n, [])) = Inr (go, n', fs)"
      by (simp add: handleResponse_part_def bindE_eq_Inr [of "bindE a b" for a b]
          bindE_eq_Inr [of "if a then b else c" for a b c]) blast
    then show ?thesis
      by (cases ok) (auto simp: bindE_eq_Inr dest: handleChainResponse_wire [OF assms(1)])
  next
    case 3
    with assms(2) m show ?thesis by (simp add: handleResponse_part_def)
  qed
qed

lemma ascii_append [simp]: "ascii (s @ t) \<longleftrightarrow> ascii s \<and> ascii t" "ascii []"
    "ascii (c # s) \<longleftrightarrow> of_char c < (128 :: nat) \<and> ascii s"
  by (auto simp: ascii_def)

lemma onChainMessage_part_wire:
  assumes "wire_ok L U" and "set (blocks (nodeChain n)) \<subseteq> U" and "wire_frame L U raw"
    and "onChainMessage_part L conn raw n = Inr (go, n', fs)"
  shows "frames_ok L U fs"
proof -
  obtain j where j: "js_parse L raw = Some j" "wire_object L U j" using assms(3) by (auto simp: wire_frame_def)
  show ?thesis
  proof (cases "\<not> js_contains L j ''message'' \<or> \<not> js_contains L j ''message-type''")
    case True
    with assms(4) j(1) show ?thesis
      by (auto simp: onChainMessage_part_def Let_def bindE_eq_Inr dest: sendError_wire(1) [OF assms(1) ascii_texts(8)])
  next
    case False
    with assms(4) j(1) obtain message ty where ty: "at_string L j ''message-type'' = Inr ty"
      and rest: "(if ty = ''request'' then bindE (dispatchRequest L n conn j) (\<lambda>fs. Inr (False, n, fs))
          else if ty = ''response'' then handleResponse_part L conn j n
          else if ty = ''error'' then Inr (False, n, [])
          else bindE (sendErrorFmt L conn (''the received message-type was unknown '' @ CHR 0x27 # ty @ [CHR 0x27]))
                 (\<lambda>f. Inr (False, n, [f]))) = Inr (go, n', fs)"
      by (auto simp: onChainMessage_part_def Let_def bindE_eq_Inr [of "at_string a b c" for a b c])
    have "ascii ty" using wire_message_type [OF _ j(2) ty] wire_okD [OF assms(1)] by simp
    then have "frames_ok L U [f]" if "sendErrorFmt L conn (''the received message-type was unknown '' @ CHR 0x27 # ty @ [CHR 0x27]) = Inr f" for f
      using that sendError_wire(2) [OF assms(1) _ that] by simp
    with rest dispatchRequest_wire [OF assms(1,2)] handleResponse_part_wire [OF assms(1)] show ?thesis
      by (auto simp: bindE_eq_Inr split: if_splits)
  qed
qed

lemma broadcastNewBlock_wire:
  assumes "wire_ok L U" and "set (blocks (nodeChain n)) \<subseteq> U" and "broadcastNewBlock L n = Inr fs"
  shows "frames_ok L U fs"
proof -
  obtain b cd where b: "blocks (nodeChain n) \<noteq> []" "b = last (blocks (nodeChain n))"
    and cast: "broadcast (js_dump L (js_object L
       [(''message'', js_of_string L ''newblock''), (''message-type'', js_of_string L ''request''),
        (''block'', block_to_json L b), (''cumdiff'', js_of_u64 L cd)])) (nodePeers n) = Inr fs" (is "broadcast (js_dump L ?j) _ = _")
    using assms(3) by (auto simp: broadcastNewBlock_def bindE_eq_Inr backE_def split: if_splits)
  have "b \<in> U" using b assms(2) by auto
  then have "wire_object L U ?j" by (intro wire_object_list) simp
  then have "wire_frame L U (js_dump L ?j)"
    using wire_okD [OF assms(1), of ?j] by (auto simp: wire_frame_def printable_def)
  moreover have "\<forall>p \<in> set fs. snd p = js_dump L ?j"
    using cast unfolding broadcast_def
    by (rule foldE_invariant [where P = "\<lambda>fs. \<forall>p \<in> set fs. snd p = js_dump L ?j"])
      (fastforce split: if_splits option.splits)+
  ultimately show ?thesis by (simp add: frames_ok_def)
qed

lemma on_open_wire:
  assumes "wire_ok L U" and "on_open p conn m = Inr (m', fs)"
  shows "frames_ok L U fs"
proof -
  have "wire_object L U (js_object L [(''message'', js_of_string L ''summary''), (''message-type'', js_of_string L ''request'')])"
    by (intro wire_object_list) simp
  then have "wire_frame L U hello_text" using assms(1) by (auto simp: wire_ok_def wire_frame_def)
  with assms(2) show ?thesis
    by (auto simp: on_open_def known_peer_def bindE_eq_Inr Let_def hello_text_def split: if_splits)
qed

text \<open>The frames a step sends.\<close>

fun frames_of :: "act \<Rightarrow> (nat \<times> string) list" where
  "frames_of (Said fs) = fs"
| "frames_of (Heard conn raw fs) = fs"
| "frames_of _ = []"

lemma node_acts_wire:
  assumes "wire_ok L U" and "set (blocks (nodeChain n)) \<subseteq> U" and "node_acts L rel n l n'"
    and "\<forall>conn raw fs. l = Heard conn raw fs \<longrightarrow> wire_frame L U raw"
  shows "frames_ok L U (frames_of l)"
  using assms(3)
proof cases
  case (announce frames)
  then show ?thesis using broadcastNewBlock_wire [OF assms(1,2)] by (auto simp: mine_announce_def bindE_eq_Inr)
next
  case (frame conn raw go m frames)
  then show ?thesis using onChainMessage_part_wire [OF assms(1,2)] assms(4) by auto
next
  case (opened p d conn m frames)
  then show ?thesis using on_open_wire [OF assms(1)] by auto
qed simp_all

end
