(* ===== verification/Network.thy ===== *)
theory Network
  imports Wire
begin

text \<open>
  Many nodes that run the program. Between them is a network that knows every frame ever sent and may
  deliver any of them to anybody, late, twice, in another order or never, but makes none up. Nodes may
  stop at any moment and start again on their files.
\<close>

section \<open>State and steps\<close>

text \<open>
  \<open>netMade\<close>: every block that a node has made, geneses and mined ones. \<open>netRaced\<close>: the nodes of which a handler
  has merged between the appending of a mined block and its writing, since they were last started.
\<close>

record network =
  netNodes :: "nat \<Rightarrow> node option"
  netSent :: "string set"
  netMade :: "block set"
  netRaced :: "nat set"

definition empty_network :: network where
  "empty_network = \<lparr>netNodes = \<lambda>i. None, netSent = {}, netMade = {}, netRaced = {}\<rparr>"

text \<open>A program that has just been constructed.\<close>

definition fresh_node :: "node \<Rightarrow> bool" where
  "fresh_node n \<longleftrightarrow> nodeChain n = empty_blockchain \<and> tempchain n = None \<and> minePc n = Resting \<and> finishing n = 0"

fun mined_of :: "act \<Rightarrow> block set" where
  "mined_of (Mined b) = {b}"
| "mined_of _ = {}"

fun heard_of :: "act \<Rightarrow> string set" where
  "heard_of (Heard conn raw fs) = {raw}"
| "heard_of _ = {}"

inductive net_step :: "'j lib \<Rightarrow> bool \<Rightarrow> network \<Rightarrow> network \<Rightarrow> bool" for L rel where
  boot: "netNodes s i = None \<Longrightarrow> fresh_node n \<Longrightarrow> dbFile (database n) = None \<Longrightarrow>
     node_start L now gendata True auto n = Some (Inr n') \<Longrightarrow>
     net_step L rel s (s\<lparr>netNodes := (netNodes s)(i \<mapsto> n'),
       netMade := insert (genesisBlock L now (rewardAddress n) (nodeUuid n) gendata) (netMade s),
       netRaced := netRaced s - {i}\<rparr>)"
| restart: "netNodes s i = Some n \<Longrightarrow> fresh_node m \<Longrightarrow> database m = database n \<Longrightarrow>
     node_start L now gendata True auto m = Some (Inr m') \<Longrightarrow>
     net_step L rel s (s\<lparr>netNodes := (netNodes s)(i \<mapsto> m'), netRaced := netRaced s - {i}\<rparr>)"
| act: "netNodes s i = Some n \<Longrightarrow> node_acts L rel n l n' \<Longrightarrow> heard_of l \<subseteq> netSent s \<Longrightarrow>
     net_step L rel s (s\<lparr>netNodes := (netNodes s)(i \<mapsto> n'), netSent := netSent s \<union> snd ` set (frames_of l),
       netMade := netMade s \<union> mined_of l, netRaced := netRaced s \<union> (if races n l then {i} else {})\<rparr>)"

inductive_cases net_stepE: "net_step L rel s s'"

inductive net_reachable :: "'j lib \<Rightarrow> bool \<Rightarrow> network \<Rightarrow> bool" for L rel where
  init: "net_reachable L rel empty_network"
| step: "net_reachable L rel s \<Longrightarrow> net_step L rel s s' \<Longrightarrow> net_reachable L rel s'"

section \<open>Where blocks come from\<close>

text \<open>A block behind another one of \<open>U\<close>, and the two kinds of blocks that nodes make.\<close>

definition linked :: "block set \<Rightarrow> block \<Rightarrow> bool" where
  "linked U b \<longleftrightarrow> (\<exists>p \<in> U. previousHash b = hash p \<and> index b = index p + 1)"

definition made_ok :: "'j lib \<Rightarrow> block set \<Rightarrow> bool" where
  "made_ok L U \<longleftrightarrow> (\<forall>b \<in> U. hash b \<noteq> [] \<and>
     (index b = 0 \<and> previousHash b = [] \<or> index b \<noteq> 0 \<and> ValidHash L b \<and> linked U b))"

definition prep_ok :: "block set \<Rightarrow> node \<Rightarrow> bool" where
  "prep_ok U n = (case minePc n of Prepared b \<Rightarrow> linked U b | Searching b \<Rightarrow> linked U b | _ \<Rightarrow> True)"

lemma linked_mono: "linked U b \<Longrightarrow> U \<subseteq> V \<Longrightarrow> linked V b"
  by (auto simp: linked_def)

lemma prep_ok_mono: "prep_ok U n \<Longrightarrow> U \<subseteq> V \<Longrightarrow> prep_ok V n"
  by (auto simp: prep_ok_def linked_mono split: mine_pc.splits)

lemma prep_ok_same: "prep_ok U n \<Longrightarrow> minePc n' = minePc n \<Longrightarrow> prep_ok U n'"
  by (simp add: prep_ok_def)

lemma file_ok_mono: "file_ok U db \<Longrightarrow> U \<subseteq> V \<Longrightarrow> file_ok V db"
  unfolding file_ok_def by (meson order_trans)

lemma node_safe_mono: "node_safe L U n \<Longrightarrow> U \<subseteq> V \<Longrightarrow> node_safe L V n"
  unfolding node_safe_def node_sound_def chain_ok_def temp_ok_def pc_from_def
  by (auto dest: file_ok_mono split: option.splits mine_pc.splits)

lemma node_inv_mono: "node_inv L U n \<Longrightarrow> U \<subseteq> V \<Longrightarrow> node_inv L V n"
  by (auto simp: node_inv_def chain_ok_def temp_ok_def pc_ok_def split: option.splits mine_pc.splits)

text \<open>A hash that names one block only names a position.\<close>

lemma made_consistent:
  assumes "made_ok L U" and "inj_on hash U"
  shows "consistent U"
  unfolding consistent_def
proof (intro ballI impI)
  fix b p assume bp: "b \<in> U" "p \<in> U" "previousHash b = hash p"
  then have "linked U b" using assms(1) unfolding made_ok_def by metis
  then obtain q where "q \<in> U" "previousHash b = hash q" "index b = index q + 1" by (auto simp: linked_def)
  moreover from this bp assms(2) have "q = p" by (auto dest: inj_onD)
  ultimately show "index b = index p + 1" by simp
qed

lemma mine_prepare_linked:
  assumes "mine_prepare L rel now n = Inr n'" and "chain_ok L U (blocks (nodeChain n))"
  shows "\<exists>b. minePc n' = Prepared b \<and> linked U b"
proof -
  let ?bs = "blocks (nodeChain n)"
  have ne: "?bs \<noteq> []" and last: "last ?bs \<in> U" using assms(2) by (auto simp: chain_ok_def)
  obtain b where b: "minePc n' = Prepared b" "index b = word_of_nat (length ?bs)" "previousHash b = hash (last ?bs)"
    using assms(1) ne
    by (auto simp: mine_prepare_def createUnminedBlock_eq bindE_eq_Inr setData_def setMiner_def chain_size_def)
  have "index (last ?bs) = word_of_nat (length ?bs - 1)"
    using assms(2) by (intro indexed_blocks_last) (auto simp: chain_ok_def valid_blocks_indexed)
  then have "index b = index (last ?bs) + 1" using b(2) ne by (simp add: of_nat_diff Suc_le_eq)
  with b last show ?thesis by (auto simp: linked_def)
qed

lemma node_acts_prep:
  assumes "node_acts L rel n l n'" and "prep_ok U n" and "chain_ok L U (blocks (nodeChain n))"
  shows "prep_ok U n'"
  using assms(1)
proof cases
  case (prepare now)
  with mine_prepare_linked [OF prepare(3) assms(3)] show ?thesis by (auto simp: prep_ok_def)
next
  case (frame conn raw go m frames)
  then have "minePc n' = minePc n" using onChainMessage_part_frame [OF frame(3)] by auto
  with assms(2) show ?thesis by (rule prep_ok_same)
next
  case (settle k m)
  then have "minePc n' = minePc n"
    using syncBlockchain_frame by (auto simp: handler_end_def bindE_eq_Inr split: if_splits)
  with assms(2) show ?thesis by (rule prep_ok_same)
qed (use assms(2) in \<open>auto simp: prep_ok_def mine_reset_def mine_search_def mine_giveup_def mine_append_def mine_write_def
      mine_merge_def mine_announce_def bindE_eq_Inr stopMining_def signalExit_def split: if_splits\<close>)

lemma node_acts_mined:
  assumes "node_acts L rel n (Mined b) n'" and "prep_ok U n"
  shows "ValidHash L b \<and> index b \<noteq> 0 \<and> linked U b"
  using assms(1)
proof cases
  case (found b0 env fuel)
  have "linked U b0" using assms(2) found(2) by (simp add: prep_ok_def)
  moreover have "mine_loop L env (minerDifficulty (nodeMiner n)) b0 (transactions_digest L (transactions b0)) fuel 0 0 (clock env 0)
      (mine_hash L (minerDifficulty (nodeMiner n)) b0 (transactions_digest L (transactions b0)) 0 (clock env 0)) = Some (MINED, b)"
    and pos: "index b0 > 0"
    using found(4) by (auto simp: mineBlock_def res_simps Let_def)
  then have "(\<exists>n t h. b = setMinedData n (minerDifficulty (nodeMiner n')) t h b0) \<and> ValidHash L b"
    using mine_loop_result [of L env _ b0 fuel 0 0 _ _ MINED b] found(1,3) by (auto simp: env_agrees_def mine_search_def)
  ultimately show ?thesis using pos by (auto simp: linked_def setMinedData_def)
qed

section \<open>The invariant of the network\<close>

definition net_inv :: "'j lib \<Rightarrow> network \<Rightarrow> bool" where
  "net_inv L s \<longleftrightarrow> made_ok L (netMade s) \<and> (\<forall>f \<in> netSent s. wire_frame L (netMade s) f)
     \<and> (\<forall>i n. netNodes s i = Some n \<longrightarrow> node_safe L (netMade s) n \<and> prep_ok (netMade s) n
         \<and> (i \<notin> netRaced s \<longrightarrow> node_inv L (netMade s) n))"

text \<open>
  What is asked of the blocks that are made in the course of a run: their hashes tell them apart,
  they fit the file format, and they survive the way over the wire.
\<close>

definition good_blocks :: "'j lib \<Rightarrow> block set \<Rightarrow> bool" where
  "good_blocks L U \<longleftrightarrow> inj_on hash U \<and> (\<forall>b \<in> U. storable b) \<and> wire_ok L U"

lemma good_blocks_anti: "good_blocks L V \<Longrightarrow> U \<subseteq> V \<Longrightarrow> good_blocks L U"
  by (auto simp: good_blocks_def inj_on_subset wire_ok_anti)

lemma genesis_made:
  assumes "\<forall>t. SHA256 L t \<noteq> []"
  shows "index (genesisBlock L now reward uuid gendata) = 0" and "previousHash (genesisBlock L now reward uuid gendata) = []"
    and "hash (genesisBlock L now reward uuid gendata) \<noteq> []"
  using assms
  by (simp_all add: genesisBlock_def setData_def setMiner_def new_block_def Let_def CalculateBlockHash_def CalculateHash_def
      default_block_def)

lemma made_ok_insert:
  assumes "made_ok L U" and "hash b \<noteq> []"
    and "index b = 0 \<and> previousHash b = [] \<or> index b \<noteq> 0 \<and> ValidHash L b \<and> linked U b"
  shows "made_ok L (insert b U)"
  using assms linked_mono [of U _ "insert b U"] unfolding made_ok_def by blast

lemma node_start_pc: "node_start L now gendata True auto n = Some (Inr n') \<Longrightarrow> minePc n' = minePc n"
  by (auto simp: node_start_def Let_def split_def bindE_eq_Inr split: if_splits)

text \<open>A node that starts on its file, whatever blocks it holds, has just these, in memory and on disk.\<close>

lemma node_restart_inv:
  assumes "file_ok U (database n)" and "fresh_node m" and "database m = database n"
    and "node_start L now gendata True auto m = Some (Inr m')"
  shows "node_inv L U m'"
proof -
  obtain fs where fs: "db_holds (database n) fs" "fs \<noteq> []" "set fs \<subseteq> U" "index (hd fs) = 0"
    using assms(1) by (auto simp: file_ok_def)
  let ?g = "genesisBlock L now (rewardAddress m) (nodeUuid m) gendata"
  have m: "nodeChain m = empty_blockchain" "database m = database n" "minePc m = Resting" "tempchain m = None"
    using assms(2,3) by (simp_all add: fresh_node_def)
  have valid: "valid_blocks L fs"
    using assms(4) db_initialize_any [OF fs(1), of L "Some ?g"]
    by (auto simp: node_start_def m Let_def split_def isValidChain_eq split: if_splits)
  then obtain db' where "db_initialize L (Some ?g) True (nodeChain m) (database m) = (db', Inr ((nodeChain m)\<lparr>blocks := fs\<rparr>))" "db_holds db' fs"
    using db.holds_load [OF fs(1), of L "nodeChain m" "Some ?g"] by (auto simp: m empty_blockchain_def)
  then have "blocks (nodeChain m') = fs" "database m' = db'" "tempchain m' = tempchain m" "minePc m' = minePc m"
    using assms(4) by (auto simp: node_start_def Let_def split: if_splits)
  with fs valid m \<open>db_holds db' fs\<close> show ?thesis
    by (simp add: node_inv_iff node_ok_def pc_ok_def temp_ok_def chain_ok_def)
qed

text \<open>Replacing one node, with new frames and new blocks.\<close>

lemma net_inv_update:
  assumes "net_inv L s" and "netNodes s' = (netNodes s)(i \<mapsto> n')" and "netSent s' = netSent s \<union> F"
    and "netMade s \<subseteq> netMade s'" and "made_ok L (netMade s')" and "\<forall>f \<in> F. wire_frame L (netMade s') f"
    and "node_safe L (netMade s') n'" and "prep_ok (netMade s') n'" and "i \<notin> netRaced s' \<longrightarrow> node_inv L (netMade s') n'"
    and "netRaced s \<subseteq> insert i (netRaced s')"
  shows "net_inv L s'"
proof -
  have "wire_frame L (netMade s') f" if "f \<in> netSent s'" for f
    using that assms(1,3,6) wire_frame_mono [of L, OF _ assms(4)] by (auto simp: net_inv_def)
  moreover have "node_safe L (netMade s') n \<and> prep_ok (netMade s') n \<and> (j \<notin> netRaced s' \<longrightarrow> node_inv L (netMade s') n)"
    if "netNodes s' j = Some n" for j n
  proof (cases "j = i")
    case True
    with that assms(2,7-9) show ?thesis by simp
  next
    case False
    with that assms(1,2) have "node_safe L (netMade s) n" "prep_ok (netMade s) n" "j \<notin> netRaced s \<longrightarrow> node_inv L (netMade s) n"
      by (auto simp: net_inv_def)
    then show ?thesis
      using node_safe_mono [of L, OF _ assms(4)] prep_ok_mono [OF _ assms(4)] node_inv_mono [of L, OF _ assms(4)] assms(10) False
      by blast
  qed
  ultimately show ?thesis using assms(5) by (simp add: net_inv_def)
qed

lemma net_step_inv:
  assumes "\<forall>t. SHA256 L t \<noteq> []" and "net_inv L s" and "net_step L rel s s'" and "good_blocks L (netMade s')"
  shows "net_inv L s'"
proof -
  have made: "made_ok L (netMade s)" and sent: "\<forall>f \<in> netSent s. wire_frame L (netMade s) f"
    and nodes: "netNodes s i = Some n \<Longrightarrow> node_safe L (netMade s) n \<and> prep_ok (netMade s) n
      \<and> (i \<notin> netRaced s \<longrightarrow> node_inv L (netMade s) n)" for i n
    using assms(2) by (auto simp: net_inv_def)
  show ?thesis
    using assms(3)
  proof cases
    case (boot i n now gendata auto n')
    let ?g = "genesisBlock L now (rewardAddress n) (nodeUuid n) gendata"
    let ?V = "insert ?g (netMade s)"
    have sub: "netMade s \<subseteq> netMade s'" using boot(1) by auto
    have "made_ok L ?V" using made genesis_made [OF assms(1)] by (intro made_ok_insert) auto
    moreover have "node_inv L ?V n'"
      using node_start_ok [OF _ boot(4) _ _ boot(5), of ?V] boot(1,3) assms(4)
      by (simp add: fresh_node_def good_blocks_def empty_blockchain_def)
    moreover have "prep_ok ?V n'" using node_start_pc [OF boot(5)] boot(3) by (simp add: fresh_node_def prep_ok_def)
    ultimately show ?thesis
      using boot(1) sub by (intro net_inv_update [OF assms(2), of s' i n' "{}"]) (auto intro: node_inv_safe)
  next
    case (restart i n m now gendata auto m')
    have "node_inv L (netMade s) m'"
      using node_restart_inv [OF _ restart(3-5)] nodes [OF restart(2)] by (simp add: node_safe_def node_sound_def)
    moreover have "prep_ok (netMade s) m'"
      using node_start_pc [OF restart(5)] restart(3) by (simp add: fresh_node_def prep_ok_def)
    ultimately show ?thesis
      using restart(1) made by (intro net_inv_update [OF assms(2), of s' i m' "{}"]) (auto intro: node_inv_safe)
  next
    case (act i n l n')
    let ?V = "netMade s \<union> mined_of l"
    have sub: "netMade s \<subseteq> ?V" by blast
    have V: "good_blocks L ?V" "netMade s' = ?V" using assms(4) act(1) by simp_all
    have n: "node_safe L ?V n" "prep_ok ?V n" "prep_ok (netMade s) n" "i \<notin> netRaced s \<longrightarrow> node_inv L ?V n"
      using nodes [OF act(2)] node_safe_mono [of L, OF _ sub] node_inv_mono [of L, OF _ sub] prep_ok_mono [OF _ sub] by blast+
    have made': "made_ok L ?V"
    proof (cases l)
      case (Mined b)
      with node_acts_mined [of L rel n b n'] act(3) n(3) have b: "ValidHash L b \<and> index b \<noteq> 0 \<and> linked (netMade s) b" by simp
      then have "hash b \<noteq> []" using assms(1) by (auto simp: ValidHash_iff CalculateBlockHash_def CalculateHash_def)
      with b Mined made show ?thesis using made_ok_insert [of L "netMade s" b] by simp
    qed (use made in simp_all)
    have laws: "json_laws L" and wire: "wire_ok L ?V" using V(1) by (auto simp: good_blocks_def wire_ok_def)
    have heard: "wire_frame L ?V raw" if "l = Heard conn raw fs" for conn raw fs
      using that act(4) sent wire_frame_mono [of L, OF _ sub] by auto
    have from_U: "act_ok L ?V l"
      using heard wire_frame_clean [OF laws] by (cases l) auto
    have store: "\<forall>b \<in> ?V. storable b" using V(1) by (simp add: good_blocks_def)
    have cons: "consistent ?V" using made_consistent [OF made'] V(1) by (simp add: good_blocks_def)
    have safe: "node_safe L ?V n'" using node_acts_safe [OF cons store act(3) from_U n(1)] by blast
    moreover have "i \<notin> netRaced s' \<longrightarrow> node_inv L ?V n'"
      using node_acts_inv [OF cons store act(3) from_U] n(4) act(1) by auto
    moreover have chain: "chain_ok L ?V (blocks (nodeChain n))" using n(1) by (simp add: node_safe_def node_sound_def)
    then have "prep_ok ?V n'" by (rule node_acts_prep [OF act(3) n(2)])
    moreover have "frames_ok L ?V (frames_of l)"
      using node_acts_wire [OF wire _ act(3)] chain heard by (auto simp: chain_ok_def)
    then have "\<forall>f \<in> snd ` set (frames_of l). wire_frame L ?V f" by (auto simp: frames_ok_def)
    ultimately show ?thesis
      using act(1) made' sub by (intro net_inv_update [OF assms(2), of s' i n' "snd ` set (frames_of l)"]) auto
  qed
qed

lemma net_step_made: "net_step L rel s s' \<Longrightarrow> netMade s \<subseteq> netMade s'"
  by (erule net_step.cases) auto

lemma net_reachable_inv:
  assumes "\<forall>t. SHA256 L t \<noteq> []" and "net_reachable L rel s" and "good_blocks L (netMade s)"
  shows "net_inv L s"
  using assms(2,3)
proof induction
  case init
  then show ?case by (simp add: net_inv_def empty_network_def made_ok_def)
next
  case (step s s')
  have "net_inv L s" by (rule step.IH [OF good_blocks_anti [OF step.prems net_step_made [OF step.hyps(2)]]])
  then show ?case using step.hyps(2) step.prems by (rule net_step_inv [OF assms(1)])
qed

lemma net_node:
  assumes "\<forall>t. SHA256 L t \<noteq> []" and "net_reachable L rel s" and "good_blocks L (netMade s)" and "netNodes s i = Some n"
  shows "made_ok L (netMade s)" and "node_safe L (netMade s) n" and "chain_ok L (netMade s) (blocks (nodeChain n))"
    and "i \<notin> netRaced s \<Longrightarrow> node_inv L (netMade s) n"
proof -
  have "net_inv L s" by (rule net_reachable_inv [OF assms(1-3)])
  then show "made_ok L (netMade s)" "node_safe L (netMade s) n" "i \<notin> netRaced s \<Longrightarrow> node_inv L (netMade s) n"
    using assms(4) by (simp_all add: net_inv_def)
  then show "chain_ok L (netMade s) (blocks (nodeChain n))" by (simp add: node_safe_def node_sound_def)
qed

section \<open>What the network guarantees\<close>

text \<open>Where the invariant holds, a block behind the first one was mined behind the block before it.\<close>

lemma chain_block_mined:
  assumes "made_ok L U" and "chain_ok L U (xs @ p # b # ys)"
  shows "previousHash b = hash p" and "index b \<noteq> 0" and "ValidHash L b"
proof -
  have link: "previousHash b = hash p" and U: "b \<in> U" "p \<in> U"
    using assms(2) by (auto simp: chain_ok_def valid_blocks_def successively_append_iff valid_pair_def)
  moreover have "hash p \<noteq> []" using assms(1) U by (auto simp: made_ok_def)
  ultimately have "index b \<noteq> 0 \<and> ValidHash L b" using assms(1) unfolding made_ok_def by metis
  then show "previousHash b = hash p" "index b \<noteq> 0" "ValidHash L b" using link by simp_all
qed

lemma chain_tail_mined:
  assumes "made_ok L U" and "chain_ok L U bs" and "b \<in> set (tl bs)"
  shows "ValidHash L b"
proof -
  obtain xs ys where tl: "tl bs = xs @ b # ys" using assms(3) by (meson split_list)
  then have bs: "bs = hd bs # xs @ b # ys" using assms(3) by (cases bs) auto
  show ?thesis
  proof (cases xs rule: rev_cases)
    case Nil
    with bs chain_block_mined(3) [OF assms(1), of "[]" "hd bs" b ys] assms(2) show ?thesis by simp
  next
    case (snoc zs p)
    with bs chain_block_mined(3) [OF assms(1), of "hd bs # zs" p b ys] assms(2) show ?thesis by simp
  qed
qed

text \<open>Two chains that share a block share everything before it.\<close>

lemma shared_prefix:
  assumes "made_ok L U" and "inj_on hash U" and "chain_ok L U (xs @ b # ys)" and "chain_ok L U (xs' @ b # ys')"
  shows "xs = xs'"
  using assms(3,4)
proof (induction xs arbitrary: xs' b ys ys' rule: rev_induct)
  case Nil
  show ?case
  proof (cases xs' rule: rev_cases)
    case (snoc zs p)
    have "index b = 0" using Nil.prems(1) by (simp add: chain_ok_def)
    moreover have "index b \<noteq> 0" using chain_block_mined(2) [OF assms(1), of zs p b ys'] Nil.prems(2) snoc by simp
    ultimately show ?thesis by simp
  qed simp
next
  case (snoc p xs)
  have first: "chain_ok L U (xs @ p # b # ys)" using snoc.prems(1) by simp
  note b = chain_block_mined [OF assms(1) first]
  show ?case
  proof (cases xs' rule: rev_cases)
    case Nil
    then have "index b = 0" using snoc.prems(2) by (simp add: chain_ok_def)
    with b(2) show ?thesis by simp
  next
    case (snoc zs q)
    then have second: "chain_ok L U (zs @ q # b # ys')" using snoc.prems(2) by simp
    have "hash p = hash q" using b(1) chain_block_mined(1) [OF assms(1) second] by simp
    moreover have "p \<in> U" "q \<in> U" using first second by (auto simp: chain_ok_def)
    ultimately have "p = q" using assms(2) by (auto dest: inj_onD)
    with snoc.IH [OF first] second show ?thesis using snoc by simp
  qed
qed



section \<open>Witness\<close>

text \<open>A digest of two characters: a zero, and the first one of the text.\<close>

definition net_lib :: "json lib" where
  "net_lib = wire_lib\<lparr>sha256_digest := \<lambda>s. CHR ''0'' # take 1 s\<rparr>"

lemma net_fields [simp]:
  "js_null net_lib = JNull" "js_set net_lib = tree_set" "js_push net_lib = tree_push"
  "js_of_u64 net_lib = JUnsigned" "js_of_double net_lib = JFloat" "js_of_string net_lib = JString"
  "js_dump net_lib = json_text" "js_parse net_lib = json_parse" "SHA256 net_lib = (\<lambda>s. CHR ''0'' # take 1 s)"
  by (simp_all add: net_lib_def wire_lib_def sync_lib_def SHA256_def fun_eq_iff)

lemma net_laws: "json_laws net_lib"
proof -
  have "js_object net_lib = js_object wire_lib" "js_array net_lib = js_array wire_lib"
    by (simp_all add: fun_eq_iff js_object_def js_array_def)
  then show ?thesis using wire_laws by (simp add: json_laws_def) (simp add: net_lib_def)
qed

lemma parse_range_prefix:
  "json_parse (range_text range_prefix a b)
     = Some (JObject [(''message'', JString ''chain''), (''id1'', JUnsigned a), (''id2'', JUnsigned b)])" (is "_ = Some ?j")
proof -
  obtain m where m: "length (range_text range_prefix a b) = Suc (Suc (Suc (Suc (Suc m))))"
    by (simp add: range_text_def range_prefix_def quoted_def)
  have "take_value (Suc (Suc (Suc (Suc (Suc m))))) (range_text range_prefix a b) = Some (?j, [])"
    by (simp add: range_text_def range_prefix_def take_formatted del: take_value.simps)
  then show ?thesis by (simp add: json_parse_def m del: take_value.simps)
qed

lemma parse_hello:
  "json_parse hello_text = Some (JObject [(''message'', JString ''summary''), (''message-type'', JString ''request'')])"
  by (simp add: json_parse_def hello_text_def take_formatted numeral_eq_Suc)

lemma net_wire_ok: "wire_ok net_lib U"
  using net_laws
  by (simp add: wire_ok_def printable_def js_object_def parse_range_prefix parse_hello)

text \<open>A genesis block and the block mined behind it.\<close>

definition net_genesis :: block where
  "net_genesis = genesisBlock net_lib 0 ''alice'' ''node'' []"

definition net_block :: block where
  "net_block = setData (''coinbase block #'' @ u64_dec 1) (setMiner ''node''
     (new_block net_lib 0 1 (hash net_genesis) [CreateCoinbaseTransaction net_lib 1 ''alice'']))"

definition net_mined :: block where
  "net_mined = setMinedData 0 1 0 (mine_hash net_lib 1 net_block (transactions_digest net_lib (transactions net_block)) 0 0) net_block"

lemma net_block_simps [simp]:
  "index net_genesis = 0" "hash net_genesis = ''00''" "previousHash net_genesis = []" "difficulty net_genesis = 1"
  "index net_block = 1" "previousHash net_block = ''00''" "index net_mined = 1" "previousHash net_mined = ''00''"
  "hash net_mined = ''01''"
  by (simp_all add: net_genesis_def net_block_def net_mined_def genesisBlock_def setData_def setMiner_def setMinedData_def
      new_block_def Let_def CalculateBlockHash_def CalculateHash_def mine_hash_def block_hash_text_def u64_dec_def default_block_def)

lemma net_storable: "storable net_genesis" "storable net_mined"
  by (simp_all add: net_genesis_def net_block_def net_mined_def genesisBlock_def setData_def setMiner_def setMinedData_def
      new_block_def Let_def storable_def ok_block_def ok_header_def short_def ok_tx_def ok_tx_in_def ok_tx_out_def
      CreateCoinbaseTransaction_def stored_block_def stored_tx_def stored_tx_in_def stored_point_def make_tx_in_def make_point_def
      CalculateBlockHash_def CalculateHash_def mine_hash_def GetTransactionId_def calcuateId_def default_block_def
      block_hash_text_def u64_dec_def min_less_iff_disj)

lemma net_good: "good_blocks net_lib {net_genesis, net_mined}"
  using net_storable net_wire_ok by (auto simp: good_blocks_def)

definition net_fresh :: node where
  "net_fresh = (sync_node [])\<lparr>database := tiny_db, miningDone := False\<rparr>"

definition net_started :: node where
  "net_started = net_fresh\<lparr>nodeChain := empty_blockchain\<lparr>blocks := [net_genesis]\<rparr>,
     database := tiny_db\<lparr>dbFile := Some (write_block net_genesis), dbIndexOpen := True\<rparr>, mineThread := True\<rparr>"

lemma net_start: "node_start net_lib 0 [] True True net_fresh = Some (Inr net_started)"
proof -
  have "genesisBlock net_lib 0 ''alice'' ''node'' [] = net_genesis" by (simp add: net_genesis_def)
  then show ?thesis
    using db_initialize_fresh [of tiny_db net_genesis net_lib] net_storable(1)
    by (simp add: node_start_def net_fresh_def net_started_def storable_def tiny_db_def empty_blockchain_def)
qed

text \<open>The round of the mining thread, up to the new block in the chain.\<close>

abbreviation net_at :: "mine_pc \<Rightarrow> node" where
  "net_at pc \<equiv> net_started\<lparr>nodeMiner := setDifficulty 1 (new_miner 0), minePc := pc\<rparr>"

abbreviation one_node :: "node \<Rightarrow> block set \<Rightarrow> network" where
  "one_node n M \<equiv> \<lparr>netNodes = (\<lambda>i. None)(0 \<mapsto> n), netSent = {}, netMade = M, netRaced = {}\<rparr>"

lemma one_node_act:
  assumes "net_reachable net_lib True (one_node n M)" and "node_acts net_lib True n l n'" and "l = Quiet \<or> l = Mined b"
  shows "net_reachable net_lib True (one_node n' (M \<union> mined_of l))"
  using net_step.act [of "one_node n M" 0 n net_lib True l n'] assms by (auto intro: net_reachable.step)

lemma net_prepare: "mine_prepare net_lib True 0 (net_started\<lparr>minePc := Checked\<rparr>) = Inr (net_at (Prepared net_block))"
proof -
  have "getAdjustedDifficulty True (empty_blockchain\<lparr>blocks := [net_genesis]\<rparr>) = Inr 1"
    by (simp add: getAdjustedDifficulty_def BLOCK_INTERVAL_def backE_def chain_size_def word_mod_def)
  then show ?thesis
    by (simp add: mine_prepare_def createUnminedBlock_eq net_started_def net_fresh_def net_block_def chain_size_def
        sync_node_def empty_blockchain_def)
qed

lemma net_search:
  "mineBlock net_lib quiet_env 1 (setDifficulty 1 (new_miner 0)) net_block = Inr (Some (MINED, net_mined))"
  by (simp add: mineBlock_def Let_def setDifficulty_def quiet_env_def net_mined_def mine_hash_def CalculateHash_def hash_has_zeros_def)

lemma net_append:
  "mine_append net_lib net_mined (net_at (Found net_mined))
     = Inr ((net_at (Appended net_mined))\<lparr>nodeChain := empty_blockchain\<lparr>blocks := [net_genesis, net_mined]\<rparr>\<rparr>)"
proof -
  have "ValidHash net_lib net_mined"
    by (simp add: ValidHash_iff net_mined_def setMinedData_def mine_hash_def CalculateBlockHash_def CalculateHash_def hash_has_zeros_def)
  then show ?thesis
    by (simp add: mine_append_def addNewBlock_eq net_started_def empty_blockchain_def)
qed

lemma net_example:
  "\<exists>s n m. net_reachable net_lib True s \<and> netMade s = {net_genesis, net_mined} \<and> netNodes s 0 = Some n \<and> netNodes s 1 = Some m
     \<and> blocks (nodeChain n) = [net_genesis, net_mined] \<and> blocks (nodeChain m) = [net_genesis]"
proof -
  let ?n = "(net_at (Appended net_mined))\<lparr>nodeChain := empty_blockchain\<lparr>blocks := [net_genesis, net_mined]\<rparr>\<rparr>"
  let ?M = "{net_genesis, net_mined}"
  have fresh: "fresh_node net_fresh" "dbFile (database net_fresh) = None"
      "genesisBlock net_lib 0 (rewardAddress net_fresh) (nodeUuid net_fresh) [] = net_genesis"
    by (simp_all add: fresh_node_def net_fresh_def sync_node_def tiny_db_def net_genesis_def empty_blockchain_def)
  have keep: "keepTrying (nodeMiner (net_at pc))" for pc by (simp add: setDifficulty_def new_miner_def)
  have "net_step net_lib True empty_network (one_node net_started {net_genesis})"
    using net_step.boot [of empty_network 0 net_fresh net_lib 0 "[]" True net_started] fresh net_start
    by (simp add: empty_network_def)
  then have "net_reachable net_lib True (one_node net_started {net_genesis})"
    using net_reachable.init net_reachable.step by blast
  then have "net_reachable net_lib True (one_node (net_started\<lparr>minePc := Checked\<rparr>) {net_genesis})"
    using one_node_act [OF _ node_acts.enter] by (fastforce simp: net_started_def net_fresh_def sync_node_def)
  then have "net_reachable net_lib True (one_node (net_at (Prepared net_block)) {net_genesis})"
    using one_node_act [OF _ node_acts.prepare [OF _ net_prepare]] by fastforce
  moreover have "mine_reset net_block (net_at (Prepared net_block)) = net_at (Searching net_block)"
    by (simp add: mine_reset_def setDifficulty_def new_miner_def)
  ultimately have "net_reachable net_lib True (one_node (net_at (Searching net_block)) {net_genesis})"
    using one_node_act [OF _ node_acts.reset, of "net_at (Prepared net_block)" "{net_genesis}" net_block] by simp
  moreover have "node_acts net_lib True (net_at (Searching net_block)) (Mined net_mined) (net_at (Found net_mined))"
    using node_acts.found [of "net_at (Searching net_block)" net_block quiet_env net_lib 1 net_mined True] net_search
    by (simp add: mine_search_def env_agrees_def)
  ultimately have "net_reachable net_lib True (one_node (net_at (Found net_mined)) ?M)"
    using one_node_act [of "net_at (Searching net_block)" "{net_genesis}" "Mined net_mined" _ net_mined] by (simp add: insert_commute)
  then have "net_reachable net_lib True (one_node ?n ?M)"
    using one_node_act [OF _ node_acts.append [OF _ net_append]] by fastforce
  moreover have "net_step net_lib True (one_node ?n ?M) \<lparr>netNodes = [0 \<mapsto> ?n, 1 \<mapsto> net_started], netSent = {}, netMade = ?M, netRaced = {}\<rparr>"
    using net_step.boot [of "one_node ?n ?M" 1 net_fresh net_lib 0 "[]" True net_started] fresh net_start by simp
  ultimately have "net_reachable net_lib True \<lparr>netNodes = [0 \<mapsto> ?n, 1 \<mapsto> net_started], netSent = {}, netMade = ?M, netRaced = {}\<rparr>"
    by (rule net_reachable.step)
  then show ?thesis by (intro exI conjI) (auto simp: net_started_def)
qed



end
