(* ===== verification/Integrity.thy ===== *)
theory Integrity
  imports Chain
begin

text \<open>
  What the hashes of \<open>Block.cpp\<close> and \<open>Transactions.cpp\<close> protect and what they do not, the JSON form of
  a chain, and the result codes.
\<close>

section \<open>What a chain of hashes fixes\<close>

text \<open>Every text that is hashed for a block of a list.\<close>

definition block_text :: "'j lib \<Rightarrow> block \<Rightarrow> string" where
  "block_text L b = block_hash_text (index b) (nonce b) (difficulty b) (blockTime b) (blockData b) (previousHash b)
     (transactions_digest L (transactions b))"

definition transactions_text :: "'j lib \<Rightarrow> block \<Rightarrow> string" where
  "transactions_text L b = js_dump L (transactions_to_json L (transactions b))"

definition hashed_texts :: "'j lib \<Rightarrow> block list \<Rightarrow> string set" where
  "hashed_texts L bs = block_text L ` set bs \<union> transactions_text L ` set bs"

lemma CalculateBlockHash_text: "CalculateBlockHash L b = SHA256 L (block_text L b)"
  by (simp add: CalculateBlockHash_def CalculateHash_def block_text_def)

lemma transactions_digest_text: "transactions_digest L (transactions b) = SHA256 L (transactions_text L b)"
  by (simp add: transactions_digest_def transactions_text_def)

text \<open>The previous hash and the digest of the transactions are the end of the text, at fixed length.\<close>

lemma block_text_split:
  "block_text L b = ((u64_dec (index b) @ u64_dec (nonce b) @ u64_dec (difficulty b) @ blockData b @ i64_dec (blockTime b))
     @ previousHash b) @ SHA256 L (transactions_text L b)"
  by (simp add: block_text_def block_hash_text_def transactions_digest_text)

lemma block_text_parts:
  assumes "block_text L b = block_text L c" and "\<forall>s. length (SHA256 L s) = 64"
    and "length (previousHash b) = length (previousHash c)"
  shows "previousHash b = previousHash c" and "SHA256 L (transactions_text L b) = SHA256 L (transactions_text L c)"
proof -
  have cut: "x = y \<and> d = e" if "x @ d = y @ e" "length d = length e" for x y d e :: string
    using that by simp
  note outer = cut [OF assms(1) [unfolded block_text_split]]
  show "SHA256 L (transactions_text L b) = SHA256 L (transactions_text L c)" using outer assms(2) by simp
  from outer have "(u64_dec (index b) @ u64_dec (nonce b) @ u64_dec (difficulty b) @ blockData b @ i64_dec (blockTime b))
       @ previousHash b
     = (u64_dec (index c) @ u64_dec (nonce c) @ u64_dec (difficulty c) @ blockData c @ i64_dec (blockTime c))
       @ previousHash c" using assms(2) by simp
  from cut [OF this assms(3)] show "previousHash b = previousHash c" by blast
qed

lemma same_hash_same_block:
  assumes "inj_on (SHA256 L) T" and "\<forall>s. length (SHA256 L s) = 64"
    and "{block_text L b, block_text L c, transactions_text L b, transactions_text L c} \<subseteq> T"
    and "CalculateBlockHash L b = CalculateBlockHash L c" and "length (previousHash b) = length (previousHash c)"
  shows "previousHash b = previousHash c" and "transactions_text L b = transactions_text L c"
proof -
  have "block_text L b = block_text L c"
    using assms(1,3,4) by (auto simp: CalculateBlockHash_text dest: inj_onD)
  note parts = block_text_parts [OF this assms(2,5)]
  show "previousHash b = previousHash c" by (rule parts)
  show "transactions_text L b = transactions_text L c"
    using parts(2) assms(1,3) by (auto dest: inj_onD)
qed

lemma tampering_step:
  assumes "inj_on (SHA256 L) T" and "\<forall>s. length (SHA256 L s) = 64"
    and "length bs = length cs" and "valid_blocks L bs" and "valid_blocks L cs"
    and "hashed_texts L bs \<subseteq> T" and "hashed_texts L cs \<subseteq> T" and "bs \<noteq> []"
    and "length (hash (hd bs)) = length (hash (hd cs))" and "hash (last bs) = hash (last cs)"
  shows "\<forall>i < length bs. hash (bs ! i) = hash (cs ! i)
    \<and> (0 < i \<longrightarrow> transactions_text L (bs ! i) = transactions_text L (cs ! i))"
  using assms(3-10)
proof (induction bs arbitrary: cs rule: rev_induct)
  case Nil
  then show ?case by simp
next
  case (snoc b bs)
  then obtain cs' c where cs: "cs = cs' @ [c]" by (cases cs rule: rev_cases) auto
  show ?case
  proof (cases "bs = []")
    case True
    with snoc.prems cs show ?thesis by simp
  next
    case False
    then have ne: "cs' \<noteq> []" and len: "length cs' = length bs" using snoc.prems(1) cs by auto
    have pb: "valid_pair L (last bs) b" "valid_blocks L bs" and pc: "valid_pair L (last cs') c" "valid_blocks L cs'"
      using snoc.prems(2,3) False ne by (simp_all add: cs valid_blocks_snoc)
    have l: "length (hash (last ds)) = 64" if long: "valid_blocks L ds" "ds \<noteq> []" "length ds \<noteq> 1" for ds
    proof -
      obtain es e where ds: "ds = es @ [e]" using long(2) by (metis append_butlast_last_id)
      with long(1,3) have "hash e = SHA256 L (block_text L e)"
        by (simp add: valid_blocks_snoc valid_pair_def CalculateBlockHash_text)
      with assms(2) ds show ?thesis by simp
    qed
    have "length (previousHash b) = length (previousHash c)"
    proof (cases "length bs = 1")
      case True
      with len obtain x y where "bs = [x]" "cs' = [y]" by (metis length_0_conv length_Suc_conv One_nat_def)
      with pb pc snoc.prems(7) show ?thesis by (simp add: valid_pair_def cs)
    next
      case False
      with pb pc l [of bs] l [of cs'] \<open>bs \<noteq> []\<close> ne len show ?thesis by (simp add: valid_pair_def)
    qed
    moreover have "CalculateBlockHash L b = CalculateBlockHash L c"
      using pb(1) pc(1) snoc.prems(8) by (simp add: valid_pair_def cs)
    moreover have "{block_text L b, block_text L c, transactions_text L b, transactions_text L c} \<subseteq> T"
      using snoc.prems(4,5) by (simp add: cs hashed_texts_def)
    ultimately have "previousHash b = previousHash c" "transactions_text L b = transactions_text L c"
      using same_hash_same_block [OF assms(1,2)] by blast+
    moreover have "hash (last bs) = hash (last cs')"
      using pb(1) pc(1) \<open>previousHash b = previousHash c\<close> by (simp add: valid_pair_def)
    ultimately show ?thesis
      using snoc.IH [of cs'] len pb(2) pc(2) snoc.prems(4,5,7,8) False ne
      by (auto simp: cs hashed_texts_def nth_append less_Suc_eq)
  qed
qed

text \<open>\<open>C16\<close>: tampering shows. Two valid chains of the same length whose last blocks have the same hash, and
  whose first blocks have hashes of the same length, have the same hash at every block and, behind the first, the
  same transactions in every block. This needs a digest of 64 characters that does not collide on the texts at
  hand, and transactions that survive printing. (Nonce, difficulty, data and time may still differ; and
  nothing checks the hash of the first block, so without the premise on its length digits could move into it: see
  \<open>first_hash_forged\<close>.)\<close>

theorem tampering_shows:
  assumes "isValidChain L c = Inr True" and "isValidChain L c' = Inr True" and "chain_size c = chain_size c'"
    and "blocks c \<noteq> []" and "hash (last (blocks c)) = hash (last (blocks c'))"
    and "length (hash (hd (blocks c))) = length (hash (hd (blocks c')))"
    and "\<forall>s. length (SHA256 L s) = 64" and "inj_on (SHA256 L) (hashed_texts L (blocks c) \<union> hashed_texts L (blocks c'))"
    and "json_laws L" and "\<forall>b \<in> set (blocks c) \<union> set (blocks c'). printable L (transactions_to_json L (transactions b))"
    and "i < chain_size c"
  shows "hash (blocks c ! i) = hash (blocks c' ! i)
    \<and> (0 < i \<longrightarrow> transactions (blocks c ! i) = transactions (blocks c' ! i))"
proof -
  have same: "\<forall>i < length (blocks c). hash (blocks c ! i) = hash (blocks c' ! i)
    \<and> (0 < i \<longrightarrow> transactions_text L (blocks c ! i) = transactions_text L (blocks c' ! i))"
    using assms(1-6) by (intro tampering_step [OF assms(8,7)]) (auto simp: isValidChain_eq chain_size_def)
  have "transactions x = transactions y"
    if "transactions_text L x = transactions_text L y" "x \<in> set (blocks c)" "y \<in> set (blocks c')" for x y
  proof -
    have "transactions_to_json L (transactions x) = transactions_to_json L (transactions y)"
      using that assms(10) by (metis UnCI option.inject printable_def transactions_text_def)
    then show ?thesis using transactions_json.to_json_inject [OF assms(9)] by blast
  qed
  with same assms(3,11) show ?thesis by (simp add: chain_size_def)
qed

section \<open>What it leaves open\<close>

lemma hash_has_zeros_less: "hash_has_zeros d h \<Longrightarrow> unat d' \<le> unat d \<Longrightarrow> hash_has_zeros d' h"
  by (simp add: hash_has_zeros_iff)

text \<open>The hash of the first block is checked by nobody. If it gets the last digit of the time of the second block in
  front, and the second block loses this digit and names the new hash, nothing else changes: the chain is
  valid still, with the same hashes behind the first block.\<close>

theorem first_hash_forged:
  assumes "isValidChain L (c\<lparr>blocks := g # b # bs\<rparr>) = Inr True" and "i64_dec (blockTime b) = i64_dec t @ [d]"
  shows "isValidChain L (c\<lparr>blocks := g\<lparr>hash := d # hash g\<rparr> # b\<lparr>blockTime := t, previousHash := d # hash g\<rparr> # bs\<rparr>) = Inr True"
proof -
  have "previousHash b = hash g" using assms(1) by (simp add: isValidChain_eq valid_blocks_def valid_pair_def)
  then have "block_text L (b\<lparr>blockTime := t, previousHash := d # hash g\<rparr>) = block_text L b"
    using assms(2) by (simp add: block_text_def block_hash_text_def)
  with assms(1) show ?thesis
    by (cases bs) (simp_all add: isValidChain_eq valid_blocks_def valid_pair_def CalculateBlockHash_text)
qed

text \<open>Nonce and difficulty are hashed as one run of digits. Whoever moves digits from the
  difficulty to the nonce, or between any two fields that print the same, gets another valid block with
  the same hash and a lower difficulty, without any search.\<close>

theorem difficulty_malleable:
  assumes "ValidHash L b" and "u64_dec (nonce b) @ u64_dec (difficulty b) = u64_dec n @ u64_dec d"
    and "unat d \<le> unat (difficulty b)"
  shows "ValidHash L (b\<lparr>nonce := n, difficulty := d\<rparr>)
    \<and> CalculateBlockHash L (b\<lparr>nonce := n, difficulty := d\<rparr>) = CalculateBlockHash L b"
proof -
  have "block_text L (b\<lparr>nonce := n, difficulty := d\<rparr>) = block_text L b"
    using assms(2) by (simp add: block_text_def block_hash_text_def)
  then show ?thesis
    using assms(1,3) hash_has_zeros_less by (auto simp: ValidHash_iff CalculateBlockHash_text)
qed

text \<open>The id of a transaction is that of the texts of its parts in a row: two transactions for
  the same block that differ only in how a receiver's digits and amounts are cut have the same id.\<close>

theorem transaction_id_ambiguous:
  assumes "address x @ dbl_str (amount x) = address y @ dbl_str (amount y)"
  shows "txId (calcuateId L i \<lparr>txId = t, txIns = ins, txOuts = as @ x # bs\<rparr>)
       = txId (calcuateId L i \<lparr>txId = t, txIns = ins, txOuts = as @ y # bs\<rparr>)"
proof -
  have "tx_out_id_text x = tx_out_id_text y" using assms by (simp add: tx_out_id_text_def)
  then show ?thesis by (simp add: calcuateId_def GetTransactionId_def tx_id_text_def)
qed

section \<open>JSON and result codes\<close>

text \<open>\<open>C39\<close>: a chain sent as JSON and read back has the same blocks, field by field; the queue and the
  list of unspent outputs are not part of it. Different chains have different JSON.\<close>

theorem blockchain_json_roundtrip:
  assumes "json_laws L"
  shows "blockchain_from_json L (blockchain_to_json L c) = Inr (empty_blockchain\<lparr>blocks := blocks c\<rparr>)
    \<and> (blockchain_to_json L c = blockchain_to_json L c' \<longleftrightarrow> blocks c = blocks c')"
  using blocks_json.from_to [OF assms] blocks_json.to_json_inject [OF assms]
  by (simp add: blockchain_from_json_def blockchain_to_json_def)

text \<open>The text of a result code reads back as the code for two of the four codes only: the text of
  \<open>INSUFFICIENT_FUNDS\<close> is not one the reader knows, and \<open>NOOP_TRANSACTION\<close> has no text.\<close>

theorem tx_result_roundtrip:
  "bindE (tx_result_to_string r) tx_result_from_string = Inr r \<longleftrightarrow> r = SUCCESS \<or> r = TXOUTS_EMPTY"
  by (cases r) (simp_all add: tx_result_from_string_def)

section \<open>Witnesses\<close>

text \<open>A digest of 64 times the first character, and two blocks without transactions.\<close>

definition long_lib :: "json lib" where
  "long_lib = demo_lib\<lparr>sha256_digest := \<lambda>s. replicate 64 (hd s), js_parse := \<lambda>s. if s = ''null'' then Some JNull else None\<rparr>"

definition long_first :: block where "long_first = default_block\<lparr>hash := replicate 64 (CHR ''a'')\<rparr>"

definition long_second :: block where
  "long_second = default_block\<lparr>index := 1, previousHash := replicate 64 (CHR ''a''), hash := replicate 64 (CHR ''1'')\<rparr>"

lemma long_fields [simp]:
  "transactions long_first = []" "transactions long_second = []" "transactions (setMiner m long_second) = []"
  "hash long_first = replicate 64 (CHR ''a'')" "hash long_second = replicate 64 (CHR ''1'')"
  "index long_first = 0" "index long_second = 1" "previousHash long_second = replicate 64 (CHR ''a'')"
  "SHA256 long_lib s = replicate 64 (hd s)" "js_parse long_lib ''null'' = Some JNull" "js_dump long_lib JNull = ''null''"
  by (simp_all add: long_first_def long_second_def default_block_def setMiner_def long_lib_def SHA256_def)

lemma long_null [simp]: "transactions_to_json long_lib [] = JNull"
  by (simp add: transactions_to_json_def to_json_array_def js_array_def long_lib_def)

lemma long_heads [simp]: "hd (block_text long_lib long_first) = CHR ''0''" "hd (block_text long_lib long_second) = CHR ''1''"
  by (simp_all add: block_text_def block_hash_text_def u64_dec_def)

lemma long_second_miner [simp]:
  "block_text long_lib (setMiner m b) = block_text long_lib b" "index (setMiner m b) = index b"
  "previousHash (setMiner m b) = previousHash b" "hash (setMiner m b) = hash b"
  by (simp_all add: block_text_def setMiner_def)

theorem tampering_shows_witness:
  "transactions (blocks (empty_blockchain\<lparr>blocks := [long_first, setMiner ''mallory'' long_second]\<rparr>) ! 1) = []"
proof -
  let ?c = "empty_blockchain\<lparr>blocks := [long_first, long_second]\<rparr>"
  let ?d = "empty_blockchain\<lparr>blocks := [long_first, setMiner ''mallory'' long_second]\<rparr>"
  have valid: "isValidChain long_lib ?c = Inr True" "isValidChain long_lib ?d = Inr True"
    by (simp_all add: isValidChain_eq valid_blocks_def valid_pair_def CalculateBlockHash_text)
  have laws: "json_laws long_lib" using demo_json_laws by (simp add: json_laws_def long_lib_def js_object_def js_array_def)
  have T: "hashed_texts long_lib (blocks ?c) \<union> hashed_texts long_lib (blocks ?d)
      = {block_text long_lib long_first, block_text long_lib long_second, ''null''}"
    by (auto simp: hashed_texts_def transactions_text_def)
  have inj: "inj_on (SHA256 long_lib) (hashed_texts long_lib (blocks ?c) \<union> hashed_texts long_lib (blocks ?d))"
    unfolding T using long_heads by (simp add: inj_on_def)
  have print: "\<forall>b \<in> set (blocks ?c) \<union> set (blocks ?d). printable long_lib (transactions_to_json long_lib (transactions b))"
    by (simp add: printable_def)
  have "transactions (blocks ?c ! 1) = transactions (blocks ?d ! 1)"
    using tampering_shows [OF valid _ _ _ _ _ inj laws print, of 1] by (simp add: chain_size_def)
  then show ?thesis by simp
qed

theorem first_hash_forged_witness:
  "\<exists>g b. isValidChain long_lib (empty_blockchain\<lparr>blocks := [g\<lparr>hash := CHR ''5'' # hash g\<rparr>,
       b\<lparr>blockTime := 1, previousHash := CHR ''5'' # hash g\<rparr>]\<rparr>) = Inr True \<and> blockTime b = 15"
proof -
  let ?b = "long_second\<lparr>blockTime := 15\<rparr>"
  have "hd (block_text long_lib ?b) = CHR ''1''" by (simp add: block_text_def block_hash_text_def u64_dec_def)
  then have "isValidChain long_lib (empty_blockchain\<lparr>blocks := [long_first, ?b]\<rparr>) = Inr True"
    by (simp add: isValidChain_eq valid_blocks_def valid_pair_def CalculateBlockHash_text)
  moreover have "i64_dec (blockTime ?b) = i64_dec 1 @ ''5''" by (simp add: i64_dec_def)
  ultimately show ?thesis using first_hash_forged [where L = long_lib and c = empty_blockchain and g = long_first and b = ?b and bs = "[]" and t = 1]
    by (intro exI [of _ long_first] exI [of _ ?b]) simp
qed

theorem difficulty_malleable_witness:
  "\<exists>b. difficulty b = 11 \<and> ValidHash (demo_lib\<lparr>sha256_digest := \<lambda>s. replicate 11 (CHR ''0'')\<rparr>) (b\<lparr>nonce := 11, difficulty := 1\<rparr>)"
proof -
  let ?b = "default_block\<lparr>nonce := 1, difficulty := 11, hash := replicate 11 (CHR ''0'')\<rparr>"
  have "ValidHash (demo_lib\<lparr>sha256_digest := \<lambda>s. replicate 11 (CHR ''0'')\<rparr>) ?b"
    by (simp add: ValidHash_iff hash_has_zeros_def CalculateBlockHash_text)
  then show ?thesis
    using difficulty_malleable [of "demo_lib\<lparr>sha256_digest := \<lambda>s. replicate 11 (CHR ''0'')\<rparr>" ?b 11 1] by (intro exI [of _ ?b]) (simp add: u64_dec_def)
qed

theorem transaction_id_ambiguous_witness:
  "txId (calcuateId demo_lib 1 \<lparr>txId = [], txIns = [], txOuts = [\<lparr>address = ''bob1'', amount = dbl_of_nat 7\<rparr>]\<rparr>)
   = txId (calcuateId demo_lib 1 \<lparr>txId = [], txIns = [], txOuts = [\<lparr>address = ''bob'', amount = dbl_of_nat 17\<rparr>]\<rparr>)"
  using transaction_id_ambiguous [of "\<lparr>address = ''bob1'', amount = dbl_of_nat 7\<rparr>" "\<lparr>address = ''bob'', amount = dbl_of_nat 17\<rparr>"
      demo_lib 1 "[]" "[]" "[]" "[]"]
  by (simp add: dbl_str_eval)

theorem blockchain_json_roundtrip_witness:
  "blockchain_from_json demo_lib (blockchain_to_json demo_lib demo_chain) = Inr demo_chain"
  using blockchain_json_roundtrip [OF demo_json_laws, of demo_chain] by (simp add: demo_chain_def empty_blockchain_def)

end
