(* ===== verification/Rest.thy ===== *)
theory Rest
  imports Sync Config
begin

text \<open>
  The HTTP handlers of \<open>MinerApp.cpp\<close> and \<open>ProblemDetails.h\<close>. A handler gets what the server's
  regular expressions have matched (at least one digit, or letters and digits), and returns what it
  writes to the response; one that changes the node also returns the node. The built-in pages are
  generated by the build from \<open>src/html\<close> and are arguments.
\<close>

section \<open>Numbers in requests\<close>

text \<open>
  \<open>std::from_chars\<close>: it reads the longest run of digits from the start; without a digit the error
  is \<open>invalid_argument\<close>, with a number that does not fit \<open>result_out_of_range\<close>, and in both cases the
  variable keeps its value.
\<close>

datatype from_chars_ec = EC_OK | EC_INVALID | EC_RANGE

definition leading_digits :: "string \<Rightarrow> string" where
  "leading_digits s = takeWhile (\<lambda>c. c \<in> set ''0123456789'') s"

definition from_chars_u64 :: "string \<Rightarrow> u64 \<Rightarrow> from_chars_ec \<times> u64" where
  "from_chars_u64 s v =
     (let ds = leading_digits s
      in if ds = [] then (EC_INVALID, v)
         else if dec_value ds < 2 ^ 64 then (EC_OK, word_of_nat (dec_value ds)) else (EC_RANGE, v))"

definition from_chars_int :: "string \<Rightarrow> int \<Rightarrow> from_chars_ec \<times> int" where
  "from_chars_int s v =
     (let neg = (s \<noteq> [] \<and> hd s = CHR ''-'');
          ds = leading_digits (if neg then tl s else s);
          x = (if neg then - int (dec_value ds) else int (dec_value ds))
      in if ds = [] then (EC_INVALID, v)
         else if - (2 ^ 31) \<le> x \<and> x < 2 ^ 31 then (EC_OK, x) else (EC_RANGE, v))"

text \<open>\<open>GetIndent\<close> of the query parameter \<open>indent\<close>, and \<open>dump(indent)\<close>.\<close>

definition GetIndent :: "string option \<Rightarrow> int" where
  "GetIndent param =
     (case param of
        None \<Rightarrow> -1
      | Some identstr \<Rightarrow> (let (ec, ident) = from_chars_int identstr 0 in if ec \<noteq> EC_INVALID then ident else -1))"

definition json_dump :: "'j lib \<Rightarrow> 'j \<Rightarrow> int \<Rightarrow> string" where
  "json_dump L j indent = (if indent \<ge> 0 then js_dump_indent L j indent else js_dump L j)"

section \<open>Responses\<close>

datatype http_status = HTTP_OK | HTTP_CREATED | HTTP_BAD_REQUEST | HTTP_NOT_FOUND | HTTP_SERVER_ERROR

type_synonym reply = "http_status \<times> string"

record problem_detail =
  pdType :: string
  pdTitle :: string
  pdStatus :: u32
  pdDetail :: string
  pdInstance :: string

definition problem_to_json :: "'j lib \<Rightarrow> problem_detail \<Rightarrow> 'j" where
  "problem_to_json L pd = js_object L
     [(''type'', js_of_string L (pdType pd)), (''title'', js_of_string L (pdTitle pd)),
      (''status'', js_of_u64 L (ucast (pdStatus pd))), (''detail'', js_of_string L (pdDetail pd)),
      (''instance'', js_of_string L (pdInstance pd))]"

definition problem_from_json :: "'j lib \<Rightarrow> 'j \<Rightarrow> problem_detail res" where
  "problem_from_json L j =
     bindE (at_string L j ''type'') (\<lambda>ty.
     bindE (at_string L j ''title'') (\<lambda>ti.
     bindE (at_u64 L j ''status'') (\<lambda>st.
     bindE (at_string L j ''detail'') (\<lambda>de.
     bindE (at_string L j ''instance'') (\<lambda>ins.
     Inr \<lparr>pdType = ty, pdTitle = ti, pdStatus = ucast st, pdDetail = de, pdInstance = ins\<rparr>)))))"

interpretation problem_json: json_codec problem_to_json problem_from_json
proof
  have "(ucast (ucast w :: u64) :: u32) = w" for w :: u32
    by (simp add: ucast_up_ucast_id is_up)
  then show "json_laws L \<Longrightarrow> problem_from_json L (problem_to_json L x) = Inr x" for L :: "'j lib" and x
    by (simp add: problem_to_json_def problem_from_json_def at_defs json_simps)
qed

section \<open>The old JSON pages\<close>

definition squoted :: "string \<Rightarrow> string" where
  "squoted s = CHR 0x27 # s @ [CHR 0x27]"

definition int_dec :: "int \<Rightarrow> string" where
  "int_dec i = (if i < 0 then CHR ''-'' # nat_dec (nat (- i)) else nat_dec (nat i))"

definition block_idx_link :: "int \<Rightarrow> string \<Rightarrow> string" where
  "block_idx_link i text = ''<a href='' @ squoted (''/block-idx/'' @ int_dec i) @ ''>'' @ text @ ''</a>&nbsp;''"

definition block_idx_page :: "'j lib \<Rightarrow> node \<Rightarrow> string \<Rightarrow> reply list res" where
  "block_idx_page L n indexStr =
     (let (ec, idx) = from_chars_int indexStr 0; sz = int (chain_size (nodeChain n))
      in if ec \<noteq> EC_OK \<or> idx < 0 \<or> sz \<le> idx
         then Inr [(HTTP_OK, ''<html><body><h2 stye='' @ quoted ''color:red'' @ ''>Invalid Block</h2></body></html>'')]
         else bindE (atE (blocks (nodeChain n)) (nat idx)) (\<lambda>b.
              Inr [(HTTP_OK, ''<pre>'' @ json_dump L (block_to_json L b) 4 @ ''</pre>'' @ ''<br/>''
                     @ (if idx > 0 then block_idx_link (idx - 1) ''prev'' else [])
                     @ ''current: '' @ int_dec idx
                     @ (if idx < sz then ''&nbsp;'' @ block_idx_link (idx + 1) ''next'' else []))]))"

definition blocks_last_page :: "'j lib \<Rightarrow> node \<Rightarrow> string \<Rightarrow> reply list" where
  "blocks_last_page L n indexStr =
     (let (ec, idx) = from_chars_u64 indexStr 0; sz = chain_size (nodeChain n)
      in if ec = EC_INVALID then [(HTTP_BAD_REQUEST, [])]
         else let startingIdx = (if sz \<le> unat idx then 0 else sz - unat idx)
              in [(HTTP_OK, js_dump L (blocks_reply L (drop startingIdx (blocks (nodeChain n)))))])"

section \<open>The REST service\<close>

text \<open>\<open>exponent\<close> is the private key drawn at random, if it is a valid one.\<close>

definition rest_createWallet :: "'j lib \<Rightarrow> nat option \<Rightarrow> reply list" where
  "rest_createWallet L exponent =
     (let privateKey = GeneratePrivateKey L exponent
      in [(HTTP_OK, json_dump L (js_object L
            [(''private-key'', js_of_string L privateKey), (''public-key'', js_of_string L (GetPublicKey L privateKey)),
             (''address'', js_of_string L (GetAddressFromPrivateKey L privateKey))]) 4)])"

text \<open>
  \<open>/rest/startMining\<close> assigns a new thread to \<open>_mineThread\<close>; assigning to a thread object that has
  not been joined ends the program (\<open>std::terminate\<close>). \<open>/rest/stopMining\<close> waits for the thread, if
  there is one, and answers when it has been joined.
\<close>

definition rest_startMining :: "node \<Rightarrow> (node \<times> reply list) res" where
  "rest_startMining n =
     (if miningDone n
      then (if mineThread n then Inl Terminated
            else Inr (n\<lparr>miningDone := False, mineThread := True\<rparr>, [(HTTP_OK, ''OK'')]))
      else Inr (n, [(HTTP_BAD_REQUEST, [])]))"

definition rest_stopMining :: "node \<Rightarrow> node \<times> reply list" where
  "rest_stopMining n =
     (if \<not> miningDone n
      then (let n' = stopMining n
            in if mineThread n' then (n'\<lparr>joining := True\<rparr>, [])
               else (n'\<lparr>joining := False\<rparr>, [(HTTP_OK, ''OK'')]))
      else (n, [(HTTP_BAD_REQUEST, [])]))"

definition rest_stopMining_joined :: "node \<Rightarrow> node \<times> reply list" where
  "rest_stopMining_joined n = (n\<lparr>mineThread := False, joining := False\<rparr>, [(HTTP_OK, ''OK'')])"

definition rest_shutdown :: "node \<Rightarrow> node \<times> reply list" where
  "rest_shutdown n = (signalExit n, [(HTTP_OK, ''OK'')])"

definition rest_createtx :: "'j lib \<Rightarrow> string \<Rightarrow> string \<Rightarrow> node \<Rightarrow> (node \<times> reply list) res" where
  "rest_createtx L path content n =
     (let bad = Inr (n, [(HTTP_BAD_REQUEST, [])])
      in case js_parse L content of
           None \<Rightarrow> bad
         | Some json \<Rightarrow>
             if \<not> js_contains L json ''toaddress'' \<or> \<not> js_contains L json ''privatekey'' \<or> \<not> js_contains L json ''amount''
             then bad
             else bindE (js_at L json ''amount'') (\<lambda>jamount.
               if \<not> js_is_number L jamount then bad
               else bindE (at_string L json ''toaddress'') (\<lambda>toaddress.
                    bindE (at_string L json ''privatekey'') (\<lambda>privateKey.
                    bindE (at_double L json ''amount'') (\<lambda>amt.
                    bindE (CreateTransaction L (nodeChain n) privateKey toaddress amt) (\<lambda>(result, newtx).
                    if result = SUCCESS
                    then Inr (n\<lparr>nodeChain := queueTransaction newtx (nodeChain n)\<rparr>, [(HTTP_CREATED, [])])
                    else bindE (tx_result_to_string result) (\<lambda>text.
                         let details = \<lparr>pdType = ''/createx/'' @ text, pdTitle = text, pdStatus = 500,
                                        pdDetail = [], pdInstance = path\<rparr>
                         in Inr (n, [(HTTP_SERVER_ERROR, js_dump L (problem_to_json L details))]))))))))"

definition rest_summary :: "'j lib \<Rightarrow> node \<Rightarrow> reply list res" where
  "rest_summary L n =
     bindE (backE (blocks (nodeChain n))) (\<lambda>b.
     bindE (cumDifficulty (nodeChain n)) (\<lambda>cd.
     Inr [(HTTP_OK, js_dump L (js_object L
        [(''blocks'', blocks_to_json L [b]), (''cumdiff'', js_of_u64 L cd),
         (''difficulty'', js_of_u64 L (minerDifficulty (nodeMiner n))),
         (''mining'', js_of_bool L (\<not> miningDone n))]))]))"

definition rest_block :: "'j lib \<Rightarrow> string option \<Rightarrow> node \<Rightarrow> string \<Rightarrow> reply list res" where
  "rest_block L indent n indexStr =
     (let (ec, idx) = from_chars_u64 indexStr 0
      in if ec = EC_INVALID then Inr [(HTTP_BAD_REQUEST, [])]
         else if chain_size (nodeChain n) \<le> unat idx then Inr [(HTTP_BAD_REQUEST, [])]
         else bindE (GetBlockDetails (nodeChain n) (unat idx)) (\<lambda>b.
              bindE (assertE (index b = idx)) (\<lambda>_.
              Inr [(HTTP_OK, json_dump L (block_to_json L b) (GetIndent indent))])))"

text \<open>The address is empty when the path names none.\<close>

definition rest_unspent :: "'j lib \<Rightarrow> string option \<Rightarrow> node \<Rightarrow> string \<Rightarrow> reply list res" where
  "rest_unspent L indent n addr =
     bindE (GetUnspentTxOuts L (nodeChain n) addr) (\<lambda>outs.
     Inr [(HTTP_OK, json_dump L (unspent_to_json L outs) (GetIndent indent))])"

definition rest_address :: "'j lib \<Rightarrow> string option \<Rightarrow> node \<Rightarrow> string \<Rightarrow> reply list res" where
  "rest_address L indent n addr =
     bindE (GetAddressLedger (nodeChain n) addr) (\<lambda>ledger.
     Inr [(HTTP_OK, json_dump L (ledger_to_json L ledger) (GetIndent indent))])"

definition rest_tx :: "'j lib \<Rightarrow> string option \<Rightarrow> node \<Rightarrow> string \<Rightarrow> reply list res" where
  "rest_tx L indent n transaction =
     bindE (case FindTransaction (nodeChain n) transaction of
              None \<Rightarrow> Inr []
            | Some (blockindex, txindex) \<Rightarrow>
                bindE (GetBlockDetails (nodeChain n) (unat blockindex)) (\<lambda>tempblock.
                bindE (atE (transactions tempblock) (unat txindex)) (\<lambda>tx.
                let json = js_set L (js_set L (transaction_to_json L tx) ''blockindex'' (js_of_u64 L (index tempblock)))
                             ''time'' (js_of_u64 L (blockTime tempblock))
                in Inr [(HTTP_OK, json_dump L json (GetIndent indent))])))
       (\<lambda>written. Inr (written @ [(HTTP_NOT_FOUND, [])]))"

section \<open>The web pages\<close>

text \<open>
  What the pages depend on: the data folder of the settings and the files in its \<open>html\<close> folder, the
  pages built in, the time of the build and the port the settings name.
\<close>

record web_env =
  dataFolder :: string
  htmlFile :: "string \<Rightarrow> string option"
  builtin :: "string \<Rightarrow> string"
  buildDate :: string
  buildClock :: string
  restPort :: u32

text \<open>The constants of \<open>core.h\<close>; \<open>__DATE__\<close> and \<open>__TIME__\<close> come from the compiler.\<close>

definition VERSION :: string where
  "VERSION = (let VERSION_MAJOR = ''0''; VERSION_MINOR = ''1''; VERSION_PATCH = ''1''
     in VERSION_MAJOR @ ''.'' @ VERSION_MINOR @ ''.'' @ VERSION_PATCH)"

definition BUILDTIMESTAMP :: "web_env \<Rightarrow> string" where
  "BUILDTIMESTAMP env = buildDate env @ '' '' @ buildClock env"

definition APP_NAME_LONG :: string where "APP_NAME_LONG = ''AshCoin''"
definition APP_DOMAIN :: string where "APP_DOMAIN = ''AC''"
definition COPYRIGHT :: string where "COPYRIGHT = ''Copyright (c) 2019-2020, github.com/zethon''"
definition GITHUB_PAGE :: string where "GITHUB_PAGE = ''https://github.com/zethon/ash''"

definition GetRawHtmlContent :: "web_env \<Rightarrow> string \<Rightarrow> string" where
  "GetRawHtmlContent env filename = (case htmlFile env filename of Some data \<Rightarrow> data | None \<Rightarrow> builtin env filename)"

definition app_entries :: "web_env \<Rightarrow> string smap \<Rightarrow> string smap" where
  "app_entries env dict = fold (\<lambda>(k, v). map_put k v)
     [(''%app-title%'', APP_NAME_LONG), (''%app-domain%'', APP_DOMAIN), (''%app-github%'', GITHUB_PAGE),
      (''%app-copyright%'', COPYRIGHT), (''%build-date%'', BUILDTIMESTAMP env), (''%build-version%'', VERSION)] dict"

definition getStandardDictionary :: "web_env \<Rightarrow> string smap \<Rightarrow> string smap" where
  "getStandardDictionary env dict = map_put ''%rest-port%'' (nat_dec (unat (restPort env))) (app_entries env dict)"

definition servePage :: "'j lib \<Rightarrow> web_env \<Rightarrow> string \<Rightarrow> string smap \<Rightarrow> reply list res" where
  "servePage L env filename dict =
     (let d0 = app_entries env dict
      in bindE (assertE (dataFolder env \<noteq> [])) (\<lambda>_.
         let d1 = map_put ''%header_html%'' (DoDictionary L (GetRawHtmlContent env ''header.html'') d0) d0;
             d2 = map_put ''%footer_html%'' (DoDictionary L (GetRawHtmlContent env ''footer.html'') d1) d1
         in Inr [(HTTP_OK, DoDictionary L (GetRawHtmlContent env filename) d2)]))"

text \<open>\<open>style.css\<close> and \<open>common.js\<close> go out as they are.\<close>

definition static_page :: "web_env \<Rightarrow> string \<Rightarrow> reply list res" where
  "static_page env filename =
     bindE (assertE (dataFolder env \<noteq> [])) (\<lambda>_. Inr [(HTTP_OK, GetRawHtmlContent env filename)])"

definition index_page :: "'j lib \<Rightarrow> web_env \<Rightarrow> node \<Rightarrow> reply list res" where
  "index_page L env n =
     bindE (cumDifficulty (nodeChain n)) (\<lambda>cd.
     servePage L env ''index.html'' (fold (\<lambda>(k, v). map_put k v)
       [(''%chain-size%'', u64_dec (word_of_nat (chain_size (nodeChain n)) - 1)),
        (''%chain-diff%'', u64_dec (minerDifficulty (nodeMiner n))),
        (''%chain-cumdiff%'', u64_dec cd),
        (''%mining-status%'', if miningDone n then ''stopped'' else ''started''),
        (''%mining-uuid%'', nodeUuid n)] (getStandardDictionary env [])))"

definition address_page :: "'j lib \<Rightarrow> web_env \<Rightarrow> string \<Rightarrow> reply list res" where
  "address_page L env addr = servePage L env ''address.html'' (map_put ''%address%'' addr [])"

definition tx_page :: "'j lib \<Rightarrow> web_env \<Rightarrow> string \<Rightarrow> reply list res" where
  "tx_page L env tx = servePage L env ''tx.html'' (map_put ''%transaction%'' tx [])"

definition createtx_page :: "'j lib \<Rightarrow> web_env \<Rightarrow> reply list res" where
  "createtx_page L env = servePage L env ''createtx.html'' []"

definition block_dictionary :: "web_env \<Rightarrow> nat \<Rightarrow> u64 \<Rightarrow> block \<Rightarrow> string smap" where
  "block_dictionary env sz bidx b = fold (\<lambda>(k, v). map_put k v)
     [(''%block-id%'', u64_dec bidx), (''%block-hash%'', hash b),
      (''%block-previoushash%'', previousHash b), (''%block-root%'', ''TODO: MERKLE ROOT''),
      (''%block-time%'', ''TODO: BLOCK TIME''), (''%block-difficulty%'', u64_dec (difficulty b)),
      (''%block-nonce%'', u64_dec (nonce b)),
      (''%block-transactions%'', nat_dec (length (transactions b))),
      (''%block-valueout%'', ''TODO: VALUE OUT''),
      (''%block-previd%'', if bidx = 0 then u64_dec (word_of_nat sz - 1) else u64_dec (bidx - 1)),
      (''%block-nextid%'', u64_dec ((bidx + 1) mod word_of_nat sz))] (getStandardDictionary env [])"

definition block_page :: "'j lib \<Rightarrow> web_env \<Rightarrow> node \<Rightarrow> string \<Rightarrow> bool \<Rightarrow> reply list res" where
  "block_page L env n indexStr json =
     (let (ec, bidx) = from_chars_u64 indexStr 0
      in if ec = EC_INVALID \<or> chain_size (nodeChain n) \<le> unat bidx then Inr [(HTTP_BAD_REQUEST, [])]
         else bindE (atE (blocks (nodeChain n)) (unat bidx)) (\<lambda>b.
              bindE (assertE (index b = bidx)) (\<lambda>_.
              if json then Inr [(HTTP_OK, js_dump L (block_to_json L b))]
              else servePage L env ''block.html'' (block_dictionary env (chain_size (nodeChain n)) bidx b))))"

section \<open>The command line\<close>

text \<open>
  What \<open>main\<close> does with the parsed options: help, a new wallet, or a node with the settings of a
  configuration file.
\<close>

datatype main_action = ShowHelp | ShowWallet string | RunNode string

definition main_action ::
  "'j lib \<Rightarrow> platform \<Rightarrow> system_folders \<Rightarrow> bool \<Rightarrow> bool \<Rightarrow> string option \<Rightarrow> nat option \<Rightarrow> main_action res" where
  "main_action L p dirs help createwallet config exponent =
     (if help then Inr ShowHelp
      else if createwallet
      then let privateKey = GeneratePrivateKey L exponent
           in Inr (ShowWallet (json_dump L (js_object L
                [(''private-key'', js_of_string L privateKey), (''public-key'', js_of_string L (GetPublicKey L privateKey)),
                 (''address'', js_of_string L (GetAddressFromPrivateKey L privateKey))]) 4))
      else bindE (getUserFolder p dirs) (\<lambda>userFolder.
           let configFile = getDefaultConfigFile p userFolder
           in Inr (RunNode (case config of Some given \<Rightarrow> given | None \<Rightarrow> configFile))))"

section \<open>Looking up a block\<close>

lemma leading_digits_dec [simp]: "leading_digits (nat_dec n) = nat_dec n"
  using nat_dec_digits [of n]
  by (simp only: leading_digits_def takeWhile_eq_all_conv flip: dec_digits_def) blast

lemma from_chars_u64_dec [simp]: "from_chars_u64 (u64_dec w) v = (EC_OK, w)"
  using unsigned_less [of w] by (simp add: from_chars_u64_def u64_dec_def)

text \<open>\<open>C33\<close>: \<open>/rest/block\<close> with the decimal number of a block of a valid chain answers once, with the
  JSON of exactly that block, inputs resolved, from which the block reads back; a number past the
  end is a bad request.\<close>

theorem rest_block_serves:
  assumes "isValidChain L (nodeChain n) = Inr True" and "index (hd (blocks (nodeChain n))) = 0"
    and "chain_size (nodeChain n) < 2 ^ 64" and "json_laws L"
    and "\<forall>b \<in> set (blocks (nodeChain n)). \<forall>tx \<in> set (transactions b). \<forall>txin \<in> set (txIns tx). in_range (nodeChain n) (txOutPt txin)"
  shows "if unat i < chain_size (nodeChain n)
     then \<exists>b. GetBlockDetails (nodeChain n) (unat i) = Inr b \<and> index b = i \<and> hash b = hash (blocks (nodeChain n) ! unat i)
       \<and> rest_block L None n (u64_dec i) = Inr [(HTTP_OK, js_dump L (block_to_json L b))]
       \<and> block_from_json L (block_to_json L b) = Inr b
     else rest_block L None n (u64_dec i) = Inr [(HTTP_BAD_REQUEST, [])]"
proof (cases "unat i < chain_size (nodeChain n)")
  case True
  let ?c = "nodeChain n"
  let ?b = "(blocks ?c ! unat i)\<lparr>transactions := map (filled ?c) (transactions (blocks ?c ! unat i))\<rparr>"
  have "valid_blocks L (blocks ?c)" using assms(1) by (simp add: isValidChain_eq)
  then have "index (blocks ?c ! unat i) = i"
    using valid_blocks_index [of L "blocks ?c" "unat i"] assms(2) True by (simp add: chain_size_def)
  moreover have "GetBlockDetails ?c (unat i) = Inr ?b"
    using bspec [OF assms(5), of "blocks ?c ! unat i"] True by (simp add: GetBlockDetails_eq chain_size_def)
  ultimately show ?thesis
    using True block_json.from_to [OF assms(4)]
    by (simp add: rest_block_def GetIndent_def json_dump_def not_le)
qed (simp add: rest_block_def)

text \<open>A number that does not fit 64 bits is no error to \<open>/rest/block\<close>: it answers with block 0.\<close>

theorem rest_block_out_of_range:
  assumes "leading_digits s \<noteq> []" and "2 ^ 64 \<le> dec_value (leading_digits s)"
  shows "rest_block L indent n s = rest_block L indent n ''0''"
proof -
  have "from_chars_u64 s 0 = (EC_RANGE, 0)" using assms by (simp add: from_chars_u64_def)
  moreover have "from_chars_u64 ''0'' 0 = (EC_OK, 0)" using from_chars_u64_dec [of 0 0] by (simp add: u64_dec_def)
  ultimately show ?thesis by (simp add: rest_block_def)
qed

section \<open>Creating a transaction\<close>

text \<open>\<open>C29\<close>: a well-formed request for a payment queues exactly the created transaction behind the others and is
  answered 201 without a body; or nothing changes and it is answered 500 with the problem, whose title is the text
  of the result; a transfer to the sender's own address throws out of the handler. A request without the
  key \<open>toaddress\<close> is a bad request; this includes the one shown in \<open>docs/api.md\<close>, which names the key
  \<open>destination\<close>, and whose answers with a field \<open>success\<close> the code never gives.\<close>

theorem rest_createtx_effect:
  assumes "js_parse L content = Some json" and "js_contains L json ''toaddress''" and "js_contains L json ''privatekey''"
    and "js_contains L json ''amount''" and "js_at L json ''amount'' = Inr jamount" and "js_is_number L jamount"
    and "at_string L json ''toaddress'' = Inr toaddr" and "at_string L json ''privatekey'' = Inr key"
    and "at_double L json ''amount'' = Inr amt"
  shows "(\<forall>n' replies. rest_createtx L path content n = Inr (n', replies) \<longrightarrow>
      (\<exists>tx. CreateTransaction L (nodeChain n) key toaddr amt = Inr (SUCCESS, tx) \<and> replies = [(HTTP_CREATED, [])]
          \<and> n' = n\<lparr>nodeChain := (nodeChain n)\<lparr>txQueue := txQueue (nodeChain n) @ [tx]\<rparr>\<rparr>)
      \<or> (\<exists>text r tx. CreateTransaction L (nodeChain n) key toaddr amt = Inr (r, tx) \<and> r \<noteq> SUCCESS \<and> r \<noteq> NOOP_TRANSACTION
          \<and> tx_result_to_string r = Inr text \<and> n' = n
          \<and> replies = [(HTTP_SERVER_ERROR, js_dump L (problem_to_json L
              \<lparr>pdType = ''/createx/'' @ text, pdTitle = text, pdStatus = 500, pdDetail = [], pdInstance = path\<rparr>))]))
    \<and> (iequals L toaddr (GetAddressFromPrivateKey L key) \<longrightarrow>
         rest_createtx L path content n = Inl (RuntimeError ''unknown TxResult''))
    \<and> (\<forall>other ojson. js_parse L other = Some ojson \<longrightarrow> \<not> js_contains L ojson ''toaddress'' \<longrightarrow>
         rest_createtx L path other n = Inr (n, [(HTTP_BAD_REQUEST, [])]))"
proof -
  have run: "rest_createtx L path content n =
      bindE (CreateTransaction L (nodeChain n) key toaddr amt) (\<lambda>(result, newtx).
        if result = SUCCESS then Inr (n\<lparr>nodeChain := queueTransaction newtx (nodeChain n)\<rparr>, [(HTTP_CREATED, [])])
        else bindE (tx_result_to_string result) (\<lambda>text.
          let details = \<lparr>pdType = ''/createx/'' @ text, pdTitle = text, pdStatus = 500, pdDetail = [], pdInstance = path\<rparr>
          in Inr (n, [(HTTP_SERVER_ERROR, js_dump L (problem_to_json L details))])))"
    using assms by (simp add: rest_createtx_def)
  have fails: "r \<noteq> NOOP_TRANSACTION" if "tx_result_to_string r = Inr s" for r s
    using that by (cases r) simp_all
  show ?thesis (is "?effect \<and> (?self \<longrightarrow> ?throws) \<and> ?documented")
  proof (intro conjI impI)
    show ?effect by (auto simp: run bindE_eq_Inr queueTransaction_def Let_def dest: fails split: if_splits)
    show ?throws if ?self using that by (simp add: run CreateTransaction_def Let_def)
    show ?documented by (simp add: rest_createtx_def Let_def)
  qed
qed

section \<open>Looking up a transaction\<close>

text \<open>\<open>/rest/tx\<close> answers an id it knows twice: with the transaction and then, on the same
  response, with \<open>not found\<close>; an id it does not know gets \<open>not found\<close> alone.\<close>

theorem rest_tx_replies:
  assumes "rest_tx L indent n i = Inr replies"
  shows "if \<exists>b \<in> set (blocks (nodeChain n)). \<exists>tx \<in> set (transactions b). txId tx = i
     then \<exists>body. replies = [(HTTP_OK, body), (HTTP_NOT_FOUND, [])]
     else replies = [(HTTP_NOT_FOUND, [])]"
proof -
  note FindTransaction_None [of "nodeChain n" i]
  with assms show ?thesis
    by (auto simp: rest_tx_def bindE_eq_Inr Let_def split: option.splits)
qed

section \<open>Witnesses\<close>

lemma blk_transactions [simp]:
  "transactions blk0 = [\<lparr>txId = [], txIns = [make_tx_in 0 0 0 []], txOuts = [\<lparr>address = ''alice'', amount = dbl_of_nat 57\<rparr>]\<rparr>]"
  "transactions blk1 = [\<lparr>txId = [], txIns = [make_tx_in 1 0 0 []], txOuts = [\<lparr>address = ''alice'', amount = dbl_of_nat 57\<rparr>]\<rparr>]"
  by (simp_all add: blk0_def blk1_def tiny_block_def)

theorem rest_block_serves_witness:
  "\<exists>b. rest_block demo_lib None (sync_node [demo_genesis, demo_block]) ''1''
     = Inr [(HTTP_OK, js_dump demo_lib (block_to_json demo_lib b))] \<and> index b = 1"
proof -
  let ?n = "sync_node [demo_genesis, demo_block]"
  have range: "\<forall>b \<in> set (blocks (nodeChain ?n)). \<forall>tx \<in> set (transactions b). \<forall>txin \<in> set (txIns tx).
      in_range (nodeChain ?n) (txOutPt txin)"
    by (simp add: in_range_def)
  have "u64_dec 1 = ''1''" by (simp add: u64_dec_def)
  then show ?thesis
    using rest_block_serves [of demo_lib ?n 1, OF _ _ _ demo_json_laws range]
    by (auto simp: isValidChain_eq demo_chain_valid chain_size_def)
qed

theorem rest_block_out_of_range_witness:
  "rest_block demo_lib None (sync_node [demo_genesis, demo_block]) ''18446744073709551616''
   = rest_block demo_lib None (sync_node [demo_genesis, demo_block]) ''0''"
  by (rule rest_block_out_of_range) (simp_all add: leading_digits_def dec_value_def digit_value_def)

text \<open>A payment to oneself, and the request of the documentation.\<close>

theorem rest_createtx_effect_witness:
  "\<exists>L :: json lib. rest_createtx L ''/rest/createtx'' ''body'' (sync_node [demo_genesis]) = Inl (RuntimeError ''unknown TxResult'')
     \<and> rest_createtx L ''/rest/createtx'' ''docs'' (sync_node [demo_genesis]) = Inr (sync_node [demo_genesis], [(HTTP_BAD_REQUEST, [])])"
proof -
  let ?j = "JObject [(''toaddress'', JString demo_sender), (''privatekey'', JString ''k''), (''amount'', JUnsigned 10)]"
  let ?d = "JObject [(''privatekey'', JString ''k''), (''destination'', JString ''bob''), (''amount'', JUnsigned 10)]"
  let ?L = "demo_lib\<lparr>js_parse := \<lambda>s. if s = ''docs'' then Some ?d else Some ?j\<rparr>"
  have "GetAddressFromPrivateKey ?L ''k'' = demo_sender"
    by (simp add: demo_sender_def GetAddressFromPrivateKey_def GetPublicKey_def SHA256HexString_def
        RIPEMD160HexString_def)
  moreover have "js_parse ?L ''docs'' = Some ?d" "\<not> js_contains ?L ?d ''toaddress''" by simp_all
  ultimately show ?thesis
    using rest_createtx_effect [of ?L "''body''" ?j "JUnsigned 10" demo_sender "''k''" "dbl_of_nat 10"
        "''/rest/createtx''" "sync_node [demo_genesis]"]
    by (intro exI [of _ ?L]) (simp add: at_defs)
qed

theorem rest_tx_replies_witness:
  "\<exists>body. rest_tx demo_lib None (sync_node [blk0]) [] = Inr [(HTTP_OK, body), (HTTP_NOT_FOUND, [])]"
proof -
  have "FindTransaction (nodeChain (sync_node [blk0])) [] = Some (0, 0)"
    by (simp add: FindTransaction_def)
  moreover have "\<exists>b. GetBlockDetails (nodeChain (sync_node [blk0])) 0 = Inr b \<and> length (transactions b) = 1"
    by (simp add: GetBlockDetails_eq in_range_def)
  ultimately obtain replies where r: "rest_tx demo_lib None (sync_node [blk0]) [] = Inr replies"
    by (auto simp: rest_tx_def Let_def)
  show ?thesis using rest_tx_replies [OF r] r by simp
qed

end
