(* ===== verification/Races.thy ===== *)
theory Races
  imports Rest
begin

text \<open>
  Interleavings that the mutex of \<open>MinerApp\<close> does not exclude: a request to stop that comes between
  the test of the mining loop and the start of the search, and a merge between the two halves of the
  storing of a mined block.
\<close>

section \<open>A request to stop is lost\<close>

lemma mine_loop_undisturbed:
  assumes "\<forall>k. \<not> stopped env k \<and> \<not> stoppedEnd env k \<and> \<not> callback_stops env k (index b)"
    and "mine_loop L env diff b extra fuel k n t h = Some (r, b')"
  shows "r = MINED"
  using assms(2)
proof (induction fuel arbitrary: k n t h)
  case (Suc fuel)
  with assms(1) show ?case by (auto simp: Let_def split: if_splits)
qed simp

lemma mineBlock_goes_on:
  assumes "fuel < 2 ^ 64" and "index b > 0" and "previousHash b \<noteq> [] \<or> index b = 1"
    and "\<forall>k < fuel. \<not> stopped env k \<and> \<not> good_nonce L env (minerDifficulty m) b k \<and> \<not> callback_stops env k (index b)"
  shows "mineBlock L env fuel m b = Inr None"
  using mine_loop_reaches [OF assms(1,4), of fuel 0] assms(2,3) by (auto simp: mineBlock_def time_at_def Let_def)

text \<open>\<open>C31\<close>: a request to stop that comes when the thread has made its block but has not yet entered the search
  is lost: \<open>abort()\<close> clears the flag, and \<open>mineBlock\<close> sets it again. The handler waits for the thread,
  and unless the callback ends the search it can only end with a block mined; as long as no nonce
  is good it goes on and no answer is given.\<close>

theorem stop_request_lost:
  assumes "minePc n = Prepared b" and "\<not> miningDone n" and "mineThread n"
    and "rest_stopMining n = (n1, replies)"
    and "env_agrees env (nodeMiner (mine_reset b n1))" and "\<forall>k. \<not> callback_stops env k (index b)"
    and "index b > 0" and "previousHash b \<noteq> [] \<or> index b = 1"
  shows "node_acts L rel n Quiet n1 \<and> replies = [] \<and> joining n1 \<and> \<not> keepTrying (nodeMiner n1)
    \<and> node_acts L rel n1 Quiet (mine_reset b n1)
    \<and> (\<forall>fuel r b'. mineBlock L env fuel (nodeMiner (mine_reset b n1)) b = Inr (Some (r, b')) \<longrightarrow> r = MINED)
    \<and> (\<forall>fuel < 2 ^ 64. (\<forall>k < fuel. \<not> good_nonce L env (minerDifficulty (nodeMiner n)) b k) \<longrightarrow>
         mineBlock L env fuel (nodeMiner (mine_reset b n1)) b = Inr None)"
proof -
  have n1: "n1 = (stopMining n)\<lparr>joining := True\<rparr>" "replies = []"
    using assms(2-4) by (simp_all add: rest_stopMining_def stopMining_def)
  have pc: "minePc n1 = Prepared b" using assms(1) by (simp add: n1 stopMining_def)
  have off: "node_acts L rel n Quiet n1"
    using node_acts.mining_off [OF assms(2), of L rel] assms(3) by (simp add: n1)
  have env: "\<forall>k. \<not> stopped env k \<and> \<not> stoppedEnd env k \<and> \<not> callback_stops env k (index b)"
    using assms(5,6) by (auto simp: env_agrees_def)
  have miner: "minerDifficulty (nodeMiner (mine_reset b n1)) = minerDifficulty (nodeMiner n)"
    by (simp add: n1 stopMining_def miner_abort_def)
  have "r = MINED" if "mineBlock L env fuel (nodeMiner (mine_reset b n1)) b = Inr (Some (r, b'))" for fuel r b'
    using that mine_loop_undisturbed [OF env] by (auto simp: mineBlock_def res_simps Let_def)
  moreover have "mineBlock L env fuel (nodeMiner (mine_reset b n1)) b = Inr None"
    if "fuel < 2 ^ 64" "\<forall>k < fuel. \<not> good_nonce L env (minerDifficulty (nodeMiner n)) b k" for fuel
    using that env assms(7,8) miner by (intro mineBlock_goes_on) simp_all
  ultimately show ?thesis
    using off node_acts.reset [OF pc] n1 by (auto simp: stopMining_def miner_abort_def)
qed

section \<open>A merge between appending and writing\<close>

text \<open>\<open>C30\<close>: the file is spoilt if a handler merges a chain after the mining thread has appended its block to
  the chain in memory and before it writes it to the file: this happens outside the mutex, once
  mining has been told to stop. The file then holds the new chain followed by a block that
  does not continue it, and the program can no longer start on it.\<close>

theorem unlocked_write_spoils_file:
  assumes "\<forall>b \<in> U. storable b" and "node_inv L U n" and "minePc n = Appended b" and "miningDone n"
    and "finishing n = Suc k" and "tempchain n = Some t" and "index (hd (blocks t)) = 0"
    and "previousHash b \<noteq> hash (last (blocks t))"
  shows "\<exists>n1 n2 db'. node_acts L rel n Merged n1 \<and> node_acts L rel n1 Quiet n2 \<and> nodeChain n2 = t
    \<and> dbFile (database n2) = Some (concat (map write_block (blocks t)) @ write_block b)
    \<and> db_initialize L gcb True empty_blockchain (database n2) = (db', Inl (LogicError ''invalid chain''))"
proof -
  have t: "blocks t \<noteq> []" "set (blocks t) \<subseteq> U" "b \<in> U" and db: "db_holds (database n) (stored n)"
    using assms(2,3,6) by (simp_all add: node_inv_def temp_ok_def pc_ok_def)
  let ?db = "db_writeChain t (db_reset (database n))"
  let ?n1 = "n\<lparr>nodeChain := t, database := ?db, tempchain := None, finishing := k\<rparr>"
  have "handler_end L n = Inr (n\<lparr>nodeChain := t, database := ?db, tempchain := None\<rparr>)"
    using t(1) assms(4,6,7) by (simp add: handler_end_def syncBlockchain_def frontE_def)
  from node_acts.settle [OF assms(5) this] have one: "node_acts L rel n Merged ?n1" by simp
  have two: "node_acts L rel ?n1 Quiet (mine_write b ?n1)" using assms(3) by (intro node_acts.written) simp
  have "db_holds ?db (blocks t)" using db.holds_rewrite [OF db, of t] t(2) assms(1) by auto
  then have holds: "db_holds (db_write b ?db) (blocks t @ [b])"
    using db.holds_write [of ?db "blocks t" b] t(3) assms(1) by simp
  have "\<not> valid_blocks L (blocks t @ [b])"
    using assms(8) t(1) by (simp add: valid_blocks_snoc valid_pair_def)
  with holds have "\<exists>db'. db_initialize L gcb True empty_blockchain (db_write b ?db) = (db', Inl (LogicError ''invalid chain''))"
    using storable_blocks [of "blocks t @ [b]"] read_blocks_written [of "blocks t @ [b]"]
    by (simp add: db_holds_def db_initialize_file empty_blockchain_def Let_def del: map_append)
  moreover have "dbFile (db_write b ?db) = Some (concat (map write_block (blocks t)) @ write_block b)"
    using holds by (simp add: db_holds_def)
  ultimately show ?thesis
    using one two by (intro exI [of _ ?n1] exI [of _ "mine_write b ?n1"]) (simp add: mine_write_def)
qed

section \<open>Witnesses\<close>

theorem stop_request_lost_witness:
  "\<exists>n1. rest_stopMining ((sync_node [blk0])\<lparr>minePc := Prepared mine_block, miningDone := False, mineThread := True\<rparr>) = (n1, [])
     \<and> node_acts sync_lib True n1 Quiet (mine_reset mine_block n1) \<and> joining n1"
proof -
  let ?n = "(sync_node [blk0])\<lparr>minePc := Prepared mine_block, miningDone := False, mineThread := True\<rparr>"
  let ?n1 = "(stopMining ?n)\<lparr>joining := True\<rparr>"
  have stop: "rest_stopMining ?n = (?n1, [])" by (simp add: rest_stopMining_def stopMining_def)
  have "env_agrees quiet_env (nodeMiner (mine_reset mine_block ?n1))" by (simp add: env_agrees_def)
  from stop_request_lost [OF _ _ _ stop this, of sync_lib True] stop show ?thesis by simp
qed

theorem unlocked_write_spoils_file_witness:
  "\<exists>n n1 n2 db'. minePc n = Appended blk1 \<and> blocks (nodeChain n) = [blk0, blk1] \<and> node_inv sync_lib {blk0, blk1, blk2} n
     \<and> node_acts sync_lib True n Merged n1 \<and> node_acts sync_lib True n1 Quiet n2
     \<and> blocks (nodeChain n2) = [blk0, blk1, blk2]
     \<and> db_initialize sync_lib None True empty_blockchain (database n2) = (db', Inl (LogicError ''invalid chain''))"
proof -
  let ?t = "empty_blockchain\<lparr>blocks := [blk0, blk1, blk2]\<rparr>" and ?U = "{blk0, blk1, blk2}"
  let ?n = "(sync_node [blk0])\<lparr>nodeChain := empty_blockchain\<lparr>blocks := [blk0, blk1]\<rparr>, minePc := Appended blk1, finishing := 1,
      tempchain := Some ?t\<rparr>"
  have storable: "\<forall>b \<in> ?U. storable b" using blk_storable by blast
  have inv: "node_inv sync_lib ?U ?n"
    using blk_valid storable by (simp add: node_inv_def stored_def pc_ok_def chain_ok_def temp_ok_def db_holds_def)
  from unlocked_write_spoils_file [OF storable inv, of blk1 0 ?t True None] obtain n1 n2 db' where
    "node_acts sync_lib True ?n Merged n1" "node_acts sync_lib True n1 Quiet n2" "nodeChain n2 = ?t"
    "db_initialize sync_lib None True empty_blockchain (database n2) = (db', Inl (LogicError ''invalid chain''))"
    by fastforce
  with inv show ?thesis by (intro exI [of _ ?n] exI [of _ n1] exI [of _ n2] exI [of _ db']) simp
qed

end
