(* ===== verification/Crash.thy ===== *)
theory Crash
  imports Replica Races
begin

text \<open>
  What is left of the chain when the program is killed while it merges a received chain: the files
  between the writes of \<open>syncBlockchain\<close>, and the chains that the next start makes of them.
\<close>

section \<open>Files between the writes\<close>

text \<open>\<open>writeChain\<close> when only the first \<open>k\<close> blocks have reached the file.\<close>

definition writeChain_upto :: "nat \<Rightarrow> blockchain \<Rightarrow> chain_db \<Rightarrow> chain_db" where
  "writeChain_upto k c db = db_writeChain (c\<lparr>blocks := take k (blocks c)\<rparr>) db"

lemma writeChain_upto_all: "length (blocks c) \<le> k \<Longrightarrow> writeChain_upto k c db = db_writeChain c db"
  by (simp add: writeChain_upto_def)

lemma writeChain_upto_load:
  assumes "db_holds db old" and "\<forall>b \<in> set (blocks c). storable b" and "valid_blocks L (blocks c)"
  shows "\<exists>db'. db_initialize L gcb True empty_blockchain (writeChain_upto k c (db_reset db))
    = (db', Inr (empty_blockchain\<lparr>blocks := take k (blocks c)\<rparr>))"
  using db.load_after_rewrite [OF assms(1), of "c\<lparr>blocks := take k (blocks c)\<rparr>" L empty_blockchain gcb] assms(2,3)
  by (auto simp: writeChain_upto_def empty_blockchain_def valid_blocks_take dest: in_set_takeD)

text \<open>A merge that does not just append writes the whole chain again.\<close>

lemma syncBlockchain_rewrites:
  assumes "tempchain n = Some t" and "blocks t \<noteq> []" and "blocks (nodeChain n) \<noteq> []"
    and "index (hd (blocks t)) \<le> index (last (blocks (nodeChain n)))" and "syncBlockchain L n = Inr (r, n')"
  shows "r \<and> database n' = db_writeChain (nodeChain n') (db_reset (database n))"
  using assms by (auto simp: syncBlockchain_def frontE_def backE_def bindE_eq_Inr split: if_splits)

lemma mine_prepare_empty: "blocks (nodeChain n) = [] \<Longrightarrow> mine_prepare L rel now n = Inl AssertFailed"
  by (simp add: mine_prepare_def getAdjustedDifficulty_def assertE_def chain_size_def)

section \<open>A crash in a merge\<close>

text \<open>\<open>C7\<close>: a merge that replaces blocks first removes the file and then writes the new chain. Killed in
  between, the program depends on what had been written: before the file is opened again the next start
  makes a new genesis block; later it loads the first blocks of the new chain, as many as were written out,
  and with none it runs on an empty chain, on which the mining thread fails its first assertion. If the two
  chains differ in a block that both have, none of these files gives the old chain back. (If the new chain
  continues the old one, the file holds the old chain again once its blocks are written.)\<close>

theorem merge_crash_loses_chain:
  assumes "consistent U" and "\<forall>b \<in> U. storable b" and "node_ok L U n" and "storable g"
    and "tempchain n = Some t" and "index (hd (blocks t)) \<le> index (last (blocks (nodeChain n)))"
  shows "\<exists>n' db1. syncBlockchain L n = Inr (True, n')
    \<and> database n' = db_writeChain (nodeChain n') (db_reset (database n))
    \<and> db_initialize L (Some g) True empty_blockchain (db_reset (database n)) = (db1, Inr (empty_blockchain\<lparr>blocks := [g]\<rparr>))
    \<and> (\<forall>k. \<exists>dbk. db_initialize L (Some g) True empty_blockchain (writeChain_upto k (nodeChain n') (db_reset (database n)))
         = (dbk, Inr (empty_blockchain\<lparr>blocks := take k (blocks (nodeChain n'))\<rparr>)))
    \<and> mine_prepare L rel now (n\<lparr>nodeChain := empty_blockchain\<rparr>) = Inl AssertFailed
    \<and> ((\<exists>i. i < length (blocks (nodeChain n)) \<and> i < length (blocks (nodeChain n'))
           \<and> blocks (nodeChain n) ! i \<noteq> blocks (nodeChain n') ! i) \<longrightarrow>
         (\<forall>k. take k (blocks (nodeChain n')) \<noteq> blocks (nodeChain n)))"
proof -
  have differ: "take k ys \<noteq> xs" if "i < length xs" "xs ! i \<noteq> ys ! i" for i k and xs ys :: "block list"
  proof
    assume "take k ys = xs"
    with that(1) have "i < k" "xs ! i = take k ys ! i" by auto
    with that(2) show False by simp
  qed
  obtain r n' where n': "syncBlockchain L n = Inr (r, n')" "node_ok L U n'"
    using syncBlockchain_ok [OF assms(1-3)] by blast
  have chain: "set (blocks (nodeChain n')) \<subseteq> U" "valid_blocks L (blocks (nodeChain n'))"
    and old: "db_holds (database n) (blocks (nodeChain n))" "blocks (nodeChain n) \<noteq> []" "blocks t \<noteq> []"
    using n'(2) assms(3,5) by (simp_all add: node_ok_def chain_ok_def temp_ok_def)
  have whole: "r \<and> database n' = db_writeChain (nodeChain n') (db_reset (database n))"
    by (rule syncBlockchain_rewrites [OF assms(5) old(3,2) assms(6) n'(1)])
  have loads: "\<exists>dbk. db_initialize L (Some g) True empty_blockchain (writeChain_upto k (nodeChain n') (db_reset (database n)))
      = (dbk, Inr (empty_blockchain\<lparr>blocks := take k (blocks (nodeChain n'))\<rparr>))" for k
    using writeChain_upto_load [OF old(1) _ chain(2)] chain(1) assms(2) by blast
  obtain db1 where
    "db_initialize L (Some g) True empty_blockchain (db_reset (database n)) = (db1, Inr (empty_blockchain\<lparr>blocks := [g]\<rparr>))"
    using db_initialize_fresh [of "db_reset (database n)" g L] assms(4) by (simp add: db_reset_def storable_def)
  with n'(1) whole loads show ?thesis
    by (intro exI [of _ n'] exI [of _ db1]) (auto simp: mine_prepare_empty empty_blockchain_def dest: differ)
qed

text \<open>\<open>C8\<close>: a merge that appends never takes anything away: whenever it is interrupted between two blocks,
  the next start loads the old chain with the blocks that were added so far.\<close>

theorem append_crash_keeps_chain:
  assumes "consistent U" and "\<forall>b \<in> U. storable b" and "node_ok L U n" and "tempchain n = Some t"
  shows "\<exists>c db1 db2. add_and_write L (take k (blocks t)) (nodeChain n, database n) = Inr (c, db1)
    \<and> db_initialize L gcb True empty_blockchain db1 = (db2, Inr (empty_blockchain\<lparr>blocks := blocks c\<rparr>))
    \<and> take (length (blocks (nodeChain n))) (blocks c) = blocks (nodeChain n)"
proof -
  have n: "chain_ok L U (blocks (nodeChain n))" "db_holds (database n) (blocks (nodeChain n))" "set (blocks t) \<subseteq> U"
    using assms(3,4) by (simp_all add: node_ok_def temp_ok_def)
  from n(3) have "set (take k (blocks t)) \<subseteq> U" by (auto dest: in_set_takeD)
  then obtain c db1 where c: "add_and_write L (take k (blocks t)) (nodeChain n, database n) = Inr (c, db1)"
      "chain_ok L U (blocks c)" "db_holds db1 (blocks c)"
    using add_and_write_ok [OF assms(1,2) _ n(1,2)] by blast
  moreover have "\<exists>db2. db_initialize L gcb True empty_blockchain db1 = (db2, Inr (empty_blockchain\<lparr>blocks := blocks c\<rparr>))"
    using db.holds_load [OF c(3), of L empty_blockchain gcb] c(2) by (auto simp: chain_ok_def empty_blockchain_def)
  moreover have "take (length (blocks (nodeChain n))) (blocks c) = blocks (nodeChain n)"
    using add_blocks_work [OF add_and_write_fst [OF c(1)]] n(1) by (auto simp: chain_ok_def)
  ultimately show ?thesis by blast
qed

section \<open>Witnesses\<close>

theorem merge_crash_loses_chain_witness:
  "\<exists>n' db1 db2. syncBlockchain sync_lib ((sync_node [blk0, blk1])\<lparr>tempchain := Some (empty_blockchain\<lparr>blocks := [blk0, blk1, blk2]\<rparr>)\<rparr>)
       = Inr (True, n')
     \<and> db_initialize sync_lib (Some blk0) True empty_blockchain (db_reset (database (sync_node [blk0, blk1])))
       = (db1, Inr (empty_blockchain\<lparr>blocks := [blk0]\<rparr>))
     \<and> db_initialize sync_lib (Some blk0) True empty_blockchain
         (writeChain_upto 1 (nodeChain n') (db_reset (database (sync_node [blk0, blk1]))))
       = (db2, Inr (empty_blockchain\<lparr>blocks := take 1 (blocks (nodeChain n'))\<rparr>))"
proof -
  let ?t = "empty_blockchain\<lparr>blocks := [blk0, blk1, blk2]\<rparr>" and ?U = "{blk0, blk1, blk2}"
  let ?n = "(sync_node [blk0, blk1])\<lparr>tempchain := Some ?t\<rparr>"
  have ok: "node_ok sync_lib ?U ?n"
    using sync_node_ok [of "[blk0, blk1]"] blk_valid by (simp add: node_ok_def temp_ok_def)
  have good: "\<forall>b \<in> ?U. storable b" using blk_storable by blast
  from merge_crash_loses_chain [OF blk_consistent good ok, of blk0 ?t True 0] good show ?thesis by fastforce
qed

theorem append_crash_keeps_chain_witness:
  "\<exists>c db1 db2. add_and_write sync_lib [blk1] (empty_blockchain\<lparr>blocks := [blk0]\<rparr>, database (sync_node [blk0])) = Inr (c, db1)
     \<and> db_initialize sync_lib None True empty_blockchain db1 = (db2, Inr (empty_blockchain\<lparr>blocks := blocks c\<rparr>))"
proof -
  let ?t = "empty_blockchain\<lparr>blocks := [blk1, blk2]\<rparr>" and ?U = "{blk0, blk1, blk2}"
  let ?n = "(sync_node [blk0])\<lparr>tempchain := Some ?t\<rparr>"
  have "valid_blocks sync_lib [blk1, blk2]" using blk_valid(1) by (simp add: valid_blocks_def)
  then have ok: "node_ok sync_lib ?U ?n"
    using sync_node_ok [of "[blk0]"] by (simp add: node_ok_def temp_ok_def)
  have good: "\<forall>b \<in> ?U. storable b" using blk_storable by blast
  from append_crash_keeps_chain [OF blk_consistent good ok, of ?t 1 None] show ?thesis by (auto simp del: sync_node_simps(7))
qed

end
