(* ===== verification/Http.thy ===== *)
theory Http
  imports Races
begin

text \<open>
  The HTTP service as a whole: the resources that \<open>initHttp\<close>, \<open>initWebService\<close> and \<open>initRestService\<close>
  register, the handler of each, and what a request can do to a node. That a request path matches the
  expression of a resource, and with which groups, is up to the server.
\<close>

section \<open>Resources\<close>

datatype resource =
    StyleCss | CommonJs | IndexPage | BlockIdxPage | BlocksLast
  | CreateWallet | StartMining | StopMining | Shutdown | CreateTx | Summary | BlockInfo | Unspent | AddressInfo | TxInfo
  | AddressPage | BlockPage | TxPage | CreateTxPage

datatype http_method = GET | POST

text \<open>The regular expression and the method under which a resource is registered.\<close>

fun resource_key :: "resource \<Rightarrow> string \<times> http_method" where
  "resource_key StyleCss = (''^/.*?style.css$'', GET)"
| "resource_key CommonJs = (''^/.*?common.js$'', GET)"
| "resource_key IndexPage = (''^/$'', GET)"
| "resource_key BlockIdxPage = (''^/block-idx/([0-9]+)$'', GET)"
| "resource_key BlocksLast = (''^/blocks/last/([0-9]+)$'', GET)"
| "resource_key CreateWallet = (''^/rest/createWallet'', GET)"
| "resource_key StartMining = (''^/rest/startMining$'', GET)"
| "resource_key StopMining = (''^/rest/stopMining$'', GET)"
| "resource_key Shutdown = (''^/rest/shutdown$'', GET)"
| "resource_key CreateTx = (''^/rest/createtx'', POST)"
| "resource_key Summary = (''^/rest/summary$'', GET)"
| "resource_key BlockInfo = (''^/rest/block/([0-9,]+)'', GET)"
| "resource_key Unspent = (''^/rest/unspent(?:/+|(?:/([0-9a-zA-Z]+)))?$'', GET)"
| "resource_key AddressInfo = (''^/rest/address/([0-9a-zA-Z]+)'', GET)"
| "resource_key TxInfo = (''^/rest/tx/([0-9a-zA-Z]+)'', GET)"
| "resource_key AddressPage = (''^/address/([0-9a-zA-Z]+)$'', GET)"
| "resource_key BlockPage = (''^/block/([0-9,]+)(?:'' @ CHR 0x5C # ''/(json)){0,1}'', GET)"
| "resource_key TxPage = (''^/tx/([0-9a-zA-Z]+)$'', GET)"
| "resource_key CreateTxPage = (''^/createtx'', GET)"

text \<open>No two resources share a key, so that none replaces another in the table of the server.\<close>

lemma resource_key_inject: "resource_key r = resource_key r' \<Longrightarrow> r = r'"
  by (cases r; cases r'; simp)

section \<open>Requests\<close>

text \<open>
  A request as a handler sees it: the match of its path (first the whole of it, then the groups, an
  empty text for a group that took no part), the path, the body and the parameter \<open>indent\<close> of the query.
\<close>

record http_request =
  pathMatch :: "string list"
  requestPath :: string
  requestBody :: string
  indentParam :: "string option"

definition path_match :: "http_request \<Rightarrow> nat \<Rightarrow> string" where
  "path_match req k = (if k < length (pathMatch req) then pathMatch req ! k else [])"

definition pure_handler :: "node \<Rightarrow> reply list res \<Rightarrow> (node \<times> reply list) res" where
  "pure_handler n replies = bindE replies (\<lambda>rs. Inr (n, rs))"

text \<open>\<open>exponent\<close> is the private key drawn at random for a new wallet.\<close>

fun http_handler ::
  "'j lib \<Rightarrow> web_env \<Rightarrow> nat option \<Rightarrow> resource \<Rightarrow> http_request \<Rightarrow> node \<Rightarrow> (node \<times> reply list) res" where
  "http_handler L env exponent StyleCss req n = pure_handler n (static_page env ''style.css'')"
| "http_handler L env exponent CommonJs req n = pure_handler n (static_page env ''common.js'')"
| "http_handler L env exponent IndexPage req n = pure_handler n (index_page L env n)"
| "http_handler L env exponent BlockIdxPage req n = pure_handler n (block_idx_page L n (path_match req 1))"
| "http_handler L env exponent BlocksLast req n = Inr (n, blocks_last_page L n (path_match req 1))"
| "http_handler L env exponent CreateWallet req n = Inr (n, rest_createWallet L exponent)"
| "http_handler L env exponent StartMining req n = rest_startMining n"
| "http_handler L env exponent StopMining req n = Inr (rest_stopMining n)"
| "http_handler L env exponent Shutdown req n = Inr (rest_shutdown n)"
| "http_handler L env exponent CreateTx req n = rest_createtx L (requestPath req) (requestBody req) n"
| "http_handler L env exponent Summary req n = pure_handler n (rest_summary L n)"
| "http_handler L env exponent BlockInfo req n = pure_handler n (rest_block L (indentParam req) n (path_match req 1))"
| "http_handler L env exponent Unspent req n = pure_handler n (rest_unspent L (indentParam req) n (path_match req 1))"
| "http_handler L env exponent AddressInfo req n = pure_handler n (rest_address L (indentParam req) n (path_match req 1))"
| "http_handler L env exponent TxInfo req n = pure_handler n (rest_tx L (indentParam req) n (path_match req 1))"
| "http_handler L env exponent AddressPage req n = pure_handler n (address_page L env (path_match req 1))"
| "http_handler L env exponent BlockPage req n =
     pure_handler n (block_page L env n (path_match req 1) (length (pathMatch req) > 2 \<and> path_match req 2 = ''json''))"
| "http_handler L env exponent TxPage req n = pure_handler n (tx_page L env (path_match req 1))"
| "http_handler L env exponent CreateTxPage req n = pure_handler n (createtx_page L env)"

section \<open>What a request can do\<close>

lemma pure_handler_eq [simp]: "pure_handler n rs = Inr (n', replies) \<longleftrightarrow> n' = n \<and> rs = Inr replies"
  by (auto simp: pure_handler_def bindE_eq_Inr)

text \<open>What no request changes.\<close>

definition http_keeps :: "node \<Rightarrow> node \<Rightarrow> bool" where
  "http_keeps n n' \<longleftrightarrow> blocks (nodeChain n') = blocks (nodeChain n) \<and> database n' = database n
     \<and> tempchain n' = tempchain n \<and> minePc n' = minePc n"

lemma http_keeps_refl [simp]: "http_keeps n n"
  by (simp add: http_keeps_def)

text \<open>The four handlers that change the node.\<close>

lemma createtx_request:
  assumes "rest_createtx L path content n = Inr (n', replies)"
  shows "(n' = n \<or> node_acts L rel n Quiet n') \<and> http_keeps n n' \<and> length replies = 1"
proof -
  have "(n' = n \<or> (\<exists>tx. n' = n\<lparr>nodeChain := queueTransaction tx (nodeChain n)\<rparr>)) \<and> length replies = 1"
    using assms by (auto simp: rest_createtx_def Let_def bindE_eq_Inr split: option.splits if_splits)
  then show ?thesis using node_acts.transact by (auto simp: http_keeps_def queueTransaction_def)
qed

lemma start_request:
  assumes "rest_startMining n = Inr (n', replies)"
  shows "(n' = n \<or> node_acts L rel n Quiet n') \<and> http_keeps n n' \<and> length replies = 1"
  using assms node_acts.mining_on [of n L rel] by (auto simp: rest_startMining_def http_keeps_def split: if_splits)

lemma stop_request:
  assumes "rest_stopMining n = (n', replies)"
  shows "(n' = n \<or> node_acts L rel n Quiet n') \<and> http_keeps n n' \<and> (length replies = 1 \<or> replies = [] \<and> joining n')"
  using assms node_acts.mining_off [of n L rel]
  by (auto simp: rest_stopMining_def http_keeps_def stopMining_def Let_def split: if_splits)

lemma shutdown_request:
  "node_acts L rel n Quiet (fst (rest_shutdown n)) \<and> http_keeps n (fst (rest_shutdown n)) \<and> length (snd (rest_shutdown n)) = 1"
  using node_acts.exit_signal by (simp add: rest_shutdown_def http_keeps_def signalExit_def stopMining_def)

lemma tx_replies:
  "rest_tx L indent n i = Inr replies \<Longrightarrow> length replies = 1 \<or> length replies = 2"
  by (auto simp: rest_tx_def bindE_eq_Inr Let_def split: option.splits)

lemma page_replies:
  "servePage L env f d = Inr rs \<Longrightarrow> length rs = 1" "static_page env f = Inr rs \<Longrightarrow> length rs = 1"
  "index_page L env n = Inr rs \<Longrightarrow> length rs = 1" "address_page L env s = Inr rs \<Longrightarrow> length rs = 1"
  "tx_page L env s = Inr rs \<Longrightarrow> length rs = 1" "createtx_page L env = Inr rs \<Longrightarrow> length rs = 1"
  "block_page L env n s json = Inr rs \<Longrightarrow> length rs = 1" "block_idx_page L n s = Inr rs \<Longrightarrow> length rs = 1"
  "length (blocks_last_page L n s) = 1" "length (rest_createWallet L e) = 1"
  "rest_summary L n = Inr rs \<Longrightarrow> length rs = 1" "rest_block L i n s = Inr rs \<Longrightarrow> length rs = 1"
  "rest_unspent L i n s = Inr rs \<Longrightarrow> length rs = 1" "rest_address L i n s = Inr rs \<Longrightarrow> length rs = 1"
proof -
  show page: "servePage L env f d = Inr rs \<Longrightarrow> length rs = 1" for f d rs
    by (auto simp: servePage_def Let_def bindE_eq_Inr)
  show "static_page env f = Inr rs \<Longrightarrow> length rs = 1" by (auto simp: static_page_def bindE_eq_Inr)
  show "index_page L env n = Inr rs \<Longrightarrow> length rs = 1" by (auto simp: index_page_def bindE_eq_Inr dest: page)
  show "address_page L env s = Inr rs \<Longrightarrow> length rs = 1" by (auto simp: address_page_def dest: page)
  show "tx_page L env s = Inr rs \<Longrightarrow> length rs = 1" by (auto simp: tx_page_def dest: page)
  show "createtx_page L env = Inr rs \<Longrightarrow> length rs = 1" by (auto simp: createtx_page_def dest: page)
  show "block_page L env n s json = Inr rs \<Longrightarrow> length rs = 1"
    by (auto simp: block_page_def bindE_eq_Inr dest: page split: prod.splits if_splits)
  show "block_idx_page L n s = Inr rs \<Longrightarrow> length rs = 1"
    by (auto simp: block_idx_page_def bindE_eq_Inr Let_def split: prod.splits if_splits)
  show "length (blocks_last_page L n s) = 1" by (auto simp: blocks_last_page_def Let_def split: prod.splits)
  show "length (rest_createWallet L e) = 1" by (simp add: rest_createWallet_def Let_def)
  show "rest_summary L n = Inr rs \<Longrightarrow> length rs = 1" by (auto simp: rest_summary_def bindE_eq_Inr)
  show "rest_block L i n s = Inr rs \<Longrightarrow> length rs = 1"
    by (auto simp: rest_block_def bindE_eq_Inr Let_def split: prod.splits if_splits)
  show "rest_unspent L i n s = Inr rs \<Longrightarrow> length rs = 1" by (auto simp: rest_unspent_def bindE_eq_Inr)
  show "rest_address L i n s = Inr rs \<Longrightarrow> length rs = 1" by (auto simp: rest_address_def bindE_eq_Inr)
qed

text \<open>\<open>C28\<close>: whatever is requested over HTTP, a node that answers is either as before, or has made one of the
  steps of its model: a transaction more in the queue, mining started or stopped, or the exit signalled.
  No request touches the chain or the file, only the four resources that are meant to change
  something do, and each request is answered once, but for two: \<open>/rest/stopMining\<close>, which waits for
  the mining thread before it answers, and \<open>/rest/tx\<close>, which writes \<open>not found\<close> behind an answer.\<close>

theorem http_request_safe:
  assumes "http_handler L env exponent r req n = Inr (n', replies)"
  shows "(n' = n \<or> r \<in> {StartMining, StopMining, Shutdown, CreateTx} \<and> node_acts L rel n Quiet n')
    \<and> blocks (nodeChain n') = blocks (nodeChain n) \<and> database n' = database n \<and> tempchain n' = tempchain n
    \<and> minePc n' = minePc n
    \<and> (length replies = 1 \<or> r = StopMining \<and> replies = [] \<and> joining n' \<or> r = TxInfo \<and> length replies = 2)"
  using assms
proof (cases r)
  case StartMining
  with assms start_request [of n n' replies L rel] show ?thesis by (auto simp: http_keeps_def)
next
  case StopMining
  with assms stop_request [of n n' replies L rel] show ?thesis by (auto simp: http_keeps_def)
next
  case Shutdown
  with assms shutdown_request [of L rel n] show ?thesis by (auto simp: http_keeps_def)
next
  case CreateTx
  with assms createtx_request [of L "requestPath req" "requestBody req" n n' replies rel] show ?thesis
    by (auto simp: http_keeps_def)
next
  case TxInfo
  with assms tx_replies [of L "indentParam req" n "path_match req 1" replies] show ?thesis by auto
qed (auto dest: page_replies(1-8,11-14) simp: page_replies(9,10))

section \<open>Witness\<close>

definition plain_pages :: web_env where
  "plain_pages = \<lparr>dataFolder = ''data'', htmlFile = \<lambda>f. None, builtin = \<lambda>f. [], buildDate = [], buildClock = [], restPort = 27182\<rparr>"

definition plain_request :: http_request where
  "plain_request = \<lparr>pathMatch = [], requestPath = [], requestBody = [], indentParam = None\<rparr>"

theorem http_request_safe_witness:
  "\<exists>n n' replies. http_handler sync_lib plain_pages None StopMining plain_request n = Inr (n', replies)
     \<and> n' \<noteq> n \<and> node_acts sync_lib True n Quiet n' \<and> blocks (nodeChain n') = [blk0] \<and> joining n' \<and> replies = []"
proof -
  let ?n = "(sync_node [blk0])\<lparr>miningDone := False, mineThread := True\<rparr>"
  let ?n' = "(stopMining ?n)\<lparr>joining := True\<rparr>"
  have run: "http_handler sync_lib plain_pages None StopMining plain_request ?n = Inr (?n', [])"
    by (simp add: rest_stopMining_def stopMining_def)
  have "miningDone ?n' \<noteq> miningDone ?n" by (simp add: stopMining_def)
  then have "?n' \<noteq> ?n" by metis
  with http_request_safe [OF run, of True] run show ?thesis
    by (intro exI [of _ ?n] exI [of _ ?n'] exI [of _ "[]"]) simp
qed

end
