(* ===== verification/Logging.thy ===== *)
theory Logging
  imports Config Ordered_Map
begin

text \<open>
  \<open>AshLogger.cpp\<close> and \<open>initializeLogs\<close> of \<open>main.cpp\<close>: the registry of named loggers. Of spdlog the
  model uses that a clone copies level and sinks, that setting a level reaches every registered
  logger, and that the text of \<open>SPDLOG_LEVEL\<close> stands for levels of named loggers and one for the rest
  (its parser is a parameter).
\<close>

section \<open>Levels\<close>

datatype log_level = Trace | Debug | Info | Warn | Err | Critical | Off

fun level_number :: "log_level \<Rightarrow> nat" where
  "level_number Trace = 0"
| "level_number Debug = 1"
| "level_number Info = 2"
| "level_number Warn = 3"
| "level_number Err = 4"
| "level_number Critical = 5"
| "level_number Off = 6"

lemma level_number_inject: "level_number a = level_number b \<longleftrightarrow> a = b"
  by (cases a; cases b) simp_all

instantiation log_level :: linorder
begin

definition less_eq_log_level :: "log_level \<Rightarrow> log_level \<Rightarrow> bool" where
  "less_eq_log_level a b \<longleftrightarrow> level_number a \<le> level_number b"

definition less_log_level :: "log_level \<Rightarrow> log_level \<Rightarrow> bool" where
  "less_log_level a b \<longleftrightarrow> level_number a < level_number b"

instance
  by (intro_classes) (auto simp: less_eq_log_level_def less_log_level_def level_number_inject)

end

section \<open>The registry\<close>

record logger =
  logLevel :: log_level
  logSinks :: "string list"

text \<open>\<open>envLevels\<close> is the environment variable \<open>SPDLOG_LEVEL\<close>.\<close>

record log_registry =
  loggers :: "logger smap"
  envLevels :: string

type_synonym level_parser = "string \<Rightarrow> (string \<times> log_level) list \<times> log_level option"

definition no_loggers :: "string \<Rightarrow> log_registry" where
  "no_loggers env = \<lparr>loggers = [], envLevels = env\<rparr>"

definition set_all_levels :: "log_level \<Rightarrow> log_registry \<Rightarrow> log_registry" where
  "set_all_levels l reg = reg\<lparr>loggers := map (\<lambda>(n, lg). (n, lg\<lparr>logLevel := l\<rparr>)) (loggers reg)\<rparr>"

definition load_levels :: "level_parser \<Rightarrow> string \<Rightarrow> log_registry \<Rightarrow> log_registry" where
  "load_levels parse input reg =
     (let (named, rest) = parse input
      in reg\<lparr>loggers := map (\<lambda>(n, lg). (n, case map_of named n of
             Some l \<Rightarrow> lg\<lparr>logLevel := l\<rparr>
           | None \<Rightarrow> (case rest of Some l \<Rightarrow> lg\<lparr>logLevel := l\<rparr> | None \<Rightarrow> lg))) (loggers reg)\<rparr>)"

definition rootLogger :: "bool \<Rightarrow> log_registry \<Rightarrow> log_registry" where
  "rootLogger release reg =
     (case map_of (loggers reg) ''Ash'' of
        Some lg \<Rightarrow> reg
      | None \<Rightarrow> set_all_levels (if release then Off else Trace)
                  (reg\<lparr>loggers := map_put ''Ash'' \<lparr>logLevel = Info, logSinks = [''stdout'']\<rparr> (loggers reg)\<rparr>))"

definition initializeLogger :: "bool \<Rightarrow> level_parser \<Rightarrow> string \<Rightarrow> log_registry \<Rightarrow> log_registry" where
  "initializeLogger release parse name reg =
     (let reg1 = rootLogger release reg;
          reg2 = (case (map_of (loggers reg1) name, map_of (loggers reg1) ''Ash'') of
                    (None, Some root) \<Rightarrow> reg1\<lparr>loggers := map_put name root (loggers reg1)\<rparr>
                  | _ \<Rightarrow> reg1)
      in load_levels parse (envLevels reg2) reg2)"

text \<open>A message goes to the sinks of its logger if its level is high enough.\<close>

definition logged_to :: "log_registry \<Rightarrow> string \<Rightarrow> log_level \<Rightarrow> string list" where
  "logged_to reg name l =
     (case map_of (loggers reg) name of
        Some lg \<Rightarrow> (if logLevel lg \<le> l then logSinks lg else [])
      | None \<Rightarrow> [])"

section \<open>initializeLogs\<close>

text \<open>The log file that is added to the root logger; a path joined with \<open>/\<close>.\<close>

definition log_file :: "'j lib \<Rightarrow> 'j settings \<Rightarrow> string option res" where
  "log_file L st =
     bindE (value_bool L ''logs.file.enabled'' False st) (\<lambda>enabled.
     if \<not> enabled then Inr None
     else bindE (value_string L ''logs.file.folder'' [] st) (\<lambda>logfolder.
          Inr (if length logfolder > 0
               then Some (logfolder @ (if last logfolder = CHR ''/'' then [] else ''/'') @ ''ash.log'')
               else None)))"

definition add_sink :: "string \<Rightarrow> string \<Rightarrow> log_registry \<Rightarrow> log_registry" where
  "add_sink name sink reg =
     reg\<lparr>loggers := map (\<lambda>(n, lg). (n, if n = name then lg\<lparr>logSinks := logSinks lg @ [sink]\<rparr> else lg)) (loggers reg)\<rparr>"

definition initializeLogs :: "'j lib \<Rightarrow> bool \<Rightarrow> level_parser \<Rightarrow> 'j settings \<Rightarrow> log_registry \<Rightarrow> log_registry res" where
  "initializeLogs L release parse st reg =
     bindE (value_string L ''logs.level'' ''info'' st) (\<lambda>levelstr.
     let reg1 = (rootLogger release reg)\<lparr>envLevels := levelstr\<rparr>;
         reg2 = load_levels parse levelstr reg1
     in bindE (log_file L st) (\<lambda>loggerfilename.
        Inr (case loggerfilename of None \<Rightarrow> reg2 | Some f \<Rightarrow> add_sink ''Ash'' f reg2)))"

section \<open>All loggers agree\<close>

text \<open>Every logger has the level \<open>l\<close> and the sinks \<open>ss\<close>, the root logger exists, and so says the environment.\<close>

definition uniform :: "level_parser \<Rightarrow> log_level \<Rightarrow> string list \<Rightarrow> log_registry \<Rightarrow> bool" where
  "uniform parse l ss reg \<longleftrightarrow> map_of (loggers reg) ''Ash'' \<noteq> None \<and> parse (envLevels reg) = ([], Some l)
     \<and> (\<forall>(n, lg) \<in> set (loggers reg). lg = \<lparr>logLevel = l, logSinks = ss\<rparr>)"

lemma load_levels_uniform: "uniform parse l ss reg \<Longrightarrow> load_levels parse (envLevels reg) reg = reg"
proof -
  assume u: "uniform parse l ss reg"
  have "map (\<lambda>(n, lg). (n, lg\<lparr>logLevel := l\<rparr>)) (loggers reg) = loggers reg"
    by (rule map_idI) (use u in \<open>auto simp: uniform_def\<close>)
  with u show ?thesis by (simp add: load_levels_def uniform_def)
qed

lemma initializeLogger_uniform:
  assumes "uniform parse l ss reg"
  shows "uniform parse l ss (initializeLogger release parse name reg)
    \<and> fst ` set (loggers (initializeLogger release parse name reg)) = insert name (fst ` set (loggers reg))"
proof -
  obtain root where root: "map_of (loggers reg) ''Ash'' = Some root" using assms by (auto simp: uniform_def)
  then have same: "root = \<lparr>logLevel = l, logSinks = ss\<rparr>"
    using assms map_of_SomeD [OF root] by (auto simp: uniform_def)
  have keep: "rootLogger release reg = reg" by (simp add: rootLogger_def root)
  show ?thesis
  proof (cases "map_of (loggers reg) name")
    case (Some lg)
    then have "name \<in> fst ` set (loggers reg)" by (auto dest: map_of_SomeD intro: rev_image_eqI)
    then show ?thesis using assms Some by (auto simp: initializeLogger_def keep load_levels_uniform)
  next
    case None
    let ?reg = "reg\<lparr>loggers := map_put name root (loggers reg)\<rparr>"
    have "uniform parse l ss ?reg"
      using assms same root set_map_put [of name root "loggers reg"] by (auto simp: uniform_def)
    from this load_levels_uniform [OF this] show ?thesis
      using None by (simp add: initializeLogger_def keep root same fst_map_put)
  qed
qed

lemma initializeLoggers_uniform:
  "uniform parse l ss reg \<Longrightarrow> uniform parse l ss (fold (initializeLogger release parse) names reg)
    \<and> fst ` set (loggers (fold (initializeLogger release parse) names reg)) = set names \<union> fst ` set (loggers reg)"
proof (induction names arbitrary: reg)
  case (Cons n names)
  from initializeLogger_uniform [OF Cons.prems, of release n] Cons.IH [of "initializeLogger release parse n reg"]
  show ?case by auto
qed simp

text \<open>Once the logs are set up, every component's logger writes to the log file, whatever the order in
  which the components ask for theirs: a message of the configured level or above reaches both
  the terminal and the file.\<close>

theorem loggers_follow_root:
  assumes "initializeLogs L release parse st (no_loggers env) = Inr reg" and "log_file L st = Inr (Some f)"
    and "value_string L ''logs.level'' ''info'' st = Inr levelstr" and "parse levelstr = ([], Some l)"
    and "name \<in> set names" and "l \<le> m"
  shows "logged_to (fold (initializeLogger release parse) names reg) name m = [''stdout'', f]"
proof -
  have "uniform parse l [''stdout'', f] reg"
    using assms(1-4) by (auto simp: initializeLogs_def Let_def no_loggers_def rootLogger_def load_levels_def
        set_all_levels_def add_sink_def uniform_def)
  note all = initializeLoggers_uniform [OF this, of release names]
  obtain lg where lg: "map_of (loggers (fold (initializeLogger release parse) names reg)) name = Some lg"
    using assms(5) all by (metis UnI1 map_of_eq_None_iff not_None_eq set_map)
  from map_of_SomeD [OF lg] all have "lg = \<lparr>logLevel = l, logSinks = [''stdout'', f]\<rparr>"
    by (auto simp: uniform_def)
  with lg show ?thesis using assms(6) by (simp add: logged_to_def)
qed

text \<open>With the default settings the peers' logger writes warnings to the file in the database folder.\<close>

theorem loggers_follow_root_witness:
  "\<exists>st reg. registerSettings demo_lib Linux ''/home'' = Inr st
     \<and> logged_to (fold (initializeLogger True (\<lambda>s. ([], Some Info))) [''MinerApp'', ''PeerManager''] reg) ''PeerManager'' Warn
       = [''stdout'', ''/home/AshChain/ash.log'']"
proof -
  obtain st where st: "registerSettings demo_lib Linux ''/home'' = Inr st" by (simp add: registerSettings_eq)
  then have vals: "log_file demo_lib st = Inr (Some ''/home/AshChain/ash.log'')"
      "value_string demo_lib ''logs.level'' ''info'' st = Inr ''info''"
    by (auto simp: registerSettings_eq registered_def value_string_def value_bool_def log_file_def
        getDefaultDatabaseFolder_def PATH_SEPERATOR_def)
  obtain reg where reg: "initializeLogs demo_lib True (\<lambda>s. ([], Some Info)) st (no_loggers []) = Inr reg"
    by (simp add: initializeLogs_def vals)
  have "Info \<le> Warn" by (simp add: less_eq_log_level_def)
  with loggers_follow_root [OF reg vals, of Info "''PeerManager''" "[''MinerApp'', ''PeerManager'']" Warn] st
  show ?thesis by auto
qed

end
