(* ===== verification/Platform.thy ===== *)
theory Platform
  imports Prelude
begin

text \<open>
  \<open>ComputerID.h\<close> and its implementations: the id of a node is a digest of the host name and some
  more text. The operating system and the digest are an environment. On macOS the id also contains
  the hardware addresses of the network interfaces, collected by a loop that retries forever when a
  query fails.
\<close>

section \<open>The id of a computer\<close>

text \<open>
  The SHA-1 filter and the hex encoder of Crypto++, the host name, and the address of the object as a stream prints it.
\<close>

record os_env =
  sha1_digest :: "string \<Rightarrow> string"
  hex_lower :: "string \<Rightarrow> string"
  host_name :: string
  this_text :: string

record computer_id =
  uniquePerProcess :: bool
  customData :: string

definition ComputerID :: computer_id where
  "ComputerID = \<lparr>uniquePerProcess = False, customData = []\<rparr>"

definition setCustomData :: "string \<Rightarrow> computer_id \<Rightarrow> computer_id" where
  "setCustomData v i = i\<lparr>customData := v\<rparr>"

definition setUniquePerProcess :: "bool \<Rightarrow> computer_id \<Rightarrow> computer_id" where
  "setUniquePerProcess v i = i\<lparr>uniquePerProcess := v\<rparr>"

text \<open>\<open>SHA1\<close>: the filter's digest through the encoder, in lower case.\<close>

definition SHA1 :: "os_env \<Rightarrow> string \<Rightarrow> string" where
  "SHA1 env data = hex_lower env (sha1_digest env data)"

definition getUUID :: "os_env \<Rightarrow> computer_id \<Rightarrow> string" where
  "getUUID env i =
     SHA1 env (host_name env @ (if uniquePerProcess i then this_text env else [])
       @ (if length (customData i) > 0 then customData i else []))"

text \<open>\<open>ComputerIDWindows.cpp\<close> has its own \<open>SHA1\<close> and \<open>getUUID\<close>, for now with the same text as on Linux.\<close>

definition getUUID_windows :: "os_env \<Rightarrow> computer_id \<Rightarrow> string" where
  "getUUID_windows env i =
     (let ss = host_name env;
          ss = (if uniquePerProcess i then ss @ this_text env else ss);
          ss = (if length (customData i) > 0 then ss @ customData i else ss)
      in SHA1 env ss)"

lemma getUUID_windows_eq: "getUUID_windows = getUUID"
  by (simp add: fun_eq_iff getUUID_windows_def getUUID_def Let_def)

section \<open>macOS: the hardware addresses\<close>

text \<open>
  One pass of the loop over an interface that has an address: \<open>if_nametoindex\<close>, \<open>sysctl\<close> for the
  size, \<open>malloc\<close> and \<open>sysctl\<close> for the data may each fail; else the link is ethernet, with six
  bytes, or something else. \<open>has_addr\<close> is \<open>ifa_addr != nullptr\<close>. The k-th pass asks the system anew.
\<close>

datatype probe = NoIndex | NoSize | NoMemory | NoData | OtherLink | Ethernet "8 word list"

record iface =
  has_addr :: bool
  answers :: "nat \<Rightarrow> probe"

fun hex_nat :: "nat \<Rightarrow> string" where
  "hex_nat n =
     (if n < 16 then [''0123456789abcdef'' ! n] else hex_nat (n div 16) @ [''0123456789abcdef'' ! (n mod 16)])"

declare hex_nat.simps [simp del]

definition mac_text :: "8 word list \<Rightarrow> string" where
  "mac_text bytes =
     hex_nat (unat (bytes ! 0)) @ '':'' @ hex_nat (unat (bytes ! 1)) @ '':'' @ hex_nat (unat (bytes ! 2)) @ '':''
     @ hex_nat (unat (bytes ! 3)) @ '':'' @ hex_nat (unat (bytes ! 4)) @ '':'' @ hex_nat (unat (bytes ! 5))"

text \<open>\<open>continue\<close> leaves \<open>ifaddr\<close> where it is: the failing cases come back to the same interface.\<close>

partial_function (option) mac_loop :: "nat \<Rightarrow> iface list \<Rightarrow> string \<Rightarrow> string option" where
  "mac_loop k ifs builder =
     (case ifs of
        [] \<Rightarrow> Some builder
      | i # rest \<Rightarrow>
          if \<not> has_addr i then mac_loop k rest builder
          else (case answers i k of
                  OtherLink \<Rightarrow> mac_loop (Suc k) rest builder
                | Ethernet bytes \<Rightarrow> mac_loop (Suc k) rest (builder @ mac_text bytes)
                | _ \<Rightarrow> mac_loop (Suc k) ifs builder))"

text \<open>\<open>getifaddrs\<close> fails or gives the list. The outer option is \<open>None\<close> when the loop never ends.\<close>

definition getMacString :: "iface list option \<Rightarrow> string res option" where
  "getMacString ifaddrs =
     (case ifaddrs of
        None \<Rightarrow> Some (Inl (RuntimeError ''call to getifaddrs failed''))
      | Some ifs \<Rightarrow> map_option Inr (mac_loop 0 ifs []))"

definition getUUID_mac :: "os_env \<Rightarrow> iface list option \<Rightarrow> computer_id \<Rightarrow> string res option" where
  "getUUID_mac env ifaddrs i =
     map_option (\<lambda>r. bindE r (\<lambda>mac.
       Inr (SHA1 env (host_name env @ mac @ (if uniquePerProcess i then this_text env else [])
             @ (if length (customData i) > 0 then customData i else []))))) (getMacString ifaddrs)"

section \<open>When the loop ends\<close>

definition answered :: "probe \<Rightarrow> bool" where
  "answered p \<longleftrightarrow> (case p of OtherLink \<Rightarrow> True | Ethernet bytes \<Rightarrow> True | _ \<Rightarrow> False)"

lemma mac_loop_retry:
  "has_addr i \<Longrightarrow> \<not> answered (answers i k) \<Longrightarrow> mac_loop k (i # rest) acc = mac_loop (Suc k) (i # rest) acc"
  by (subst mac_loop.simps) (simp add: answered_def split: probe.splits)

lemma mac_loop_next:
  "mac_loop k [] acc = Some acc"
  "\<not> has_addr i \<Longrightarrow> mac_loop k (i # rest) acc = mac_loop k rest acc"
  "has_addr i \<Longrightarrow> answers i k = OtherLink \<Longrightarrow> mac_loop k (i # rest) acc = mac_loop (Suc k) rest acc"
  "has_addr i \<Longrightarrow> answers i k = Ethernet bytes \<Longrightarrow> mac_loop k (i # rest) acc = mac_loop (Suc k) rest (acc @ mac_text bytes)"
  by (subst mac_loop.simps, simp)+

lemma mac_loop_waits:
  assumes "has_addr i" and "\<forall>m < n. \<not> answered (answers i (k + m))"
  shows "mac_loop k (i # rest) acc = mac_loop (k + n) (i # rest) acc"
  using assms(2)
proof (induction n)
  case 0
  then show ?case by simp
next
  case (Suc n)
  then show ?case using mac_loop_retry [OF assms(1), of "k + n"] by simp
qed

lemma mac_loop_ends:
  assumes "\<forall>i \<in> set ifs. has_addr i \<longrightarrow> (\<forall>k. \<exists>m \<ge> k. answered (answers i m))"
  shows "\<exists>out. mac_loop k ifs acc = Some out"
  using assms
proof (induction ifs arbitrary: k acc)
  case Nil
  then show ?case by (simp add: mac_loop_next)
next
  case (Cons i rest)
  have IH: "\<exists>out. mac_loop k rest acc = Some out" for k acc using Cons by simp
  show ?case
  proof (cases "has_addr i")
    case False
    with IH show ?thesis by (simp add: mac_loop_next)
  next
    case True
    then have "\<exists>m \<ge> k. answered (answers i m)" using Cons.prems by simp
    then have ex: "\<exists>n. answered (answers i (k + n))" by (metis le_add_diff_inverse)
    define n where "n = (LEAST n. answered (answers i (k + n)))"
    have n: "answered (answers i (k + n))" "\<forall>m < n. \<not> answered (answers i (k + m))"
      using LeastI_ex [OF ex] not_less_Least unfolding n_def by blast+
    have "mac_loop k (i # rest) acc = mac_loop (k + n) (i # rest) acc" by (rule mac_loop_waits [OF True n(2)])
    with True n(1) IH show ?thesis
      by (auto simp: answered_def mac_loop_next split: probe.splits)
  qed
qed

text \<open>By fixpoint induction: a loop that has returned has been answered by every interface.\<close>

lemma mac_loop_returned:
  assumes "mac_loop k ifs acc = Some out"
  shows "\<forall>i \<in> set ifs. has_addr i \<longrightarrow> (\<exists>m \<ge> k. answered (answers i m))"
  using assms
proof (rule mac_loop.raw_induct [rotated])
  fix loop k ifs acc out
  assume IH: "\<And>k ifs acc out. loop k ifs acc = Some out \<Longrightarrow> \<forall>i \<in> set ifs. has_addr i \<longrightarrow> (\<exists>m \<ge> k. answered (answers i m))"
    and run: "(case ifs of
        [] \<Rightarrow> Some acc
      | i # rest \<Rightarrow>
          if \<not> has_addr i then loop k rest acc
          else (case answers i k of
                  OtherLink \<Rightarrow> loop (Suc k) rest acc
                | Ethernet bytes \<Rightarrow> loop (Suc k) rest (acc @ mac_text bytes)
                | _ \<Rightarrow> loop (Suc k) ifs acc)) = Some out"
  show "\<forall>i \<in> set ifs. has_addr i \<longrightarrow> (\<exists>m \<ge> k. answered (answers i m))"
  proof (cases ifs)
    case (Cons i rest)
    have later: "\<forall>j \<in> set js. has_addr j \<longrightarrow> (\<exists>m \<ge> k. answered (answers j m))"
      if "loop k' js acc' = Some out" "k \<le> k'" for k' js acc'
      using IH [OF that(1)] that(2) by (meson order_trans)
    show ?thesis
    proof (cases "has_addr i")
      case False
      with run Cons later [of k rest acc] show ?thesis by auto
    next
      case True
      show ?thesis
      proof (cases "answered (answers i k)")
        case ans: True
        with run Cons True obtain acc' where "loop (Suc k) rest acc' = Some out"
          by (auto simp: answered_def split: probe.splits)
        from later [OF this] ans Cons show ?thesis by auto
      next
        case False
        with run Cons True have "loop (Suc k) ifs acc = Some out"
          by (auto simp: answered_def split: probe.splits)
        from later [OF this] show ?thesis by simp
      qed
    qed
  qed simp
qed

text \<open>\<open>C34\<close>: on macOS the id of the node is computed if every interface with an address keeps answering
  sooner or later; a single interface for which a query always fails keeps the loop, and with it
  the start of the program, running forever.\<close>

theorem getMacString_termination:
  "((\<forall>i \<in> set ifs. has_addr i \<longrightarrow> (\<forall>k. \<exists>m \<ge> k. answered (answers i m)))
      \<longrightarrow> (\<exists>uuid. getUUID_mac env (Some ifs) cid = Some (Inr uuid)))
   \<and> ((\<exists>i \<in> set ifs. has_addr i \<and> (\<forall>k. \<not> answered (answers i k)))
      \<longrightarrow> getUUID_mac env (Some ifs) cid = None)"
proof (intro conjI impI)
  assume "\<forall>i \<in> set ifs. has_addr i \<longrightarrow> (\<forall>k. \<exists>m \<ge> k. answered (answers i m))"
  then show "\<exists>uuid. getUUID_mac env (Some ifs) cid = Some (Inr uuid)"
    using mac_loop_ends [of ifs 0 "[]"] by (auto simp: getUUID_mac_def getMacString_def)
next
  assume "\<exists>i \<in> set ifs. has_addr i \<and> (\<forall>k. \<not> answered (answers i k))"
  then have "mac_loop 0 ifs [] = None"
    using mac_loop_returned [of 0 ifs "[]"] by (cases "mac_loop 0 ifs []") auto
  then show "getUUID_mac env (Some ifs) cid = None" by (simp add: getUUID_mac_def getMacString_def)
qed

section \<open>Witnesses\<close>

text \<open>An ethernet interface that answers at the second attempt, and one without a memory to spare.\<close>

definition late_iface :: iface where
  "late_iface = \<lparr>has_addr = True, answers = \<lambda>k. if k = 0 then NoMemory else Ethernet [0, 17, 34, 51, 68, 255]\<rparr>"

definition dead_iface :: iface where
  "dead_iface = \<lparr>has_addr = True, answers = \<lambda>k. NoMemory\<rparr>"

definition plain_env :: os_env where
  "plain_env = \<lparr>sha1_digest = (\<lambda>s. s), hex_lower = (\<lambda>s. s), host_name = ''host'', this_text = ''0x1''\<rparr>"

theorem getMacString_termination_witness:
  "(\<exists>uuid. getUUID_mac plain_env (Some [late_iface]) ComputerID = Some (Inr uuid))
   \<and> getUUID_mac plain_env (Some [late_iface, dead_iface]) ComputerID = None"
proof -
  have "\<exists>m \<ge> k. answered (answers late_iface m)" for k
    by (rule exI [of _ "Suc k"]) (simp add: late_iface_def answered_def)
  then show ?thesis
    using getMacString_termination [of "[late_iface]" plain_env ComputerID]
      getMacString_termination [of "[late_iface, dead_iface]" plain_env ComputerID]
    by (simp add: dead_iface_def answered_def)
qed

end
