(* ===== verification/App.thy ===== *)
theory App
  imports Replica Rest Logging Platform
begin

text \<open>
  The program from its configuration to a running node: the constructor of \<open>MinerApp\<close>, the ports and
  peers it sets up, \<open>run\<close>, the name of the log file, and \<open>main\<close>. What comes from outside is an
  argument: the folders with their chain databases, the text of files, the answers of the system.
\<close>

section \<open>Construction\<close>

text \<open>
  \<open>MinerApp(settings)\<close>. \<open>disk\<close> is what \<open>ChainDatabase(folder)\<close> finds in a folder. The setting
  \<open>chain.reset.enable\<close>, which the program reads whenever a summary arrives, never changes and is
  read here once.
\<close>

definition MinerApp :: "'j lib \<Rightarrow> os_env \<Rightarrow> (string \<Rightarrow> chain_db) \<Rightarrow> 'j settings \<Rightarrow> node res" where
  "MinerApp L env disk st =
     bindE (value_string L ''database.folder'' [] st) (\<lambda>dbfolder.
     bindE (value_bool L ''chain.reset.enable'' False st) (\<lambda>reset.
     Inr \<lparr>nodeChain = empty_blockchain, tempchain = None, database = disk dbfolder, nodeMiner = new_miner 0,
          minePc = Resting, miningDone = False, mineThread = False, joining = False, finishing = 0, nodeDone = False, rewardAddress = [],
          nodeUuid = getUUID env (setCustomData dbfolder ComputerID), resetEnable = reset,
          nodePeers = empty_manager\<rparr>))"

text \<open>The port is a field of type \<open>unsigned short\<close> of the HTTP server.\<close>

definition initHttp_port :: "'j lib \<Rightarrow> 'j settings \<Rightarrow> 16 word res" where
  "initHttp_port L st = bindE (value_u32 L ''rest.port'' HTTPServerPortDefault st) (\<lambda>p. Inr (ucast p))"

definition initWebSocket :: "'j lib \<Rightarrow> 'j settings \<Rightarrow> peer_manager \<Rightarrow> peer_manager res" where
  "initWebSocket L st m =
     bindE (value_u32 L ''websocket.port'' WebSocketServerPorDefault st) (\<lambda>port. Inr (initWebSocketServer port m))"

text \<open>\<open>files\<close> gives the lines of a text file, if there is one.\<close>

definition initPeers :: "'j lib \<Rightarrow> (string \<Rightarrow> string list option) \<Rightarrow> 'j settings \<Rightarrow> peer_manager \<Rightarrow> peer_manager res" where
  "initPeers L files st m =
     bindE (value_string L ''peers.file'' [] st) (\<lambda>peersfile.
     Inr (if length peersfile = 0 then m else connectAll (loadPeers L (files peersfile) m)))"

section \<open>run\<close>

text \<open>What is running afterwards; \<open>browser\<close> is the call that opens a page, if any.\<close>

record running =
  runNode :: node
  httpPort :: "16 word"
  browser :: "browser_call option"

definition local_url :: "string \<Rightarrow> 16 word \<Rightarrow> string" where
  "local_url addr port =
     ''http://'' @ (if addr = [] then ''localhost'' else addr) @ '':'' @ nat_dec (unat port)"

text \<open>
  \<open>run\<close> up to its waiting loop; \<open>None\<close> when the reward address has not been configured. \<open>httpAddr\<close> is
  \<open>_httpServer.config.address\<close>.
\<close>

definition run_app ::
  "'j lib \<Rightarrow> platform \<Rightarrow> block_time \<Rightarrow> string \<Rightarrow> bool \<Rightarrow> (string \<Rightarrow> string list option) \<Rightarrow> string \<Rightarrow> 'j settings \<Rightarrow> node
   \<Rightarrow> running option res" where
  "run_app L p now gendata indexOk files httpAddr st n =
     bindE (value_string L ''mining.miner.address'' [] st) (\<lambda>reward.
     let n1 = n\<lparr>rewardAddress := reward\<rparr>
     in if reward = [] \<or> reward = ''<CHANGE ME>'' then Inr None
        else bindE (initHttp_port L st) (\<lambda>http.
             bindE (initWebSocket L st (nodePeers n1)) (\<lambda>m0.
             bindE (initPeers L files st m0) (\<lambda>m.
             bindE (value_bool L ''mining.autostart'' False st) (\<lambda>autostart.
             bindE (value_bool L ''rest.autoload'' False st) (\<lambda>autoload.
             case node_start L now gendata indexOk autostart (n1\<lparr>nodePeers := m\<rparr>) of
               None \<Rightarrow> Inr None
             | Some started \<Rightarrow> bindE started (\<lambda>n2.
                 bindE (if autoload then openBrowser p (local_url httpAddr http) else Inr None) (\<lambda>b.
                 Inr (Some \<lparr>runNode = n2, httpPort = http, browser = b\<rparr>)))))))))"

text \<open>
  \<open>~MinerApp\<close>: the mining thread is joined, the HTTP server stopped, and the members go, the peer manager
  among them. What stays is the database.
\<close>

definition MinerApp_end :: "node \<Rightarrow> node" where
  "MinerApp_end n = n\<lparr>mineThread := False, nodePeers := shutdown_peers (nodePeers n)\<rparr>"

section \<open>main\<close>

text \<open>
  What surrounds the program: the system with its folders, the chain databases in the folders, the text files, the
  address the HTTP server binds to, whether LevelDB opens, and the kind of the build with spdlog's
  reading of level texts.
\<close>

record outside =
  hostSystem :: platform
  systemFolders :: system_folders
  osEnv :: os_env
  folders :: "string \<Rightarrow> chain_db"
  textFiles :: "string \<Rightarrow> string list option"
  bindAddress :: string
  indexOpens :: bool
  releaseBuild :: bool
  levelParser :: level_parser

text \<open>
  From the text of the configuration file (\<open>None\<close> when there is none) to the running program, the
  text of that file afterwards, and the loggers.
\<close>

definition main_run ::
  "'j lib \<Rightarrow> outside \<Rightarrow> block_time \<Rightarrow> string \<Rightarrow> string option \<Rightarrow> log_registry
   \<Rightarrow> (running option \<times> string \<times> log_registry) res" where
  "main_run L out now gendata config reg =
     bindE (getDataFolder (hostSystem out) (systemFolders out)) (\<lambda>dataDir.
     bindE (initSettings L (hostSystem out) dataDir config) (\<lambda>(st, text).
     bindE (initializeLogs L (releaseBuild out) (levelParser out) st reg) (\<lambda>reg'.
     bindE (MinerApp L (osEnv out) (folders out) st) (\<lambda>n.
     bindE (run_app L (hostSystem out) now gendata (indexOpens out) (textFiles out) (bindAddress out) st n) (\<lambda>r.
     Inr (r, text, reg'))))))"

section \<open>The first start\<close>

lemma registered_values:
  assumes "registerSettings L p dataDir = Inr st" and "kind_laws L" and "json_laws L"
  shows "value_string L ''mining.miner.address'' [] st = Inr ''<CHANGE ME>''"
    "value_bool L ''logs.file.enabled'' False st = Inr True"
    "value_string L ''logs.level'' ''info'' st = Inr ''info''"
    "value_string L ''logs.file.folder'' [] st = Inr (getDefaultDatabaseFolder p dataDir)"
    "value_string L ''database.folder'' [] st = Inr (getDefaultDatabaseFolder p dataDir)"
    "value_bool L ''chain.reset.enable'' False st = Inr True"
  using assms by (auto simp: registerSettings_eq registered_def value_string_def value_bool_def json_simps)

text \<open>A program that is started without a configuration file writes the file with the defaults and
  stops: the default reward address has to be changed first. No chain is made.\<close>

theorem fresh_install_stops:
  assumes "kind_laws L" and "json_laws L" and "getDataFolder (hostSystem out) (systemFolders out) = Inr dataDir"
  shows "\<exists>text reg'. main_run L out now gendata None reg = Inr (None, text, reg')"
proof -
  obtain st where st: "registerSettings L (hostSystem out) dataDir = Inr st" by (simp add: registerSettings_eq)
  note vals = registered_values [OF st assms(1,2)]
  show ?thesis
    by (simp add: main_run_def assms(3) initSettings_def st initializeLogs_def log_file_def MinerApp_def run_app_def vals Let_def)
qed

section \<open>Stopping and starting again\<close>

lemma run_app_starts:
  assumes "run_app L p now gendata indexOk files httpAddr st n = Inr (Some r)"
  shows "\<exists>reward auto m. value_string L ''mining.miner.address'' [] st = Inr reward
    \<and> value_bool L ''mining.autostart'' False st = Inr auto
    \<and> node_start L now gendata indexOk auto (n\<lparr>rewardAddress := reward, nodePeers := m\<rparr>) = Some (Inr (runNode r))"
  using assms by (auto simp: run_app_def Let_def bindE_eq_Inr split: if_splits option.splits)

lemma node_start_frame:
  "node_start L now gendata indexOk auto n = Some (Inr n') \<Longrightarrow> rewardAddress n' = rewardAddress n"
  by (auto simp: node_start_def Let_def split_def res_simps split: if_splits)

lemma openBrowser_again:
  "openBrowser p (local_url addr port) = Inr b \<Longrightarrow> \<exists>b'. openBrowser p (local_url addr' port') = Inr b'"
  by (cases p) (simp_all add: openBrowser_def local_url_def)

lemma run_app_again:
  assumes "run_app L p now gendata indexOk files httpAddr st n = Inr (Some r)"
    and "\<And>reward auto m. node_start L now' gendata' indexOk' auto (n'\<lparr>rewardAddress := reward, nodePeers := m\<rparr>) \<noteq> None
           \<Longrightarrow> \<exists>n2. node_start L now' gendata' indexOk' auto (n'\<lparr>rewardAddress := reward, nodePeers := m\<rparr>) = Some (Inr n2)
                 \<and> P n2"
  shows "\<exists>r'. run_app L p now' gendata' indexOk' files' httpAddr' st n' = Inr (Some r') \<and> P (runNode r')"
proof -
  obtain reward http ws pf auto load b where vals: "value_string L ''mining.miner.address'' [] st = Inr reward"
      "reward \<noteq> []" "reward \<noteq> ''<CHANGE ME>''" "initHttp_port L st = Inr http" "value_u32 L ''websocket.port'' WebSocketServerPorDefault st = Inr ws"
      "value_string L ''peers.file'' [] st = Inr pf" "value_bool L ''mining.autostart'' False st = Inr auto"
      "value_bool L ''rest.autoload'' False st = Inr load" "load \<Longrightarrow> openBrowser p (local_url httpAddr http) = Inr b"
    using assms(1) by (auto simp: run_app_def initPeers_def initWebSocket_def Let_def bindE_eq_Inr split: if_splits option.splits)
  obtain b' where "(if load then openBrowser p (local_url httpAddr' http) else Inr None) = Inr b'"
    using openBrowser_again [OF vals(9), of httpAddr' http] by (cases load) auto
  let ?m0 = "initWebSocketServer ws (nodePeers n')"
  let ?m = "if length pf = 0 then ?m0 else connectAll (loadPeers L (files' pf) ?m0)"
  have "node_start L now' gendata' indexOk' auto (n'\<lparr>rewardAddress := reward, nodePeers := ?m\<rparr>) \<noteq> None"
    using vals(2,3) by (simp add: node_start_def split_def Let_def)
  from assms(2) [OF this] obtain n2 where
    "node_start L now' gendata' indexOk' auto (n'\<lparr>rewardAddress := reward, nodePeers := ?m\<rparr>) = Some (Inr n2)" "P n2"
    by blast
  with vals \<open>_ = Inr b'\<close> show ?thesis by (simp add: run_app_def initPeers_def initWebSocket_def Let_def)
qed

text \<open>\<open>C6\<close>: a restart keeps the chain. A program that starts on an empty folder, runs through steps of its
  threads, peers and users and ends between two of them, and is then started again with the same settings on
  the folder it left behind, at any later time and with whatever peers, has exactly the file it ended
  with and the chain of that file: the chain it ended with, but for a block that had been mined and not
  been written yet. The steps are all steps of the program except that no handler merges a chain between
  the appending of a mined block and its writing, a race that the code allows and that spoils the file.\<close>

theorem restart_keeps_chain:
  assumes "consistent U" and "\<forall>b \<in> U. storable b"
    and "value_string L ''database.folder'' [] st = Inr folder" and "dbFile (disk folder) = None"
    and "MinerApp L env disk st = Inr n"
    and "run_app L p now gendata True files httpAddr st n = Inr (Some r)"
    and "genesisBlock L now (rewardAddress (runNode r)) (nodeUuid n) gendata \<in> U"
    and "(node_step L rel U)\<^sup>*\<^sup>* (runNode r) n'" and "disk' folder = database n'"
    and "MinerApp L env' disk' st = Inr m"
  shows "\<exists>r'. run_app L p now' gendata' True files' httpAddr' st m = Inr (Some r')
    \<and> blocks (nodeChain (runNode r')) = stored n'
    \<and> dbFile (database (runNode r')) = dbFile (database n')
    \<and> ((\<forall>b. minePc n' \<noteq> Appended b) \<longrightarrow> blocks (nodeChain (runNode r')) = blocks (nodeChain n'))"
proof -
  have all: "stored n' = blocks (nodeChain n')" if "\<forall>b. minePc n' \<noteq> Appended b"
    using that by (simp add: stored_def split: mine_pc.splits)
  have n: "nodeChain n = empty_blockchain" "dbFile (database n) = None" "tempchain n = None" "minePc n = Resting"
    using assms(3-5) by (auto simp: MinerApp_def res_simps)
  have m: "nodeChain m = empty_blockchain" "database m = database n'"
    using assms(3,9,10) by (auto simp: MinerApp_def res_simps)
  obtain reward auto pm where start:
      "node_start L now gendata True auto (n\<lparr>rewardAddress := reward, nodePeers := pm\<rparr>) = Some (Inr (runNode r))"
    using run_app_starts [OF assms(6)] by blast
  then have "rewardAddress (runNode r) = reward" by (simp add: node_start_frame)
  with assms(2,7) n have "node_inv L U (runNode r)"
    by (intro node_start_ok [OF _ _ _ _ start]) (simp_all add: empty_blockchain_def)
  then have ok: "node_inv L U n'" using node_steps_inv [OF assms(1,2,8)] by simp
  have load: "\<exists>db'. db_initialize L gcb True empty_blockchain (database n')
      = (db', Inr (empty_blockchain\<lparr>blocks := stored n'\<rparr>)) \<and> dbFile db' = dbFile (database n')" for gcb
    using db.holds_load [of "database n'" "stored n'" L empty_blockchain gcb] ok
    by (auto simp: node_inv_def chain_ok_def empty_blockchain_def db_holds_def)
  have "\<exists>r'. run_app L p now' gendata' True files' httpAddr' st m = Inr (Some r')
    \<and> blocks (nodeChain (runNode r')) = stored n' \<and> dbFile (database (runNode r')) = dbFile (database n')"
  proof (rule run_app_again [OF assms(6), where P = "\<lambda>n2. blocks (nodeChain n2) = stored n'
      \<and> dbFile (database n2) = dbFile (database n')"])
    fix reward auto pm
    let ?m = "m\<lparr>rewardAddress := reward, nodePeers := pm\<rparr>"
    assume "node_start L now' gendata' True auto ?m \<noteq> None"
    moreover obtain db' where "db_initialize L (Some (genesisBlock L now' reward (nodeUuid m) gendata')) True empty_blockchain (database n')
      = (db', Inr (empty_blockchain\<lparr>blocks := stored n'\<rparr>))" "dbFile db' = dbFile (database n')"
      using load by blast
    ultimately show "\<exists>n2. node_start L now' gendata' True auto ?m = Some (Inr n2)
        \<and> blocks (nodeChain n2) = stored n' \<and> dbFile (database n2) = dbFile (database n')"
      using m by (auto simp: node_start_def Let_def split: if_splits)
  qed
  with all show ?thesis by auto
qed

section \<open>The mining thread\<close>

text \<open>Mining that was stopped over HTTP can be started again, because the handler waits for the thread.\<close>

lemma mining_restarts:
  assumes "\<not> miningDone n" and "mineThread n"
  shows "rest_stopMining n = ((stopMining n)\<lparr>joining := True\<rparr>, [])"
    and "\<exists>n'. rest_startMining (fst (rest_stopMining_joined (fst (rest_stopMining n)))) = Inr (n', [(HTTP_OK, ''OK'')])
           \<and> \<not> miningDone n' \<and> mineThread n' \<and> \<not> joining n'"
  using assms by (simp_all add: rest_startMining_def rest_stopMining_def rest_stopMining_joined_def stopMining_def Let_def)


section \<open>Witnesses\<close>

definition alice_settings :: "json settings" where
  "alice_settings = \<lparr>settingValues = [(''mining.miner.address'', JString ''alice'')], defaultValues = [], validators = []\<rparr>"

lemma alice_values:
  "value_string sync_lib ''mining.miner.address'' d alice_settings = Inr ''alice''"
  "name \<noteq> ''mining.miner.address'' \<Longrightarrow> value_string sync_lib name d alice_settings = Inr d"
  "name \<noteq> ''mining.miner.address'' \<Longrightarrow> value_bool sync_lib name t alice_settings = Inr t"
  "name \<noteq> ''mining.miner.address'' \<Longrightarrow> value_u32 sync_lib name w alice_settings = Inr w"
  by (simp_all add: alice_settings_def value_string_def value_bool_def value_u32_def sync_lib_def)

definition alice_genesis :: block where
  "alice_genesis = genesisBlock sync_lib 0 ''alice'' ''host'' []"

lemma alice_genesis_storable: "storable alice_genesis"
  by (simp add: alice_genesis_def genesisBlock_def setData_def setMiner_def new_block_def Let_def storable_def
      ok_block_def ok_header_def short_def ok_tx_def ok_tx_in_def ok_tx_out_def CreateCoinbaseTransaction_def
      stored_block_def stored_tx_def stored_tx_in_def stored_point_def make_tx_in_def make_point_def sync_lib_def
      CalculateBlockHash_def CalculateHash_def GetTransactionId_def calcuateId_def default_block_def min_less_iff_disj)

lemma alice_genesis_consistent: "consistent {alice_genesis}"
  by (simp add: consistent_def alice_genesis_def genesisBlock_def setData_def setMiner_def new_block_def Let_def
      CalculateBlockHash_def CalculateHash_def sync_lib_def default_block_def)

definition alice_node :: node where
  "alice_node =
     \<lparr>nodeChain = empty_blockchain, tempchain = None, database = tiny_db, nodeMiner = new_miner 0,
      minePc = Resting, miningDone = False, mineThread = False, joining = False, finishing = 0, nodeDone = False, rewardAddress = [],
      nodeUuid = ''host'', resetEnable = False, nodePeers = empty_manager\<rparr>"

lemma alice_MinerApp: "MinerApp sync_lib plain_env (\<lambda>f. tiny_db) alice_settings = Inr alice_node"
  by (simp add: MinerApp_def alice_values alice_node_def getUUID_def SHA1_def plain_env_def setCustomData_def ComputerID_def)

lemma alice_runs:
  "\<exists>r. run_app sync_lib Linux 0 [] True (\<lambda>f. None) [] alice_settings alice_node = Inr (Some r)
     \<and> rewardAddress (runNode r) = ''alice'' \<and> blocks (nodeChain (runNode r)) = [alice_genesis]
     \<and> minePc (runNode r) = Resting"
proof -
  have "stored_block alice_genesis = alice_genesis" "ok_block alice_genesis"
    using alice_genesis_storable by (simp_all add: storable_def)
  moreover have "genesisBlock sync_lib 0 ''alice'' ''host'' [] = alice_genesis" by (simp add: alice_genesis_def)
  ultimately show ?thesis
    using db_initialize_fresh [of tiny_db alice_genesis sync_lib]
    by (simp add: run_app_def initHttp_port_def initWebSocket_def initPeers_def alice_values node_start_def
        Let_def alice_node_def) (simp add: tiny_db_def)
qed

theorem restart_keeps_chain_witness:
  "\<exists>(n' :: node) r'. run_app sync_lib Linux 99 ''later'' True (\<lambda>f. None) [] alice_settings (alice_node\<lparr>database := database n'\<rparr>) = Inr (Some r')
     \<and> miningDone n' \<and> blocks (nodeChain (runNode r')) = [alice_genesis]"
proof -
  obtain r where r: "run_app sync_lib Linux 0 [] True (\<lambda>f. None) [] alice_settings alice_node = Inr (Some r)"
      "rewardAddress (runNode r) = ''alice''" "blocks (nodeChain (runNode r)) = [alice_genesis]" "minePc (runNode r) = Resting"
    using alice_runs by blast
  let ?n = "signalExit (runNode r)"
  have step: "(node_step sync_lib True {alice_genesis})\<^sup>*\<^sup>* (runNode r) ?n"
    by (rule r_into_rtranclp [where r = "node_step sync_lib True {alice_genesis}"]) (rule quiet_step, rule node_acts.exit_signal)
  have again: "MinerApp sync_lib plain_env (\<lambda>f. database ?n) alice_settings = Inr (alice_node\<lparr>database := database ?n\<rparr>)"
    by (simp add: MinerApp_def alice_values alice_node_def getUUID_def SHA1_def plain_env_def setCustomData_def ComputerID_def)
  have "\<exists>r'. run_app sync_lib Linux 99 ''later'' True (\<lambda>f. None) [] alice_settings (alice_node\<lparr>database := database ?n\<rparr>) = Inr (Some r')
    \<and> blocks (nodeChain (runNode r')) = stored ?n \<and> dbFile (database (runNode r')) = dbFile (database ?n)
    \<and> ((\<forall>b. minePc ?n \<noteq> Appended b) \<longrightarrow> blocks (nodeChain (runNode r')) = blocks (nodeChain ?n))"
    by (rule restart_keeps_chain [OF alice_genesis_consistent _ _ _ alice_MinerApp r(1) _ step _ again, where folder = "[]"])
      (simp_all add: alice_genesis_storable alice_values tiny_db_def r(2) alice_node_def flip: alice_genesis_def)
  moreover have "stored ?n = [alice_genesis]" using r(3,4) by (simp add: signalExit_def stopMining_def stored_def)
  ultimately show ?thesis by (intro exI [of _ ?n]) (auto simp: signalExit_def stopMining_def)
qed


theorem fresh_install_stops_witness:
  "\<exists>text reg. main_run demo_lib
      \<lparr>hostSystem = Linux, systemFolders = \<lparr>pw_dir = ''/home'', folder_path = \<lambda>i. None\<rparr>, osEnv = plain_env, folders = \<lambda>f. tiny_db, textFiles = \<lambda>f. None, bindAddress = [], indexOpens = True,
       releaseBuild = True, levelParser = \<lambda>s. ([], Some Info)\<rparr>
      0 [] None (no_loggers []) = Inr (None, text, reg)"
  by (rule fresh_install_stops [OF demo_kind_laws demo_json_laws]) (simp add: getDataFolder_def)

end
