(* ===== verification/Spec2Isabelle.thy ===== *)
theory Spec2Isabelle
  imports Prelude Doubles Libs Ordered_Map Json Digests Transactions Blocks Chain Crypto Unspent Accounts Database Mining
    Coins Wallet Supply Config Peers Node Sync Replica Protocol Wire Network Integrity Rest Races Crash Http Logging Platform App
begin

text \<open>
  A model of HenryCoin (the program \<open>ash\<close>, sources under \<open>src/src\<close>) and what has been proved of it.

  \<^bold>\<open>The program.\<close> A node keeps a chain of blocks in memory (\<open>Blockchain\<close>) and in a file
  (\<open>ChainDatabase\<close>). A mining thread makes a block of the queued transactions, searches for a nonce
  (\<open>Miner\<close>) and adds the block. Peers (\<open>PeerManager\<close>) exchange summaries and ranges of blocks over web
  sockets; a received chain waits in \<open>_tempchain\<close> until it is merged. A HTTP server shows the chain,
  the balance of addresses and takes transactions. \<open>MinerApp\<close> ties these together under one mutex.

  \<^bold>\<open>The theories\<close>, in the order of their dependencies:
  \<^item> \<open>Prelude\<close>: machine types, results of code that may fail, loops that may fail, decimal printing.
  \<^item> \<open>Doubles\<close>: IEEE 754 doubles as bit patterns, their rounding, addition, comparison and printing
    with six digits; whole numbers below \<open>2^53\<close> are exact. Amounts of coins are such doubles.
  \<^item> \<open>Libs\<close>: the third-party code (nlohmann::json, Crypto++, boost) as a record of functions, the laws
    relied on (\<open>json_laws\<close>, \<open>kind_laws\<close>), the contract \<open>json_codec\<close> of a \<open>to_json\<close>/\<open>from_json\<close> pair, and
    one concrete library for the witnesses. \<open>Json\<close>: a text format for it, with a parser that reads back
    what was printed. \<open>Digests\<close>: the digests of \<open>CryptoUtils.cpp\<close> over those of Crypto++.
  \<^item> \<open>Ordered_Map\<close>: \<open>std::map\<close> with string keys.
  \<^item> \<open>Transactions\<close> (\<open>Transactions.h/.cpp\<close>), \<open>Blocks\<close> (\<open>Block.h/.cpp\<close>), \<open>Chain\<close> (the class of
    \<open>Blockchain.h/.cpp\<close>: validity, difficulty, queue), \<open>Unspent\<close> and \<open>Accounts\<close> (the free functions of
    \<open>Blockchain.cpp\<close>), \<open>Crypto\<close> (\<open>CryptoUtils.cpp\<close>).
  \<^item> \<open>Database\<close> (\<open>ChainDatabase.h/.cpp\<close>): the byte format with the contract \<open>byte_codec\<close>, which each
    reader and writer meets, and the file with the contract \<open>chain_store\<close>.
  \<^item> \<open>Mining\<close> (\<open>Miner.h\<close>), \<open>Config\<close> (\<open>Settings.h/.cpp\<close>, parts of \<open>AshUtils.cpp\<close> and \<open>main.cpp\<close>), \<open>Peers\<close>
    (\<open>PeerManager.h/.cpp\<close>).
  \<^item> \<open>Node\<close> (\<open>MinerApp.h/.cpp\<close>): the state of a node and its operations, and the labelled steps \<open>node_acts\<close>
    in which the mining thread, handlers of frames, users and peers take turns between any two accesses to
    the shared chain. \<open>node_move\<close> are all of these steps, \<open>node_step\<close> those that are no race: a step races (\<open>races\<close>) if a
    handler merges a chain while a mined block is appended but not written, which the code permits once mining was
    told to stop. What holds of the chain holds for all moves (\<open>node_safe\<close>); that the file agrees with the chain
    holds for runs without a race (\<open>node_inv\<close>).
  \<^item> \<open>Sync\<close>: what merging, a round of mining and serving a range achieve. \<open>Protocol\<close>: two nodes talking.
    \<open>Wire\<close>: the frames that nodes send, whatever they receive. \<open>Network\<close>: any number of nodes on connections that
    lose, repeat and reorder frames, which start, stop and restart, with all interleavings; \<open>netRaced\<close>, which no
    step reads, records the nodes at which a race has happened since their start.
  \<^item> \<open>Races\<close>: interleavings that the mutex does not exclude, the race above among them, and what they break.
  \<^item> \<open>Crash\<close>: the files between the writes of a merge, and what a start after a crash makes of them.
  \<^item> \<open>Integrity\<close>: what the hashes protect. \<open>Rest\<close>: the HTTP handlers, the pages (with \<open>core.h\<close>) and the command
    line. \<open>Http\<close>: all resources together, and what a request can do.
  \<^item> \<open>Coins\<close>, \<open>Wallet\<close> and \<open>Supply\<close>: the abstract ledger, a set of coins each made by one transaction and
    spent by at most one; that unspent outputs and balances implement it; payments and mined double spends
    over it; and that payments by wallets keep the supply at the rewards of the blocks.
  \<^item> \<open>Replica\<close>: the node as a log of blocks that is cut and continued or replaced, with the contract
    \<open>simulation\<close>, interpreted on \<open>node_move\<close> and the specification \<open>log_step\<close>.
  \<^item> \<open>Logging\<close> (\<open>AshLogger.h/.cpp\<close>, \<open>initializeLogs\<close> of \<open>main.cpp\<close>), \<open>Platform\<close> (\<open>ComputerID*.cpp\<close> and the
    id and name of a node), \<open>App\<close> (the constructor and \<open>run\<close> of \<open>MinerApp\<close>, its ports and peers, \<open>main\<close>).

  \<^bold>\<open>How code becomes definitions.\<close> A class is a record and a member function takes and returns it. An
  exception, a failed assertion (assertions are taken to be enabled) and undefined behaviour are values
  on the left of a sum. A part of a function that runs under one lock, or touches the shared chain or file once, is
  one definition and one step: a round of the mining thread is \<open>mine_prepare\<close>, \<open>mine_reset\<close> and \<open>mineBlock\<close>, then
  \<open>mine_giveup\<close>, or \<open>mine_append\<close> and \<open>mine_write\<close>, then \<open>mine_merge\<close> and \<open>mine_announce\<close>; a handler is
  \<open>onChainMessage_part\<close> and \<open>handler_end\<close>. \<open>mine_pc\<close> is where the mining thread stands. What goes out over a connection is a
  list of frames, what a handler writes a list of replies. Random numbers, clock readings, the results of
  \<open>leveldb::DB::Open\<close> and the contents of files are arguments. \<open>_RELEASE\<close> is the argument \<open>rel\<close>.

  \<^bold>\<open>What is shown.\<close> The functional behaviour of each component on all branches, among them the
  characterisation of valid chains, of unspent outputs, of balances and of created transactions; round
  trips of bytes, JSON and base 58; the end of the nonce search; the invariants of a node, by rule induction
  over its steps: its chain is valid whatever happens, and chain, file and reload agree unless a merge races with the
  writing of a mined block; that in a network of such nodes every chain
  is valid and made of mined blocks, and two chains that share a block share everything before it; that the node refines the replicated log
  and the unspent outputs the set of coins; that wallets make no coins; that a restart finds the chain that was written; that the scan for a
  network interface ends; the exchange by which a node catches up with a peer; and where the code falls short of its purpose: malleable
  hashes, an unchecked first hash, lost outputs, outputs the ledger does not see, negative amounts, unchecked replacement of the chain, double spends that are mined, double replies, a mining
  thread that cannot be started twice, a request to stop that is lost, a file that a race spoils, a chain that a crash loses.

  \<^bold>\<open>Bounds and fuel.\<close> Integers have their width; where a statement needs that a count does not wrap, it
  says so (chains below \<open>2^64\<close> blocks, strings and vectors of a stored block below \<open>2^32\<close>). The nonce
  search runs on fuel, and any fuel above the first good nonce is enough; the scan for an interface may
  run forever in the code's terms, is a partial function and is shown to end; reading the file, encoding in
  base 58 and printing numbers terminate by a measure. Sums of whole amounts are exact below \<open>2^53\<close>; the theorems on
  balances, payments and supply are about whole amounts, since those with a fraction are rounded at every addition.

  \<^bold>\<open>Assumptions on hashes.\<close> No theorem assumes a digest without any collisions: where needed a statement
  names the texts on which it must not collide, or that a block's previous hash names the block before it
  (\<open>consistent\<close>). For a network it is enough that the blocks its nodes make have different hashes; the rest, and
  that only blocks made by nodes are received, is derived from the steps.

  \<^bold>\<open>Not modelled\<close>: the HTTP and web socket servers with the matching of their regular expressions, threads and
  sockets (peers and connections are numbers; of the threads where the mining thread and the handlers stand);
  the unused header \<open>BlockInfo.h\<close>; peers that do not run this program (in \<open>Network\<close>; the theorems on a single node
  allow them to send any blocks of \<open>U\<close>); a crash in the middle of one block's bytes (\<open>Crash\<close> cuts between blocks; in
  \<open>Network\<close> a node stops between two steps only); the deadlock that is possible when \<open>createClient\<close> joins the thread of the
  client it replaces; what a read of a missing key of a constant JSON object does (it is the value \<open>UndefinedBehaviour\<close>); the
  lines written to the logs; the parser of the command line (what it yields is an argument); the API of
  Windows below \<open>getWindowsFolder\<close>; failed allocations, such as the string of zeros for a difficulty that exceeds the memory; host
  byte orders other than little-endian; the unsynchronised reads that the HTTP handlers make of the chain (such a
  handler reads in one step);
  the 32-bit counter of the loop in \<open>isValidChain\<close>, which differs from the model from \<open>2^32\<close> blocks on.
\<close>

end
